(* ===== verification/Prelude.thy ===== *)
theory Prelude
  imports Complex_Main "HOL-Library.Word" "HOL-Library.AList" "HOL-Library.Char_ord"
    "HOL-Library.List_Lexorder"
begin

text \<open>
  Shared vocabulary of the development: the Rust integer types as words, the saturating and
  checked operations the code calls on them, text as byte strings with the \<open>str\<close> methods
  the code uses, hash maps and database tables as association lists with one entry per key,
  and the plumbing for fallible stateful code (an error text or a value, and the new state).
\<close>

unbundle bit_operations_syntax

section \<open>Machine integers\<close>

type_synonym u8 = "8 word"
type_synonym u16 = "16 word"
type_synonym u32 = "32 word"
type_synonym u64 = "64 word"
type_synonym u256 = "256 word"

text \<open>Signed 64-bit values (database columns, timestamps) are \<open>int\<close> with the saturation
  written out where the code saturates.\<close>

type_synonym i64 = int

text \<open>An Ethereum address (20 bytes) and raw bytes.\<close>

type_synonym address = "160 word"
type_synonym bytes = "u8 list"

named_theorems rust_arith \<open>unfolding Rust integer operations to nat\<close>

definition u64_max :: u64 where
  "u64_max = - 1"

definition sat_add :: "'a::len word \<Rightarrow> 'a word \<Rightarrow> 'a word" where
  "sat_add a b = (if unat a + unat b < 2 ^ LENGTH('a) then a + b else - 1)"

definition sat_sub :: "'a::len word \<Rightarrow> 'a word \<Rightarrow> 'a word" where
  "sat_sub a b = (if b \<le> a then a - b else 0)"

definition sat_mul :: "'a::len word \<Rightarrow> 'a word \<Rightarrow> 'a word" where
  "sat_mul a b = (if unat a * unat b < 2 ^ LENGTH('a) then a * b else - 1)"

definition checked_add :: "'a::len word \<Rightarrow> 'a word \<Rightarrow> 'a word option" where
  "checked_add a b = (if unat a + unat b < 2 ^ LENGTH('a) then Some (a + b) else None)"

definition clamp_word :: "'a::len word \<Rightarrow> 'a word \<Rightarrow> 'a word \<Rightarrow> 'a word" where
  "clamp_word x lo hi = (if x < lo then lo else if hi < x then hi else x)"

lemma unat_max_word [rust_arith]: "unat (max a (b :: 'a::len word)) = max (unat a) (unat b)"
  by (simp add: max_def word_le_nat_alt)

lemma unat_min_word [rust_arith]: "unat (min a (b :: 'a::len word)) = min (unat a) (unat b)"
  by (simp add: min_def word_le_nat_alt)

lemma unat_all_ones [rust_arith]: "unat (- 1 :: 'a::len word) = 2 ^ LENGTH('a) - 1"
  by (simp add: unsigned_minus_1_eq_mask mask_eq_exp_minus_1)

lemma unat_sat_add [rust_arith]:
  "unat (sat_add a (b :: 'a::len word)) = min (unat a + unat b) (2 ^ LENGTH('a) - 1)"
  by (auto simp: sat_add_def unat_word_ariths rust_arith)

lemma unat_sat_sub [rust_arith]: "unat (sat_sub a (b :: 'a::len word)) = unat a - unat b"
  by (auto simp: sat_sub_def word_le_nat_alt unat_sub)

lemma unat_sat_mul [rust_arith]:
  "unat (sat_mul a (b :: 'a::len word)) = min (unat a * unat b) (2 ^ LENGTH('a) - 1)"
  by (auto simp: sat_mul_def unat_word_ariths rust_arith)

lemma checked_add_Some:
  "checked_add a b = Some c \<Longrightarrow> unat c = unat a + unat b"
  by (auto simp: checked_add_def unat_word_ariths split: if_splits)

lemma unat_u64_bound [simp]: "unat (x :: u64) < 18446744073709551616"
proof -
  have "unat x < 2 ^ LENGTH(64)" by (rule unsigned_less)
  then show ?thesis by simp
qed

lemma unat_u64_le [simp]: "unat (x :: u64) \<le> 18446744073709551615"
  using unat_u64_bound [of x] by linarith

text \<open>\<open>i64::try_from(x).unwrap_or(i64::MAX)\<close> and \<open>u64::try_from(i)\<close>.\<close>

definition i64_max :: i64 where
  "i64_max = 9223372036854775807"

definition i64_of_u64 :: "u64 \<Rightarrow> i64" where
  "i64_of_u64 x = (if uint x \<le> i64_max then uint x else i64_max)"

definition u64_of_i64 :: "i64 \<Rightarrow> u64 option" where
  "u64_of_i64 i = (if 0 \<le> i then Some (word_of_int i) else None)"

lemma u64_of_i64_of_u64:
  "uint x \<le> i64_max \<Longrightarrow> u64_of_i64 (i64_of_u64 x) = Some x"
  by (simp add: i64_of_u64_def u64_of_i64_def)

lemma i64_of_u64_mono: "x \<le> y \<Longrightarrow> i64_of_u64 x \<le> i64_of_u64 y"
  by (auto simp: i64_of_u64_def word_le_def)

section \<open>Text\<close>

text \<open>
  A Rust \<open>String\<close> is its UTF-8 bytes, here a list of \<open>char\<close> (HOL's \<open>char\<close> is a
  byte); comparison is bytewise, as \<open>str\<close>'s \<open>Ord\<close> is. Case mapping and white space are
  the ASCII ones, where Rust's are those of Unicode: the texts the code lowers and trims are
  hexadecimal addresses, URLs and provider error messages. On ASCII text the two agree, and no other
  character is lowered to a hexadecimal digit or to \<open>x\<close>, so an address is never made of one.
\<close>

definition lower_char :: "char \<Rightarrow> char" where
  "lower_char c = (if 65 \<le> (of_char c :: nat) \<and> (of_char c :: nat) \<le> 90
                   then char_of ((of_char c :: nat) + 32) else c)"

definition to_lowercase :: "string \<Rightarrow> string" where
  "to_lowercase s = map lower_char s"

lemma lower_char_idem [simp]: "lower_char (lower_char c) = lower_char c"
  by (auto simp: lower_char_def)

lemma to_lowercase_idem [simp]: "to_lowercase (to_lowercase s) = to_lowercase s"
  by (simp add: to_lowercase_def)

fun starts_with :: "string \<Rightarrow> string \<Rightarrow> bool" where
  "starts_with [] s = True"
| "starts_with (p # ps) [] = False"
| "starts_with (p # ps) (c # cs) = (p = c \<and> starts_with ps cs)"

fun str_find :: "string \<Rightarrow> string \<Rightarrow> nat option" where
  "str_find p [] = (if p = [] then Some 0 else None)"
| "str_find p (c # cs) =
     (if starts_with p (c # cs) then Some 0 else map_option Suc (str_find p cs))"

definition str_contains :: "string \<Rightarrow> string \<Rightarrow> bool" where
  "str_contains p s = (str_find p s \<noteq> None)"

text \<open>\<open>str::replace\<close> for a non-empty pattern (the code never replaces an empty one).\<close>

fun str_replace :: "string \<Rightarrow> string \<Rightarrow> string \<Rightarrow> string" where
  "str_replace p r [] = []"
| "str_replace p r (c # cs) =
     (if p \<noteq> [] \<and> starts_with p (c # cs)
      then r @ str_replace p r (drop (length p - 1) cs)
      else c # str_replace p r cs)"

fun split_on :: "char \<Rightarrow> string \<Rightarrow> string list" where
  "split_on d [] = [[]]"
| "split_on d (c # cs) =
     (if c = d then [] # split_on d cs
      else (case split_on d cs of [] \<Rightarrow> [[c]] | w # ws \<Rightarrow> (c # w) # ws))"

definition is_white :: "char \<Rightarrow> bool" where
  "is_white c = ((of_char c :: nat) = 32 \<or> 9 \<le> (of_char c :: nat) \<and> (of_char c :: nat) \<le> 13)"

definition trim :: "string \<Rightarrow> string" where
  "trim s = rev (dropWhile is_white (rev (dropWhile is_white s)))"

definition is_digit :: "char \<Rightarrow> bool" where
  "is_digit c = (48 \<le> (of_char c :: nat) \<and> (of_char c :: nat) \<le> 57)"

definition digits_val :: "string \<Rightarrow> nat" where
  "digits_val s = foldl (\<lambda>n c. 10 * n + (of_char c - 48)) 0 s"

text \<open>\<open>str::parse\<close> for an unsigned type with \<open>bound\<close> values: an optional \<open>+\<close>, then
  at least one digit and nothing else, in range.\<close>

definition parse_unsigned :: "nat \<Rightarrow> string \<Rightarrow> nat option" where
  "parse_unsigned bound s =
     (let d = (case s of [] \<Rightarrow> [] | c # cs \<Rightarrow> if c = CHR ''+'' then cs else s)
      in if d \<noteq> [] \<and> list_all is_digit d \<and> digits_val d < bound
         then Some (digits_val d) else None)"

definition parse_u64 :: "string \<Rightarrow> u64 option" where
  "parse_u64 s = map_option of_nat (parse_unsigned (2 ^ 64) s)"

definition parse_u16 :: "string \<Rightarrow> u16 option" where
  "parse_u16 s = map_option of_nat (parse_unsigned (2 ^ 16) s)"

text \<open>Decimal rendering (\<open>Display\<close> of an unsigned integer).\<close>

fun nat_str :: "nat \<Rightarrow> string" where
  "nat_str n = (if n < 10 then [char_of (48 + n)] else nat_str (n div 10) @ [char_of (48 + n mod 10)])"

declare nat_str.simps [simp del]

definition u64_str :: "u64 \<Rightarrow> string" where
  "u64_str x = nat_str (unat x)"

text \<open>The single quote that error texts put around a name.\<close>

definition squote :: string where
  "squote = [CHR 0x27]"

lemma starts_with_iff: "starts_with p s \<longleftrightarrow> (\<exists>t. s = p @ t)"
  by (induction p s rule: starts_with.induct) auto

lemma str_find_Some:
  "str_find p s = Some i \<Longrightarrow> \<exists>a b. s = a @ p @ b \<and> length a = i"
proof (induction p s arbitrary: i rule: str_find.induct)
  case (1 p)
  then show ?case by (auto split: if_splits)
next
  case (2 p c cs)
  show ?case
  proof (cases "starts_with p (c # cs)")
    case True
    with "2.prems" show ?thesis by (auto simp: starts_with_iff)
  next
    case False
    with "2.prems" obtain j where "str_find p cs = Some j" and i: "i = Suc j" by auto
    with "2.IH" False obtain a b where "cs = a @ p @ b" and "length a = j" by blast
    then have "c # cs = (c # a) @ p @ b \<and> length (c # a) = i" by (simp add: i)
    then show ?thesis by blast
  qed
qed

lemma str_find_append: "str_find p (a @ p @ b) \<noteq> None"
proof (induction a)
  case Nil
  have "starts_with p (p @ b)" by (auto simp: starts_with_iff)
  then show ?case by (cases "p @ b") auto
next
  case (Cons c a)
  then show ?case by auto
qed

lemma str_contains_iff: "str_contains p s \<longleftrightarrow> (\<exists>a b. s = a @ p @ b)"
  unfolding str_contains_def using str_find_Some str_find_append by blast

lemma nat_str_digits: "nat_str n \<noteq> [] \<and> list_all is_digit (nat_str n)"
proof (induction n rule: nat_str.induct)
  case (1 n)
  show ?case
  proof (cases "n < 10")
    case True
    then show ?thesis by (simp add: nat_str.simps [of n] is_digit_def)
  next
    case False
    with "1.IH" have ih: "list_all is_digit (nat_str (n div 10))" by simp
    have "n mod 10 < 10" by simp
    then have "is_digit (char_of (48 + n mod 10))" by (simp add: is_digit_def)
    with False ih show ?thesis by (simp add: nat_str.simps [of n])
  qed
qed

lemma digits_val_snoc: "digits_val (s @ [c]) = 10 * digits_val s + (of_char c - 48)"
  by (simp add: digits_val_def)

lemma digits_val_nat_str: "digits_val (nat_str n) = n"
proof (induction n rule: nat_str.induct)
  case (1 n)
  show ?case
  proof (cases "n < 10")
    case True
    then show ?thesis by (subst nat_str.simps) (simp add: digits_val_def)
  next
    case False
    have "n mod 10 < 10" by simp
    then have "digits_val (nat_str (n div 10) @ [char_of (48 + n mod 10)]) =
        10 * digits_val (nat_str (n div 10)) + n mod 10"
      by (simp add: digits_val_snoc)
    with "1.IH" False show ?thesis by (subst nat_str.simps) simp
  qed
qed

lemma parse_unsigned_nat_str: "n < bound \<Longrightarrow> parse_unsigned bound (nat_str n) = Some n"
proof -
  assume n: "n < bound"
  obtain c cs where s: "nat_str n = c # cs" using nat_str_digits [of n] by (cases "nat_str n") auto
  with nat_str_digits [of n] have "c \<noteq> CHR ''+''" by (auto simp: is_digit_def)
  with n s nat_str_digits [of n] digits_val_nat_str [of n] show ?thesis
    by (simp add: parse_unsigned_def Let_def)
qed

lemma nat_str_inj: "nat_str m = nat_str n \<Longrightarrow> m = n"
  by (metis digits_val_nat_str)

section \<open>Keyed tables\<close>

text \<open>
  A \<open>HashMap\<close> or a database table with a primary key is an association list with distinct
  keys. \<open>AList.update\<close> is \<open>insert\<close> (and \<open>ON CONFLICT DO UPDATE\<close>), \<open>AList.delete\<close>
  is \<open>remove\<close>, \<open>map_of\<close> is \<open>get\<close>.
\<close>

abbreviation distinct_keys :: "('k \<times> 'v) list \<Rightarrow> bool" where
  "distinct_keys m \<equiv> distinct (map fst m)"

lemmas table_simps = AList.update_conv' AList.delete_conv'

lemma distinct_keys_update [intro]: "distinct_keys m \<Longrightarrow> distinct_keys (AList.update k v m)"
  by (rule AList.distinct_update)

lemma distinct_keys_delete [intro]: "distinct_keys m \<Longrightarrow> distinct_keys (AList.delete k m)"
  by (rule AList.distinct_delete)

lemma distinct_keys_filter [intro]: "distinct_keys m \<Longrightarrow> distinct_keys (filter P m)"
  by (induction m) auto

lemma map_of_filter_key:
  "map_of (filter (\<lambda>kv. P (fst kv)) m) k = (if P k then map_of m k else None)"
  by (induction m) auto

lemma map_of_filter_distinct:
  "distinct_keys m \<Longrightarrow> map_of (filter (\<lambda>kv. P (fst kv) (snd kv)) m) k =
     (case map_of m k of Some v \<Rightarrow> if P k v then Some v else None | None \<Rightarrow> None)"
proof (induction m)
  case (Cons a m)
  obtain k' v' where a: "a = (k', v')" by (cases a)
  show ?case
  proof (cases "k = k'")
    case True
    with Cons.prems a have "map_of m k = None" by (simp add: map_of_eq_None_iff)
    with Cons a True show ?thesis by simp
  next
    case False
    with Cons a show ?thesis by simp
  qed
qed simp

text \<open>An \<open>UPDATE\<close> of every row that satisfies a condition.\<close>

definition map_rows :: "('k \<Rightarrow> 'v \<Rightarrow> 'v) \<Rightarrow> ('k \<times> 'v) list \<Rightarrow> ('k \<times> 'v) list" where
  "map_rows f m = map (\<lambda>(k, v). (k, f k v)) m"

lemma map_of_map_rows [simp]: "map_of (map_rows f m) k = map_option (f k) (map_of m k)"
  by (induction m) (auto simp: map_rows_def)

lemma keys_map_rows [simp]: "map fst (map_rows f m) = map fst m"
  by (induction m) (auto simp: map_rows_def)

text \<open>Collecting pairs into a hash map: a later entry replaces an earlier one.\<close>

definition collect_map :: "('r \<Rightarrow> 'k \<times> 'v) \<Rightarrow> 'r list \<Rightarrow> ('k \<times> 'v) list" where
  "collect_map f rows = foldl (\<lambda>m r. AList.update (fst (f r)) (snd (f r)) m) [] rows"

lemma collect_map_Nil [simp]: "collect_map f [] = []"
  by (simp add: collect_map_def)

lemma collect_map_snoc:
  "collect_map f (rows @ [r]) = AList.update (fst (f r)) (snd (f r)) (collect_map f rows)"
  by (simp add: collect_map_def)

lemma collect_map_distinct [simp]: "distinct_keys (collect_map f rows)"
  by (induction rows rule: rev_induct) (auto simp: collect_map_snoc)

lemma collect_map_of:
  "distinct (map (fst \<circ> f) rows) \<Longrightarrow> map_of (collect_map f rows) = map_of (map f rows)"
proof (induction rows rule: rev_induct)
  case (snoc r rows)
  then have "map_of (map f rows) (fst (f r)) = None"
    by (auto simp: map_of_eq_None_iff image_iff)
  with snoc show ?case
    by (auto simp: collect_map_snoc table_simps map_add_def fun_eq_iff split: option.split)
qed simp

lemma collect_map_keys: "set (map fst (collect_map f rows)) = set (map (fst \<circ> f) rows)"
  by (induction rows rule: rev_induct) (auto simp: collect_map_snoc AList.dom_update)

lemma collect_map_values: "set (collect_map f rows) \<subseteq> f ` set rows"
proof (induction rows rule: rev_induct)
  case (snoc r rows)
  have "set (AList.update k v m) \<subseteq> insert (k, v) (set m)" for k and v :: 'v and m :: "('k \<times> 'v) list"
    by (induction m) auto
  with snoc show ?case by (fastforce simp: collect_map_snoc)
qed simp

section \<open>Fallible stateful code\<close>

text \<open>
  \<open>Result<T, String>\<close> is \<open>string + 'a\<close> with the error text on the left. A step of a
  task that also changes state, or calls out to the network or the database, maps the state to
  the result and the new state; the state keeps what was done before an error. None is a
  step that never returns: a panic, or a loop that does not end.
\<close>

type_synonym 'a res = "string + 'a"
type_synonym ('s, 'a) task = "'s \<Rightarrow> ('a res \<times> 's) option"

definition task_bind :: "('s, 'a) task \<Rightarrow> ('a \<Rightarrow> ('s, 'b) task) \<Rightarrow> ('s, 'b) task" where
  "task_bind m f s =
     (case m s of
        None \<Rightarrow> None
      | Some (r, s1) \<Rightarrow> (case r of Inl e \<Rightarrow> Some (Inl e, s1) | Inr a \<Rightarrow> f a s1))"

definition task_return :: "'a \<Rightarrow> ('s, 'a) task" where
  "task_return a s = Some (Inr a, s)"

definition task_fail :: "string \<Rightarrow> ('s, 'a) task" where
  "task_fail e s = Some (Inl e, s)"

definition task_panic :: "('s, 'a) task" where
  "task_panic s = None"

definition task_map_err :: "(string \<Rightarrow> string) \<Rightarrow> ('s, 'a) task \<Rightarrow> ('s, 'a) task" where
  "task_map_err f m s =
     (case m s of
        None \<Rightarrow> None
      | Some (r, s1) \<Rightarrow> Some (case r of Inl e \<Rightarrow> Inl (f e) | Inr a \<Rightarrow> Inr a, s1))"

definition task_modify :: "('s \<Rightarrow> 's) \<Rightarrow> ('s, unit) task" where
  "task_modify f s = Some (Inr (), f s)"

definition task_of_res :: "'a res \<Rightarrow> ('s, 'a) task" where
  "task_of_res r s = Some (r, s)"

text \<open>A step whose error the caller handles itself (\<open>match\<close> on the result).\<close>

definition task_try :: "('s, 'a) task \<Rightarrow> ('a res \<Rightarrow> ('s, 'b) task) \<Rightarrow> ('s, 'b) task" where
  "task_try m f s = (case m s of None \<Rightarrow> None | Some (r, s1) \<Rightarrow> f r s1)"

text \<open>The elements of a list in order, stopping at the first error.\<close>

fun task_each :: "('x \<Rightarrow> ('s, unit) task) \<Rightarrow> 'x list \<Rightarrow> ('s, unit) task" where
  "task_each f [] s = Some (Inr (), s)"
| "task_each f (x # xs) s = task_bind (f x) (\<lambda>_. task_each f xs) s"

fun task_map :: "('x \<Rightarrow> ('s, 'y) task) \<Rightarrow> 'x list \<Rightarrow> ('s, 'y list) task" where
  "task_map f [] s = Some (Inr [], s)"
| "task_map f (x # xs) s =
     task_bind (f x) (\<lambda>y. task_bind (task_map f xs) (\<lambda>ys. task_return (y # ys))) s"

lemmas task_defs = task_bind_def task_return_def task_fail_def task_panic_def task_map_err_def
  task_modify_def task_of_res_def task_try_def

lemma task_bind_mono [partial_function_mono]:
  fixes B :: "('q \<Rightarrow> 'o option) \<Rightarrow> ('s, 'a) task"
  assumes "\<And>s. mono_option (\<lambda>f. B f s)" and "\<And>x s. mono_option (\<lambda>f. C f x s)"
  shows "mono_option (\<lambda>f. task_bind (B f) (C f) s)"
proof (rule monotoneI)
  fix f g :: "'q \<Rightarrow> 'o option"
  assume fg: "option.le_fun f g"
  have b: "option_ord (B f s) (B g s)"
    using assms(1) [of s] fg by (rule monotoneD [of _ _ _ f g])
  have c: "option_ord (C f x s1) (C g x s1)" for x s1
    using assms(2) [of x s1] fg by (rule monotoneD [of _ _ _ f g])
  show "option_ord (task_bind (B f) (C f) s) (task_bind (B g) (C g) s)"
  proof (cases "B f s")
    case None
    then show ?thesis by (simp add: task_bind_def flat_ord_def)
  next
    case (Some rs)
    with b have "B g s = Some rs" by (simp add: flat_ord_def)
    with Some c show ?thesis
      by (auto simp: task_bind_def flat_ord_def split: prod.splits sum.splits)
  qed
qed

lemma task_try_mono [partial_function_mono]:
  fixes B :: "('q \<Rightarrow> 'o option) \<Rightarrow> ('s, 'a) task"
  assumes "\<And>s. mono_option (\<lambda>f. B f s)" and "\<And>x s. mono_option (\<lambda>f. C f x s)"
  shows "mono_option (\<lambda>f. task_try (B f) (C f) s)"
proof (rule monotoneI)
  fix f g :: "'q \<Rightarrow> 'o option"
  assume fg: "option.le_fun f g"
  have b: "option_ord (B f s) (B g s)"
    using assms(1) [of s] fg by (rule monotoneD [of _ _ _ f g])
  have c: "option_ord (C f x s1) (C g x s1)" for x s1
    using assms(2) [of x s1] fg by (rule monotoneD [of _ _ _ f g])
  show "option_ord (task_try (B f) (C f) s) (task_try (B g) (C g) s)"
  proof (cases "B f s")
    case None
    then show ?thesis by (simp add: task_try_def flat_ord_def)
  next
    case (Some rs)
    with b have "B g s = Some rs" by (simp add: flat_ord_def)
    with Some c show ?thesis
      by (auto simp: task_try_def flat_ord_def split: prod.splits)
  qed
qed

lemma task_bind_Inr_iff:
  "task_bind m f s = Some (Inr b, s2) \<longleftrightarrow>
     (\<exists>a s1. m s = Some (Inr a, s1) \<and> f a s1 = Some (Inr b, s2))"
  by (auto simp: task_bind_def split: option.splits prod.splits sum.splits)

lemma task_bind_Inl_iff:
  "task_bind m f s = Some (Inl e, s2) \<longleftrightarrow>
     m s = Some (Inl e, s2) \<or> (\<exists>a s1. m s = Some (Inr a, s1) \<and> f a s1 = Some (Inl e, s2))"
  by (auto simp: task_bind_def split: option.splits prod.splits sum.splits)

lemma task_bind_None_iff:
  "task_bind m f s = None \<longleftrightarrow> m s = None \<or> (\<exists>a s1. m s = Some (Inr a, s1) \<and> f a s1 = None)"
  by (auto simp: task_bind_def split: option.splits prod.splits sum.splits)

lemma task_bind_return [simp]: "task_bind (task_return a) f s = f a s"
  by (simp add: task_bind_def task_return_def)

lemma task_bind_fail [simp]: "task_bind (task_fail e) f s = Some (Inl e, s)"
  by (simp add: task_bind_def task_fail_def)

lemma task_bind_modify [simp]: "task_bind (task_modify g) f s = f () (g s)"
  by (simp add: task_bind_def task_modify_def)

lemma task_map_err_Inr_iff [simp]:
  "task_map_err f m s = Some (Inr a, s2) \<longleftrightarrow> m s = Some (Inr a, s2)"
  by (auto simp: task_map_err_def split: option.splits prod.splits sum.splits)

lemma task_map_err_Inl_iff:
  "task_map_err f m s = Some (Inl e, s2) \<longleftrightarrow> (\<exists>e0. m s = Some (Inl e0, s2) \<and> e = f e0)"
  by (auto simp: task_map_err_def split: option.splits prod.splits sum.splits)

lemma task_return_iff [simp]: "task_return a s = Some (r, s2) \<longleftrightarrow> r = Inr a \<and> s2 = s"
  by (auto simp: task_return_def)

lemma task_fail_iff [simp]: "task_fail e s = Some (r, s2) \<longleftrightarrow> r = Inl e \<and> s2 = s"
  by (auto simp: task_fail_def)

lemma task_modify_iff [simp]: "task_modify f s = Some (r, s2) \<longleftrightarrow> r = Inr () \<and> s2 = f s"
  by (auto simp: task_modify_def)

lemma task_of_res_iff [simp]: "task_of_res r s = Some (r', s2) \<longleftrightarrow> r = r' \<and> s2 = s"
  by (auto simp: task_of_res_def)

text \<open>A property of the state that a step keeps, whatever its result.\<close>

definition keeps :: "('s \<Rightarrow> 's \<Rightarrow> bool) \<Rightarrow> ('s, 'a) task \<Rightarrow> bool" where
  "keeps R m \<longleftrightarrow> (\<forall>s r s2. m s = Some (r, s2) \<longrightarrow> R s s2)"

lemma keepsD: "keeps R m \<Longrightarrow> m s = Some (r, s2) \<Longrightarrow> R s s2"
  by (auto simp: keeps_def)

lemma keepsI: "(\<And>s r s2. m s = Some (r, s2) \<Longrightarrow> R s s2) \<Longrightarrow> keeps R m"
  by (auto simp: keeps_def)

lemma keeps_bind:
  assumes "transp R" and "keeps R m" and "\<And>a. keeps R (f a)"
  shows "keeps R (task_bind m f)"
proof (rule keepsI)
  fix s r s2
  assume run: "task_bind m f s = Some (r, s2)"
  then obtain r1 s1 where m: "m s = Some (r1, s1)"
    by (auto simp: task_bind_def split: option.splits prod.splits)
  have R1: "R s s1" using keepsD [OF assms(2) m] .
  show "R s s2"
  proof (cases r1)
    case (Inl e)
    with run m R1 show ?thesis by (simp add: task_bind_def)
  next
    case (Inr a)
    with run m have "f a s1 = Some (r, s2)" by (simp add: task_bind_def)
    from R1 keepsD [OF assms(3) this] show ?thesis by (rule transpD [OF assms(1)])
  qed
qed

lemma keeps_try:
  assumes "transp R" and "keeps R m" and "\<And>r. keeps R (f r)"
  shows "keeps R (task_try m f)"
proof (rule keepsI)
  fix s r s2
  assume run: "task_try m f s = Some (r, s2)"
  then obtain r1 s1 where m: "m s = Some (r1, s1)" and f: "f r1 s1 = Some (r, s2)"
    by (auto simp: task_try_def split: option.splits prod.splits)
  from keepsD [OF assms(2) m] keepsD [OF assms(3) f] show "R s s2"
    by (rule transpD [OF assms(1)])
qed

lemma keeps_map_err: "keeps R m \<Longrightarrow> keeps R (task_map_err f m)"
  by (auto simp: keeps_def task_map_err_def split: option.splits prod.splits)

lemma keeps_pure:
  assumes "reflp R"
  shows "keeps R (task_return a)" and "keeps R (task_fail e)" and "keeps R task_panic"
    and "keeps R (task_of_res r)"
  using assms by (auto simp: keeps_def task_panic_def reflpD)

end
