(* ===== verification/Retry.thy ===== *)
theory Retry
  imports Prelude
begin

text \<open>
  Model of \<^verbatim>\<open>src/chain/retry.rs\<close>: classification of RPC error texts, exponential backoff
  with jitter, and the adaptive \<^verbatim>\<open>eth_getLogs\<close> block range. All of it is pure, so every
  function of the file is translated whole; the process-wide jitter counter and the clock are
  arguments of \<open>next_entropy\<close>.
\<close>

section \<open>Classification of RPC errors\<close>

datatype rpc_error_kind = RangeTooLarge "u64 option" | RateLimited | Transient

definition head_markers :: "string list" where
  "head_markers =
    [''block range extends beyond current head block'',
     ''invalid block range params'',
     ''beyond current head'']"

definition range_markers :: "string list" where
  "range_markers =
    [''block range'', ''ranges over'', ''range is too'', ''range too'', ''range exceeds'',
     ''exceed maximum'', ''limited to a'', ''too many blocks'', ''more than 10000 results'',
     ''query returned more than'', ''response size exceeded'', ''log response size'']"

definition rate_markers :: "string list" where
  "rate_markers =
    [''429'', ''too many requests'', ''rate limit'', ''rate-limit'', ''ratelimit'',
     ''exceeded the quota'', ''capacity exceeded'']"

definition hint_prefixes :: "string list" where
  "hint_prefixes = [''block range: '', ''ranges over '', ''limited to a '', ''range of '']"

text \<open>One prefix of \<open>range_hint\<close>: the digits (commas skipped) after its first occurrence.\<close>

definition hint_after :: "string \<Rightarrow> string \<Rightarrow> u64 option" where
  "hint_after lower pre =
     (case str_find pre lower of
        None \<Rightarrow> None
      | Some i \<Rightarrow>
          (let start = i + length pre;
               digits = filter is_digit
                          (takeWhile (\<lambda>c. is_digit c \<or> c = CHR '','') (drop start lower))
           in (case parse_u64 digits of
                 Some n \<Rightarrow> if 0 < n then Some n else None
               | None \<Rightarrow> None)))"

fun find_map :: "('a \<Rightarrow> 'b option) \<Rightarrow> 'a list \<Rightarrow> 'b option" where
  "find_map f [] = None"
| "find_map f (x # xs) = (case f x of Some y \<Rightarrow> Some y | None \<Rightarrow> find_map f xs)"

definition range_hint :: "string \<Rightarrow> u64 option" where
  "range_hint lower = find_map (hint_after lower) hint_prefixes"

definition strip_head_markers :: "string \<Rightarrow> string" where
  "strip_head_markers lower = foldl (\<lambda>s marker. str_replace marker [] s) lower head_markers"

definition classify_rpc_error :: "string \<Rightarrow> rpc_error_kind" where
  "classify_rpc_error message =
     (let lower = strip_head_markers (to_lowercase message)
      in if list_ex (\<lambda>marker. str_contains marker lower) range_markers
         then RangeTooLarge (range_hint lower)
         else if list_ex (\<lambda>marker. str_contains marker lower) rate_markers
         then RateLimited
         else Transient)"

section \<open>Backoff\<close>

text \<open>
  A \<open>Duration\<close> is its number of nanoseconds. \<open>checked_mul\<close> fails when the seconds no
  longer fit a \<open>u64\<close>. The result is None where the Rust code would panic: the jitter is
  \<open>entropy % (span_ms + 1)\<close>, a division by zero when the span is \<open>u64::MAX\<close> ms.
\<close>

type_synonym duration = nat

definition duration_limit :: nat where
  "duration_limit = 2 ^ 64 * 10 ^ 9"

definition from_millis :: "nat \<Rightarrow> duration" where
  "from_millis ms = ms * 1000000"

definition from_secs :: "nat \<Rightarrow> duration" where
  "from_secs s = s * 1000000000"

definition as_millis :: "duration \<Rightarrow> nat" where
  "as_millis d = d div 1000000"

definition checked_mul_duration :: "duration \<Rightarrow> u32 \<Rightarrow> duration option" where
  "checked_mul_duration d k = (if d * unat k < duration_limit then Some (d * unat k) else None)"

definition backoff_ceiling :: "u32 \<Rightarrow> duration \<Rightarrow> duration \<Rightarrow> duration" where
  "backoff_ceiling attempt base cap =
     (let exponent = min (sat_sub attempt 1) 20
      in min (case checked_mul_duration base (push_bit (unat exponent) 1) of
                Some d \<Rightarrow> d | None \<Rightarrow> cap) cap)"

definition backoff_delay :: "u32 \<Rightarrow> duration \<Rightarrow> duration \<Rightarrow> u64 \<Rightarrow> duration option" where
  "backoff_delay attempt base cap entropy =
     (let ceiling = backoff_ceiling attempt base cap;
          half = ceiling div 2;
          span_ms = (if as_millis half < 2 ^ 64 then of_nat (as_millis half) else u64_max)
      in if span_ms = 0 then Some half
         else if span_ms + 1 = 0 then None
         else Some (half + from_millis (unat (entropy mod (span_ms + 1)))))"

text \<open>\<open>next_entropy\<close>: splitmix64 over the clock's nanoseconds and a counter that advances by
  the golden-ratio constant; returns the value and the new counter.\<close>

definition next_entropy :: "u64 \<Rightarrow> u64 \<Rightarrow> u64 \<times> u64" where
  "next_entropy counter nanos =
     (let z0 = counter + nanos;
          z1 = (z0 XOR drop_bit 30 z0) * 0xBF58476D1CE4E5B9;
          z2 = (z1 XOR drop_bit 27 z1) * 0x94D049BB133111EB
      in (z2 XOR drop_bit 31 z2, counter + 0x9E3779B97F4A7C15))"

definition jittered_backoff ::
  "u32 \<Rightarrow> duration \<Rightarrow> duration \<Rightarrow> u64 \<Rightarrow> u64 \<Rightarrow> duration option \<times> u64" where
  "jittered_backoff attempt base cap counter nanos =
     (case next_entropy counter nanos of
        (entropy, counter') \<Rightarrow> (backoff_delay attempt base cap entropy, counter'))"

section \<open>Adaptive block range\<close>

definition grow_after_successes :: u32 where
  "grow_after_successes = 2"

record adaptive_chunk =
  chunk_size :: u64
  chunk_min :: u64
  chunk_ceiling :: u64
  chunk_streak :: u32

definition chunk_new :: "u64 \<Rightarrow> u64 \<Rightarrow> u64 \<Rightarrow> adaptive_chunk" where
  "chunk_new initial mn mx =
     (let mn' = max mn 1; mx' = max mx mn'
      in \<lparr>chunk_size = clamp_word initial mn' mx', chunk_min = mn', chunk_ceiling = mx',
          chunk_streak = 0\<rparr>)"

definition on_success :: "adaptive_chunk \<Rightarrow> adaptive_chunk" where
  "on_success c =
     (let c1 = c\<lparr>chunk_streak := chunk_streak c + 1\<rparr>
      in if grow_after_successes \<le> chunk_streak c1 \<and> chunk_size c1 < chunk_ceiling c1
         then c1\<lparr>chunk_size := min (sat_mul (chunk_size c1) 2) (chunk_ceiling c1),
                 chunk_streak := 0\<rparr>
         else c1)"

definition on_range_error :: "u64 \<Rightarrow> u64 option \<Rightarrow> adaptive_chunk \<Rightarrow> adaptive_chunk" where
  "on_range_error failed_span hint c =
     (let c1 = c\<lparr>chunk_streak := 0\<rparr>
      in if failed_span \<le> chunk_min c1 then c1
         else let halved = failed_span div 2;
                  nxt = (case hint of
                           Some limit \<Rightarrow> if limit < failed_span then limit else halved
                         | None \<Rightarrow> halved);
                  size' = max nxt (chunk_min c1)
              in c1\<lparr>chunk_size := size',
                    chunk_ceiling := max (min (chunk_ceiling c1) size') (chunk_min c1)\<rparr>)"

definition on_rate_limited :: "adaptive_chunk \<Rightarrow> adaptive_chunk" where
  "on_rate_limited c =
     c\<lparr>chunk_size := max (chunk_size c div 2) (chunk_min c), chunk_streak := 0\<rparr>"

section \<open>The size stays inside its bounds\<close>

definition chunk_ok :: "adaptive_chunk \<Rightarrow> bool" where
  "chunk_ok c \<longleftrightarrow>
     0 < chunk_min c \<and> chunk_min c \<le> chunk_size c \<and> chunk_size c \<le> chunk_ceiling c"

lemmas chunk_ops = on_success_def on_range_error_def on_rate_limited_def Let_def

lemma chunk_ok_nat:
  "chunk_ok c \<longleftrightarrow> 0 < unat (chunk_min c) \<and> unat (chunk_min c) \<le> unat (chunk_size c) \<and>
     unat (chunk_size c) \<le> unat (chunk_ceiling c)"
  by (simp add: chunk_ok_def word_le_nat_alt word_less_nat_alt)

lemma chunk_new_ok: "chunk_ok (chunk_new initial mn mx)"
  by (auto simp: chunk_ok_nat chunk_new_def clamp_word_def Let_def rust_arith
      word_less_nat_alt word_le_nat_alt)

lemma on_success_ok: "chunk_ok c \<Longrightarrow> chunk_ok (on_success c)"
  by (auto simp: chunk_ok_nat on_success_def Let_def rust_arith word_less_nat_alt
      word_le_nat_alt)

lemma on_rate_limited_ok: "chunk_ok c \<Longrightarrow> chunk_ok (on_rate_limited c)"
  by (auto simp: chunk_ok_nat on_rate_limited_def rust_arith unat_div)

lemma on_range_error_min [simp]: "chunk_min (on_range_error width h c) = chunk_min c"
  and on_success_min [simp]: "chunk_min (on_success c) = chunk_min c"
  and on_rate_limited_min [simp]: "chunk_min (on_rate_limited c) = chunk_min c"
  and on_success_ceiling [simp]: "chunk_ceiling (on_success c) = chunk_ceiling c"
  and on_rate_limited_ceiling [simp]: "chunk_ceiling (on_rate_limited c) = chunk_ceiling c"
  by (simp_all add: chunk_ops)

text \<open>The size proposed after a rejection is below the rejected span.\<close>

lemma on_range_error_size:
  assumes "chunk_min c < width"
  shows "chunk_size (on_range_error width h c) < width"
proof -
  have halved: "width div 2 < width"
    using assms by (simp add: word_less_nat_alt unat_div)
  show ?thesis
    using assms halved by (auto simp: on_range_error_def Let_def max_def split: option.splits)
qed

lemma on_range_error_ok:
  assumes "chunk_ok c" and "width \<le> chunk_ceiling c"
  shows "chunk_ok (on_range_error width h c)"
proof (cases "width \<le> chunk_min c")
  case True
  with assms show ?thesis by (simp add: on_range_error_def Let_def chunk_ok_def)
next
  case False
  then have "chunk_size (on_range_error width h c) < width"
    by (intro on_range_error_size) simp
  with assms False show ?thesis
    by (auto simp: on_range_error_def Let_def chunk_ok_nat rust_arith word_le_nat_alt
        word_less_nat_alt)
qed

lemma on_range_error_ceiling:
  "chunk_ok c \<Longrightarrow> chunk_ceiling (on_range_error width h c) \<le> chunk_ceiling c"
  by (auto simp: on_range_error_def Let_def chunk_ok_nat rust_arith word_le_nat_alt)

section \<open>The interface the log fetcher relies on\<close>

text \<open>
  What a block-range sizer promises to its client: a positive size, an invariant kept by
  every report, and progress: a rejected span either leaves the size alone (the span was at
  the floor) or makes it strictly smaller than the span.
\<close>

locale range_sizer =
  fixes span_of :: "'c \<Rightarrow> u64"
    and ok :: "'c \<Rightarrow> bool"
    and succeeded :: "'c \<Rightarrow> 'c"
    and throttled :: "'c \<Rightarrow> 'c"
    and rejected :: "u64 \<Rightarrow> u64 option \<Rightarrow> 'c \<Rightarrow> 'c"
  assumes span_pos: "ok c \<Longrightarrow> 0 < span_of c"
    and ok_succeeded: "ok c \<Longrightarrow> ok (succeeded c)"
    and ok_throttled: "ok c \<Longrightarrow> ok (throttled c)"
    and ok_rejected: "ok c \<Longrightarrow> width \<le> span_of c \<Longrightarrow> ok (rejected width hint c)"
    and rejected_progress: "ok c \<Longrightarrow> width \<le> span_of c \<Longrightarrow>
      span_of (rejected width hint c) < width \<or> span_of (rejected width hint c) = span_of c"
begin

text \<open>The window of blocks from \<open>f\<close> that one request covers.\<close>

lemma window_bounds:
  assumes "ok c" and "f \<le> t" and "e = min (sat_add f (sat_sub (span_of c) 1)) t"
  shows "f \<le> e" and "e \<le> t" and "e - f + 1 \<le> span_of c"
    and "unat (e - f + 1) = unat e - unat f + 1"
proof -
  have pos: "0 < unat (span_of c)" using span_pos [OF assms(1)] by (simp add: word_less_nat_alt)
  show fe: "f \<le> e"
    using assms(2,3) by (simp add: word_le_nat_alt rust_arith)
  show "e \<le> t" using assms(3) by (simp add: word_le_nat_alt rust_arith)
  have d: "unat (e - f) = unat e - unat f" using fe by (simp add: unat_sub)
  have "unat e \<le> unat f + (unat (span_of c) - 1)"
    using assms(3) by (simp add: rust_arith)
  with d pos have le: "unat (e - f) + 1 \<le> unat (span_of c)" by simp
  have "unat (e - f) + 1 < 18446744073709551616"
    using le unat_u64_bound [of "span_of c"] by linarith
  then have u: "unat (e - f + 1) = unat (e - f) + 1" by (simp add: unat_word_ariths)
  show "e - f + 1 \<le> span_of c" using le u by (simp add: word_le_nat_alt)
  show "unat (e - f + 1) = unat e - unat f + 1" using u d by simp
qed

text \<open>A rejection after which the client retries at once strictly shrinks the size.\<close>

lemma immediate_retry_shrinks:
  assumes "ok c" and "width \<le> span_of c" and "span_of (rejected width hint c) < width"
  shows "unat (span_of (rejected width hint c)) < unat (span_of c)"
  using assms by (simp add: word_less_nat_alt word_le_nat_alt)

end

interpretation chunk: range_sizer chunk_size chunk_ok on_success on_rate_limited on_range_error
proof (unfold_locales, goal_cases)
  case (1 c)
  then show ?case by (auto simp: chunk_ok_nat word_less_nat_alt)
next
  case (2 c)
  then show ?case by (rule on_success_ok)
next
  case (3 c)
  then show ?case by (rule on_rate_limited_ok)
next
  case (4 c width hint)
  then have "width \<le> chunk_ceiling c" by (auto simp: chunk_ok_def)
  with 4 show ?case by (intro on_range_error_ok)
next
  case (5 c width hint)
  show ?case
  proof (cases "width \<le> chunk_min c")
    case True
    then show ?thesis by (simp add: on_range_error_def Let_def)
  next
    case False
    then show ?thesis by (intro disjI1 on_range_error_size) simp
  qed
qed

section \<open>Runs of the sizer\<close>

text \<open>
  The reports a sizer receives, and what a single fetcher sends: it only reports a rejection
  of a span it asked for, so at most the current size.
\<close>

datatype chunk_report = Succeeded | Throttled | Rejected u64 "u64 option"

fun report :: "chunk_report \<Rightarrow> adaptive_chunk \<Rightarrow> adaptive_chunk" where
  "report Succeeded c = on_success c"
| "report Throttled c = on_rate_limited c"
| "report (Rejected width hint) c = on_range_error width hint c"

fun reports :: "chunk_report list \<Rightarrow> adaptive_chunk \<Rightarrow> adaptive_chunk" where
  "reports [] c = c"
| "reports (r # rs) c = reports rs (report r c)"

fun asked_for :: "chunk_report list \<Rightarrow> adaptive_chunk \<Rightarrow> bool" where
  "asked_for [] c = True"
| "asked_for (r # rs) c =
     ((case r of Rejected width hint \<Rightarrow> width \<le> chunk_size c | _ \<Rightarrow> True) \<and>
      asked_for rs (report r c))"

lemma report_ok:
  "chunk_ok c \<Longrightarrow> (case r of Rejected width hint \<Rightarrow> width \<le> chunk_size c | _ \<Rightarrow> True) \<Longrightarrow>
     chunk_ok (report r c)"
  by (cases r) (auto intro: chunk.ok_succeeded chunk.ok_throttled chunk.ok_rejected)

lemma report_min [simp]: "chunk_min (report r c) = chunk_min c"
  by (cases r) simp_all

lemma report_ceiling: "chunk_ok c \<Longrightarrow> chunk_ceiling (report r c) \<le> chunk_ceiling c"
  by (cases r) (auto intro: on_range_error_ceiling)

lemma reports_bounds:
  "chunk_ok c \<Longrightarrow> asked_for rs c \<Longrightarrow>
     chunk_ok (reports rs c) \<and> chunk_min (reports rs c) = chunk_min c \<and>
     chunk_ceiling (reports rs c) \<le> chunk_ceiling c"
proof (induction rs arbitrary: c)
  case (Cons r rs)
  have ok: "chunk_ok (report r c)" using Cons.prems by (intro report_ok) auto
  moreover have "asked_for rs (report r c)" using Cons.prems by simp
  ultimately have ih: "chunk_ok (reports rs (report r c))"
      "chunk_min (reports rs (report r c)) = chunk_min (report r c)"
      "chunk_ceiling (reports rs (report r c)) \<le> chunk_ceiling (report r c)"
    using Cons.IH by blast+
  have "chunk_ceiling (report r c) \<le> chunk_ceiling c"
    using Cons.prems(1) by (rule report_ceiling)
  with ih show ?case by auto
qed simp

lemma on_range_error_hint_ceiling:
  assumes "chunk_min c < width" and "limit < width"
  shows "chunk_ceiling (on_range_error width (Some limit) c) \<le> max limit (chunk_min c)"
proof -
  have "\<not> width \<le> chunk_min c" using assms(1) by simp
  with assms(2) show ?thesis by (simp add: on_range_error_def Let_def)
qed

text \<open>
  C18: however a fetch goes on, the block range stays between the configured floor and the
  ceiling it started with, and is never zero: the sizer built by \<open>AdaptiveChunk::new\<close> from
  any three numbers, followed by any sequence of reports about spans that were asked for.
\<close>

theorem chunk_stays_in_bounds:
  assumes "asked_for rs (chunk_new initial mn mx)"
  shows "0 < chunk_size (reports rs (chunk_new initial mn mx)) \<and>
    max mn 1 \<le> chunk_size (reports rs (chunk_new initial mn mx)) \<and>
    chunk_size (reports rs (chunk_new initial mn mx)) \<le> max mx (max mn 1)"
proof -
  let ?c = "chunk_new initial mn mx"
  have b: "chunk_ok (reports rs ?c)" "chunk_min (reports rs ?c) = chunk_min ?c"
      "chunk_ceiling (reports rs ?c) \<le> chunk_ceiling ?c"
    using reports_bounds [OF chunk_new_ok assms] by auto
  have "chunk_min ?c = max mn 1" and "chunk_ceiling ?c = max mx (max mn 1)"
    by (simp_all add: chunk_new_def Let_def)
  with b show ?thesis by (auto simp: chunk_ok_def intro: less_le_trans)
qed

theorem chunk_stays_in_bounds_witness:
  "asked_for [Rejected 1000 None, Throttled, Succeeded, Succeeded] (chunk_new 1000 0 5000) \<and>
   chunk_size (reports [Rejected 1000 None, Throttled, Succeeded, Succeeded]
     (chunk_new 1000 0 5000)) \<le> max 5000 (max 0 1)"
proof -
  let ?rs = "[Rejected 1000 None, Throttled, Succeeded, Succeeded]"
  have h: "asked_for ?rs (chunk_new 1000 0 5000)"
    by (simp add: chunk_new_def clamp_word_def chunk_ops)
  show ?thesis using h chunk_stays_in_bounds [OF h] by blast
qed

text \<open>
  C26: a limit that a provider advertises is learned for good by a single fetcher: after a rejection,
  with a hint below its width, of a span above the floor that was asked for at the current size, no
  sequence of later successes, throttlings and rejections lets the block range grow past the hint
  again (or past the floor, where the hint is below it), as long as every rejected span was asked for
  at the size of its time. With two fetchers that fails, as the next property shows.
\<close>

theorem learned_limit_holds:
  assumes "chunk_ok c" and "chunk_min c < width" and "width \<le> chunk_size c"
    and "limit < width" and "asked_for rs (on_range_error width (Some limit) c)"
  shows "chunk_size (reports rs (on_range_error width (Some limit) c)) \<le> max limit (chunk_min c)"
proof -
  let ?c = "on_range_error width (Some limit) c"
  have "chunk_ok ?c" using assms(1,3) by (rule chunk.ok_rejected)
  then have "chunk_ok (reports rs ?c)" and "chunk_ceiling (reports rs ?c) \<le> chunk_ceiling ?c"
    using reports_bounds assms(5) by blast+
  moreover have "chunk_ceiling ?c \<le> max limit (chunk_min c)"
    using assms(2,4) by (rule on_range_error_hint_ceiling)
  ultimately show ?thesis by (auto simp: chunk_ok_def)
qed

theorem learned_limit_holds_witness:
  "chunk_size (reports [Succeeded, Succeeded, Succeeded, Succeeded]
     (on_range_error 1000000 (Some 50000) (chunk_new 1000000 500 1000000))) \<le> max 50000 500"
proof -
  let ?c = "chunk_new 1000000 500 1000000"
  have c: "?c = \<lparr>chunk_size = 1000000, chunk_min = 500, chunk_ceiling = 1000000, chunk_streak = 0\<rparr>"
    by (simp add: chunk_new_def clamp_word_def)
  have "chunk_min ?c < 1000000" and "(1000000 :: u64) \<le> chunk_size ?c"
    and "(50000 :: u64) < 1000000"
    and "asked_for [Succeeded, Succeeded, Succeeded, Succeeded]
           (on_range_error 1000000 (Some 50000) ?c)"
    by (simp_all add: c)
  from learned_limit_holds [OF chunk_new_ok this] show ?thesis by (simp add: c)
qed

text \<open>The size a rejection leads to, above the floor.\<close>

definition next_size :: "u64 \<Rightarrow> u64 option \<Rightarrow> u64" where
  "next_size width hint = (case hint of Some limit \<Rightarrow> if limit < width then limit else width div 2 | None \<Rightarrow> width div 2)"

lemma next_size_le: "next_size width hint \<le> width"
proof -
  have "width div 2 \<le> width" by (simp add: word_le_nat_alt unat_div)
  then show ?thesis by (auto simp: next_size_def split: option.split)
qed

lemma range_error_above:
  assumes "chunk_min c < width"
  shows "chunk_size (on_range_error width hint c) = max (next_size width hint) (chunk_min c)"
    and "chunk_ceiling (on_range_error width hint c) =
      max (min (chunk_ceiling c) (max (next_size width hint) (chunk_min c))) (chunk_min c)"
proof -
  have a: "\<not> width \<le> chunk_min c" using assms by (simp add: not_le)
  show "chunk_size (on_range_error width hint c) = max (next_size width hint) (chunk_min c)"
  proof (cases hint)
    case (Some limit)
    then show ?thesis using a by (cases "limit < width") (simp_all add: on_range_error_def next_size_def Let_def)
  qed (use a in \<open>simp add: on_range_error_def next_size_def Let_def\<close>)
  show "chunk_ceiling (on_range_error width hint c) =
      max (min (chunk_ceiling c) (max (next_size width hint) (chunk_min c))) (chunk_min c)"
  proof (cases hint)
    case (Some limit)
    then show ?thesis using a by (cases "limit < width") (simp_all add: on_range_error_def next_size_def Let_def)
  qed (use a in \<open>simp add: on_range_error_def next_size_def Let_def\<close>)
qed

text \<open>
  C31: two fetchers share one sizer (the registry sync and the settlement sync). One has learned a
  limit, and any reports of spans asked for at their time follow. Then a rejection arrives of the other
  fetcher's span, which was asked for before. Whenever what that rejection leads to (its hint, or half
  the span) lies above the limit and the floor, the shared size is set to it: above the learned
  ceiling, out of the bounds the sizer keeps for a single fetcher.
\<close>

theorem stale_rejection_raises_size:
  assumes "chunk_ok c" and "chunk_min c < width" and "width \<le> chunk_size c" and "limit < width"
    and "asked_for rs (on_range_error width (Some limit) c)"
    and "max limit (chunk_min c) < next_size stale hint"
  shows "let c1 = reports rs (on_range_error width (Some limit) c); c2 = on_range_error stale hint c1
    in chunk_ok c1 \<and> chunk_size c1 \<le> max limit (chunk_min c) \<and> chunk_size c2 = next_size stale hint \<and>
       chunk_ceiling c2 \<le> max limit (chunk_min c) \<and> chunk_ceiling c2 < chunk_size c2 \<and> \<not> chunk_ok c2"
proof -
  let ?c0 = "on_range_error width (Some limit) c"
  let ?c1 = "reports rs ?c0"
  have ok0: "chunk_ok ?c0" using assms(1,3) by (rule chunk.ok_rejected)
  then have ok: "chunk_ok ?c1" and ceil: "chunk_ceiling ?c1 \<le> chunk_ceiling ?c0"
    using reports_bounds assms(5) by blast+
  have "chunk_ceiling ?c0 \<le> max limit (chunk_min c)" using assms(2,4) by (rule on_range_error_hint_ceiling)
  with ceil have top: "chunk_ceiling ?c1 \<le> max limit (chunk_min c)" by simp
  have floor: "chunk_min ?c1 = chunk_min c"
    using reports_bounds [OF ok0 assms(5)] by (simp add: on_range_error_def Let_def)
  have above: "chunk_min c < next_size stale hint" using assms(6) by simp
  have over: "chunk_min ?c1 < stale" unfolding floor using above next_size_le by (rule less_le_trans)
  note c2 = range_error_above [OF over, of hint]
  have top_min: "max (next_size stale hint) (chunk_min ?c1) = next_size stale hint"
    unfolding floor using above by simp
  have size: "chunk_size (on_range_error stale hint ?c1) = next_size stale hint"
    unfolding c2(1) by (rule top_min)
  have "chunk_ceiling (on_range_error stale hint ?c1) \<le> max (chunk_ceiling ?c1) (chunk_min ?c1)"
    unfolding c2(2) by (rule max.mono) simp_all
  with top have low: "chunk_ceiling (on_range_error stale hint ?c1) \<le> max limit (chunk_min c)"
    unfolding floor by (auto simp: max_def split: if_splits)
  have gap: "chunk_ceiling (on_range_error stale hint ?c1) < chunk_size (on_range_error stale hint ?c1)"
    unfolding size by (rule le_less_trans [OF low assms(6)])
  then have "\<not> chunk_ok (on_range_error stale hint ?c1)" by (auto simp: chunk_ok_def)
  moreover have "chunk_size ?c1 \<le> max limit (chunk_min c)" using ok top by (auto simp: chunk_ok_def)
  ultimately show ?thesis using ok size low gap by (simp add: Let_def)
qed

theorem stale_rejection_raises_size_witness:
  "let c1 = reports [Succeeded, Succeeded] (on_range_error 1000000 (Some 50000) (chunk_new 1000000 500 1000000));
       c2 = on_range_error 1000000 None c1
   in chunk_size c1 \<le> 50000 \<and> chunk_size c2 = 500000 \<and> \<not> chunk_ok c2"
proof -
  let ?c = "chunk_new 1000000 500 1000000"
  have c: "?c = \<lparr>chunk_size = 1000000, chunk_min = 500, chunk_ceiling = 1000000, chunk_streak = 0\<rparr>"
    by (simp add: chunk_new_def clamp_word_def)
  have "chunk_min ?c < 1000000" and "(1000000 :: u64) \<le> chunk_size ?c" and "(50000 :: u64) < 1000000"
    and "asked_for [Succeeded, Succeeded] (on_range_error 1000000 (Some 50000) ?c)"
    and "max 50000 (chunk_min ?c) < next_size 1000000 None"
    by (simp_all add: c next_size_def)
  from stale_rejection_raises_size [OF chunk_new_ok this] show ?thesis
    by (simp add: Let_def c next_size_def)
qed

section \<open>Backoff stays in its window\<close>

lemma backoff_ceiling_eq:
  "backoff_ceiling attempt base cap =
     (if base * 2 ^ min (unat attempt - 1) 20 < duration_limit
      then min (base * 2 ^ min (unat attempt - 1) 20) cap else cap)"
proof -
  let ?e = "min (unat attempt - 1) 20"
  have e: "unat (min (sat_sub attempt 1) 20 :: u32) = ?e" by (simp add: rust_arith)
  have "?e < 32" by simp
  then have "2 ^ ?e < (2 ^ 32 :: nat)" by (rule power_strict_increasing) simp
  moreover have "push_bit ?e (1 :: u32) = of_nat (2 ^ ?e)" by (simp add: push_bit_of_1)
  ultimately have "unat (push_bit ?e (1 :: u32)) = 2 ^ ?e"
    by (simp only: unsigned_of_nat take_bit_eq_mod) simp
  then show ?thesis
    by (simp add: backoff_ceiling_def checked_mul_duration_def e Let_def)
qed

lemma backoff_ceiling_le: "backoff_ceiling attempt base cap \<le> cap"
  by (simp add: backoff_ceiling_eq)

lemma backoff_delay_window:
  assumes "as_millis (cap div 2) < 2 ^ 64 - 1"
  shows "\<exists>d. backoff_delay attempt base cap entropy = Some d \<and>
    backoff_ceiling attempt base cap div 2 \<le> d \<and> d \<le> backoff_ceiling attempt base cap"
proof -
  let ?c = "backoff_ceiling attempt base cap"
  let ?m = "as_millis (?c div 2)"
  have "?c div 2 \<le> cap div 2" by (intro div_le_mono backoff_ceiling_le)
  then have "?m \<le> as_millis (cap div 2)" unfolding as_millis_def by (rule div_le_mono)
  with assms have m: "?m < 2 ^ 64 - 1" by linarith
  have u: "unat (of_nat ?m :: u64) = ?m"
    using m by (simp add: unsigned_of_nat take_bit_eq_mod)
  have u1: "unat (of_nat ?m + 1 :: u64) = ?m + 1"
    using m by (simp add: unat_word_ariths u)
  then have nz: "(of_nat ?m + 1 :: u64) \<noteq> 0" by force
  let ?j = "unat (entropy mod (of_nat ?m + 1))"
  have "?j \<le> ?m" using u1 by (simp add: unat_mod less_Suc_eq_le [symmetric])
  then have "from_millis ?j \<le> ?c div 2"
    by (simp add: from_millis_def as_millis_def less_eq_div_iff_mult_less_eq)
  moreover have "backoff_delay attempt base cap entropy =
      Some (if (of_nat ?m :: u64) = 0 then ?c div 2 else ?c div 2 + from_millis ?j)"
    using m nz by (simp add: backoff_delay_def Let_def)
  ultimately show ?thesis by auto
qed

text \<open>
  Every delay lies between half the exponential ceiling and the ceiling, which is
  \<open>base * 2^(attempt-1)\<close> (the exponent stopping at 20) limited by the cap; and the jitter
  computation does not panic, for every cap below the \<open>u64\<close> millisecond range.
\<close>

theorem backoff_within_window:
  assumes "as_millis (cap div 2) < 2 ^ 64 - 1"
  shows "\<exists>d. backoff_delay attempt base cap entropy = Some d \<and>
    backoff_ceiling attempt base cap div 2 \<le> d \<and> d \<le> backoff_ceiling attempt base cap \<and>
    backoff_ceiling attempt base cap =
      (if base * 2 ^ min (unat attempt - 1) 20 < duration_limit
       then min (base * 2 ^ min (unat attempt - 1) 20) cap else cap)"
  using backoff_delay_window [OF assms, of attempt base entropy] backoff_ceiling_eq [of attempt base cap]
  by blast

theorem backoff_within_window_witness:
  "\<exists>d. backoff_delay 3 (from_secs 2) (from_secs 300) 12345 = Some d \<and>
     from_secs 4 \<le> d \<and> d \<le> from_secs 8"
proof -
  have h: "as_millis (from_secs 300 div 2) < 2 ^ 64 - 1"
    by (simp add: as_millis_def from_secs_def)
  have c: "backoff_ceiling 3 (from_secs 2) (from_secs 300) = from_secs 8"
    by (simp add: backoff_ceiling_eq from_secs_def duration_limit_def min_def)
  have "from_secs 8 div 2 = from_secs 4" by (simp add: from_secs_def)
  with backoff_within_window [OF h, of 3 "from_secs 2" 12345] c show ?thesis by auto
qed

section \<open>Advertised limits are read from the message\<close>

lemma str_replace_absent: "\<not> str_contains p s \<Longrightarrow> str_replace p r s = s"
proof (induction p r s rule: str_replace.induct)
  case (2 p r c cs)
  then have "\<not> starts_with p (c # cs)" and "\<not> str_contains p cs"
    by (auto simp: str_contains_def split: if_splits)
  with 2 show ?case by simp
qed simp

lemma str_find_digits:
  "list_all is_digit s \<Longrightarrow> \<not> is_digit c \<Longrightarrow> str_find (c # ps) s = None"
  by (induction s) auto

lemma lowercase_digits: "list_all is_digit s \<Longrightarrow> map lower_char s = s"
  by (induction s) (auto simp: lower_char_def is_digit_def)

lemma filter_takeWhile_digits:
  "list_all is_digit s \<Longrightarrow> filter is_digit (takeWhile (\<lambda>c. is_digit c \<or> c = d) s) = s"
  by (induction s) auto

lemma not_digit_letters:
  "\<not> is_digit CHR ''b''" "\<not> is_digit CHR ''i''"
  by (simp_all add: is_digit_def)

lemma no_head_marker:
  assumes "list_all is_digit s"
  shows "strip_head_markers (''exceed maximum block range: '' @ s) =
    ''exceed maximum block range: '' @ s"
proof -
  have "\<not> str_contains m (''exceed maximum block range: '' @ s)" if "m \<in> set head_markers" for m
    using that assms
    by (auto simp: head_markers_def str_contains_def str_find_digits not_digit_letters)
  then show ?thesis
    by (simp add: strip_head_markers_def head_markers_def str_replace_absent
        del: str_replace.simps append.simps)
qed

text \<open>
  When a provider rejects a range with \<^verbatim>\<open>exceed maximum block range: N\<close>, the error is a range
  error whose hint is exactly the number N, for every positive N a \<open>u64\<close> can hold.
\<close>

theorem advertised_limit_is_read:
  assumes "0 < n" and "n < 2 ^ 64"
  shows "classify_rpc_error (''exceed maximum block range: '' @ nat_str n) =
    RangeTooLarge (Some (of_nat n))"
proof -
  let ?d = "nat_str n" and ?p = "''exceed maximum block range: ''"
  have d: "list_all is_digit ?d" using nat_str_digits by blast
  have lower: "to_lowercase (?p @ ?d) = ?p @ ?d"
    by (simp add: to_lowercase_def lowercase_digits [OF d]) (simp add: lower_char_def)
  have "list_ex (\<lambda>marker. str_contains marker (?p @ ?d)) range_markers"
    by (simp add: range_markers_def str_contains_def)
  moreover have "hint_after (?p @ ?d) ''block range: '' = Some (of_nat n)"
  proof -
    have "str_find ''block range: '' (?p @ ?d) = Some 15" by simp
    moreover have "drop 28 (?p @ ?d) = ?d" by simp
    moreover have "parse_u64 ?d = Some (of_nat n)"
      using assms by (simp add: parse_u64_def parse_unsigned_nat_str)
    moreover have "(0 :: u64) < of_nat n"
      using assms by (simp add: word_less_nat_alt unsigned_of_nat take_bit_eq_mod)
    ultimately show ?thesis
      by (simp add: hint_after_def Let_def filter_takeWhile_digits [OF d] append_Nil
          del: append_Cons)
  qed
  ultimately show ?thesis
    by (simp add: classify_rpc_error_def Let_def lower no_head_marker [OF d] range_hint_def
        hint_prefixes_def del: append.simps)
qed

theorem advertised_limit_is_read_witness:
  "classify_rpc_error ''exceed maximum block range: 50000'' = RangeTooLarge (Some 50000)"
proof -
  have d: "char_of (53 :: nat) = CHR ''5''" "char_of (48 :: nat) = CHR ''0''" by code_simp+
  have "nat_str 50000 = ''50000''" by (simp add: nat_str.simps d)
  with advertised_limit_is_read [of 50000] show ?thesis by simp
qed

end
