(* ===== verification/Rpc.thy ===== *)
theory Rpc
  imports Prelude
begin

text \<open>
  Model of \<^verbatim>\<open>src/chain/rpc.rs\<close>: the JSON-RPC client over an ordered list of endpoints with
  sticky failover. What one endpoint answers to one request (within the 30 s timeout) is
  outside the program: a function \<open>call\<close> from the endpoint's index and the world to an
  outcome and the new world. The client's own state is the two atomic indices.
\<close>

section \<open>State\<close>

definition request_timeout_secs :: nat where
  "request_timeout_secs = 30"

text \<open>
  \<open>HttpClientError\<close>: a JSON-RPC error response with its code and message, or anything else
  (transport, decoding); each with the text the library displays for it.
\<close>

datatype http_error =
    JsonRpcError (err_code: int) (err_message: string) (err_display: string)
  | OtherHttpError (err_display: string)

text \<open>What one request to one endpoint comes back with.\<close>

datatype 'v outcome = Served 'v | Refused http_error | TimedOut

record endpoint =
  ep_label :: string
  ep_secrets :: "string list"

record transport =
  preferred :: nat
  logs_served_by :: nat

record failover_error =
  fe_summary :: string
  fe_last :: "http_error option"

section \<open>Construction and redaction\<close>

definition parse_rpc_urls :: "string \<Rightarrow> string list" where
  "parse_rpc_urls raw = filter (\<lambda>url. url \<noteq> []) (map trim (split_on (CHR '','') raw))"

text \<open>The parts of a parsed URL that \<open>redact_url\<close> reads; the URL parser is a parameter.\<close>

record parsed_url =
  url_scheme :: string
  url_host :: "string option"
  url_port :: "u16 option"

definition redact_url :: "(string \<Rightarrow> parsed_url option) \<Rightarrow> string \<Rightarrow> string" where
  "redact_url url_parse raw =
     (case url_parse raw of
        Some url \<Rightarrow>
          (let host = (case url_host url of Some h \<Rightarrow> h | None \<Rightarrow> ''?'')
           in (case url_port url of
                 Some port \<Rightarrow> url_scheme url @ ''://'' @ host @ '':'' @ nat_str (unat port)
               | None \<Rightarrow> url_scheme url @ ''://'' @ host))
      | None \<Rightarrow> ''<invalid-url>'')"

text \<open>\<open>FailoverHttp::new\<close>; \<open>http_parse\<close> is \<open>Http::from_str\<close>, giving the normalised URL.\<close>

fun build_endpoints ::
  "(string \<Rightarrow> string res) \<Rightarrow> (string \<Rightarrow> parsed_url option) \<Rightarrow> string list \<Rightarrow> endpoint list res" where
  "build_endpoints http_parse url_parse [] = Inr []"
| "build_endpoints http_parse url_parse (raw # urls) =
     (case http_parse raw of
        Inl e \<Rightarrow> Inl (''Invalid RPC URL '' @ squote @ redact_url url_parse raw @ squote
               @ '': '' @ e)
      | Inr normalized \<Rightarrow>
          (let secrets = remdups_adj (sort_key (\<lambda>s. - int (length s)) [normalized, raw]);
               ep = \<lparr>ep_label = redact_url url_parse raw, ep_secrets = secrets\<rparr>
           in (case build_endpoints http_parse url_parse urls of
                 Inl e \<Rightarrow> Inl e
               | Inr eps \<Rightarrow> Inr (ep # eps))))"

definition failover_new ::
  "(string \<Rightarrow> string res) \<Rightarrow> (string \<Rightarrow> parsed_url option) \<Rightarrow> string list \<Rightarrow>
     (endpoint list \<times> transport) res" where
  "failover_new http_parse url_parse urls =
     (if urls = [] then Inl ''at least one RPC URL is required''
      else (case build_endpoints http_parse url_parse urls of
              Inl e \<Rightarrow> Inl e
            | Inr eps \<Rightarrow> Inr (eps, \<lparr>preferred = 0, logs_served_by = 0\<rparr>)))"

definition labels :: "endpoint list \<Rightarrow> string list" where
  "labels eps = map ep_label eps"

definition label :: "endpoint list \<Rightarrow> nat \<Rightarrow> string" where
  "label eps index = (if index < length eps then ep_label (eps ! index) else ''?'')"

definition redact :: "endpoint list \<Rightarrow> string \<Rightarrow> string" where
  "redact eps message =
     foldl (\<lambda>out ep. foldl (\<lambda>out secret.
         if secret \<noteq> [] then str_replace secret (ep_label ep) out else out) out (ep_secrets ep))
       message eps"

section \<open>Requests\<close>

definition is_deterministic :: "http_error \<Rightarrow> bool" where
  "is_deterministic error =
     (case error of
        JsonRpcError code msg _ \<Rightarrow>
          (let message = to_lowercase msg
           in code = 3 \<or> str_contains ''execution reverted'' message
              \<or> str_contains ''revert'' message)
      | OtherHttpError _ \<Rightarrow> False)"

fun join :: "string \<Rightarrow> string list \<Rightarrow> string" where
  "join sep [] = []"
| "join sep [s] = s"
| "join sep (s # t # ss) = s @ sep @ join sep (t # ss)"

definition timeout_text :: "string" where
  "timeout_text = ''timed out after '' @ nat_str request_timeout_secs @ ''s''"

fun try_endpoints ::
  "endpoint list \<Rightarrow> string \<Rightarrow> (nat \<Rightarrow> 'w \<Rightarrow> 'v outcome \<times> 'w) \<Rightarrow> nat \<Rightarrow> nat list \<Rightarrow>
   string list \<Rightarrow> http_error option \<Rightarrow> transport \<Rightarrow> 'w \<Rightarrow>
   (failover_error + 'v) \<times> transport \<times> 'w" where
  "try_endpoints eps meth call start [] failures lst t w =
     (let count = length eps
      in (Inl \<lparr>fe_summary = ''all '' @ nat_str count @ '' RPC endpoint(s) failed for '' @ meth
                  @ '': '' @ join '' '' failures,
               fe_last = lst\<rparr>,
          t\<lparr>preferred := (start + 1) mod count\<rparr>, w))"
| "try_endpoints eps meth call start (offset # offsets) failures lst t w =
     (let index = (start + offset) mod length eps;
          ep = eps ! index
      in (case call index w of
            (Served v, w') \<Rightarrow>
              (let t1 = (if meth = ''eth_getLogs'' then t\<lparr>logs_served_by := index\<rparr> else t);
                   t2 = (if index \<noteq> start then t1\<lparr>preferred := index\<rparr> else t1)
               in (Inr v, t2, w'))
          | (Refused error, w') \<Rightarrow>
              (let txt = redact eps (err_display error)
               in if is_deterministic error
                  then (Inl \<lparr>fe_summary = ep_label ep @ '': '' @ txt, fe_last = Some error\<rparr>, t, w')
                  else try_endpoints eps meth call start offsets
                         (failures @ [''['' @ ep_label ep @ '': '' @ txt @ '']'']) (Some error) t w')
          | (TimedOut, w') \<Rightarrow>
              try_endpoints eps meth call start offsets
                (failures @ [''['' @ ep_label ep @ '': '' @ timeout_text @ '']'']) lst t w'))"

text \<open>
  \<open>JsonRpcClient::request\<close>. The parameters are already serialised or carry the
  serialisation error; the list of endpoints is never empty (\<open>failover_new\<close>).
\<close>

definition request ::
  "endpoint list \<Rightarrow> string \<Rightarrow> 'p res \<Rightarrow> ('p \<Rightarrow> nat \<Rightarrow> 'w \<Rightarrow> 'v outcome \<times> 'w) \<Rightarrow>
   transport \<Rightarrow> 'w \<Rightarrow> (failover_error + 'v) \<times> transport \<times> 'w" where
  "request eps meth params call t w =
     (case params of
        Inl e \<Rightarrow> (Inl \<lparr>fe_summary = ''failed to serialize '' @ meth @ '' params: '' @ e,
                       fe_last = None\<rparr>, t, w)
      | Inr p \<Rightarrow>
          (let count = length eps; start = preferred t mod count
           in try_endpoints eps meth (call p) start [0..<count] [] None t w))"

text \<open>\<open>eth_blockNumber\<close> on one endpoint, bypassing failover, and \<open>demote\<close>.\<close>

definition block_number_on ::
  "endpoint list \<Rightarrow> (nat \<Rightarrow> 'w \<Rightarrow> u64 outcome \<times> 'w) \<Rightarrow> nat \<Rightarrow> 'w \<Rightarrow> u64 res \<times> 'w" where
  "block_number_on eps call index w =
     (if index < length eps
      then (case call index w of
              (Served block, w') \<Rightarrow> (Inr block, w')
            | (Refused error, w') \<Rightarrow>
                (Inl (ep_label (eps ! index) @ '': eth_blockNumber failed: ''
                        @ redact eps (err_display error)), w')
            | (TimedOut, w') \<Rightarrow>
                (Inl (ep_label (eps ! index) @ '': eth_blockNumber '' @ timeout_text), w'))
      else (Inl (''no RPC endpoint #'' @ nat_str index), w))"

definition demote :: "endpoint list \<Rightarrow> nat \<Rightarrow> transport \<Rightarrow> transport" where
  "demote eps index t =
     (let count = length eps
      in if 1 < count \<and> preferred t = index
         then t\<lparr>preferred := (index + 1) mod count\<rparr> else t)"

section \<open>What a request guarantees\<close>

text \<open>
  The world after the first \<open>k\<close> endpoints of a round have been asked, and the answers that
  make the client move on to the next one.
\<close>

fun world_after ::
  "(nat \<Rightarrow> 'w \<Rightarrow> 'v outcome \<times> 'w) \<Rightarrow> nat \<Rightarrow> nat \<Rightarrow> nat \<Rightarrow> 'w \<Rightarrow> 'w" where
  "world_after call count start 0 w = w"
| "world_after call count start (Suc k) w =
     snd (call ((start + k) mod count) (world_after call count start k w))"

definition answer ::
  "(nat \<Rightarrow> 'w \<Rightarrow> 'v outcome \<times> 'w) \<Rightarrow> nat \<Rightarrow> nat \<Rightarrow> nat \<Rightarrow> 'w \<Rightarrow> 'v outcome" where
  "answer call count start k w = fst (call ((start + k) mod count) (world_after call count start k w))"

definition moves_on :: "'v outcome \<Rightarrow> bool" where
  "moves_on r = (case r of Served _ \<Rightarrow> False | Refused e \<Rightarrow> \<not> is_deterministic e | TimedOut \<Rightarrow> True)"

definition transport_ok :: "endpoint list \<Rightarrow> transport \<Rightarrow> bool" where
  "transport_ok eps t \<longleftrightarrow> preferred t < length eps \<and> logs_served_by t < length eps"

definition note_served :: "string \<Rightarrow> nat \<Rightarrow> nat \<Rightarrow> transport \<Rightarrow> transport" where
  "note_served meth start index t =
     (let t1 = (if meth = ''eth_getLogs'' then t\<lparr>logs_served_by := index\<rparr> else t)
      in if index \<noteq> start then t1\<lparr>preferred := index\<rparr> else t1)"

text \<open>The endpoints from the \<open>k\<close>-th up to, not including, the \<open>i\<close>-th gave such an answer.\<close>

definition passed ::
  "(nat \<Rightarrow> 'w \<Rightarrow> 'v outcome \<times> 'w) \<Rightarrow> nat \<Rightarrow> nat \<Rightarrow> 'w \<Rightarrow> nat \<Rightarrow> nat \<Rightarrow> bool" where
  "passed call count start w k i \<longleftrightarrow> (\<forall>j \<in> {k..<i}. moves_on (answer call count start j w))"

lemma passed_refl [simp]: "passed call count start w k k"
  by (simp add: passed_def)

lemma passed_step:
  "moves_on (answer call count start k w) \<Longrightarrow> passed call count start w (Suc k) i \<Longrightarrow>
     passed call count start w k i"
  unfolding passed_def by (metis Suc_leI atLeastLessThan_iff le_neq_implies_less)

lemma try_endpoints_moves_on:
  assumes "call ((start + off) mod length eps) w = (r, w1)" and "moves_on r"
  shows "\<exists>f l. try_endpoints eps meth call start (off # offs) failures lst t w =
    try_endpoints eps meth call start offs f l t w1"
proof (cases r)
  case (Refused e)
  with assms have "try_endpoints eps meth call start (off # offs) failures lst t w =
      try_endpoints eps meth call start offs
        (failures @ [''['' @ ep_label (eps ! ((start + off) mod length eps)) @ '': ''
                     @ redact eps (err_display e) @ '']'']) (Some e) t w1"
    by (simp add: moves_on_def Let_def)
  then show ?thesis by blast
next
  case TimedOut
  with assms have "try_endpoints eps meth call start (off # offs) failures lst t w =
      try_endpoints eps meth call start offs
        (failures @ [''['' @ ep_label (eps ! ((start + off) mod length eps)) @ '': ''
                     @ timeout_text @ '']'']) lst t w1"
    by (simp add: Let_def)
  then show ?thesis by blast
qed (use assms in \<open>simp add: moves_on_def\<close>)

lemma try_endpoints_stops:
  assumes "call ((start + off) mod length eps) w = (r, w1)" and "\<not> moves_on r"
    and "try_endpoints eps meth call start (off # offs) failures lst t w = (res, t', w')"
  shows "w' = w1 \<and>
    ((\<exists>v. r = Served v \<and> res = Inr v \<and>
        t' = note_served meth start ((start + off) mod length eps) t) \<or>
     (\<exists>e f. r = Refused e \<and> is_deterministic e \<and> res = Inl f \<and> t' = t))"
proof (cases r)
  case (Served v)
  with assms show ?thesis by (simp add: Let_def note_served_def split: if_splits)
next
  case (Refused e)
  with assms show ?thesis by (simp add: Let_def moves_on_def) blast
next
  case TimedOut
  with assms show ?thesis by (simp add: moves_on_def)
qed

text \<open>The round from the \<open>k\<close>-th endpoint on, in terms of the answers.\<close>

lemma try_endpoints_round:
  assumes "k \<le> count" and "count = length eps"
    and "try_endpoints eps meth call start [k..<count] failures lst t (world_after call count start k w)
           = (r, t', w')"
  shows "(\<exists>i v. k \<le> i \<and> i < count \<and> passed call count start w k i \<and>
            answer call count start i w = Served v \<and> r = Inr v \<and>
            t' = note_served meth start ((start + i) mod count) t \<and>
            w' = world_after call count start (Suc i) w)
       \<or> (\<exists>i e f. k \<le> i \<and> i < count \<and> passed call count start w k i \<and>
            answer call count start i w = Refused e \<and> is_deterministic e \<and> r = Inl f \<and> t' = t)
       \<or> (\<exists>f. passed call count start w k count \<and> r = Inl f \<and>
            t' = t\<lparr>preferred := (start + 1) mod count\<rparr> \<and>
            w' = world_after call count start count w)"
  using assms
proof (induction "count - k" arbitrary: k failures lst)
  case 0
  then show ?case by (auto simp: Let_def)
next
  case (Suc n)
  let ?w = "world_after call count start k w"
  let ?i = "(start + k) mod count"
  from Suc.hyps(2) have k: "k < count" by simp
  then have upt: "[k..<count] = k # [Suc k..<count]" by (rule upt_conv_Cons)
  obtain o' w1 where c: "call ?i ?w = (o', w1)" by (cases "call ?i ?w")
  have w1: "w1 = world_after call count start (Suc k) w" by (simp add: c)
  have a: "answer call count start k w = o'" by (simp add: answer_def c)
  note IH = Suc.hyps(1) [of "Suc k"]
  show ?case
  proof (cases "moves_on o'")
    case False
    have "try_endpoints eps meth call start (k # [Suc k..<count]) failures lst t ?w = (r, t', w')"
      using Suc.prems(3) upt by simp
    from try_endpoints_stops [OF c [unfolded Suc.prems(2)] False this [unfolded Suc.prems(2)]]
    consider (served) v where "o' = Served v" "r = Inr v" "w' = w1"
          "t' = note_served meth start ((start + k) mod count) t"
      | (stopped) e f where "o' = Refused e" "is_deterministic e" "r = Inl f" "t' = t"
      using Suc.prems(2) by blast
    then show ?thesis
    proof cases
      case served
      with a w1 k show ?thesis by (metis le_refl passed_refl)
    next
      case stopped
      with a k show ?thesis by (metis le_refl passed_refl)
    qed
  next
    case True
    have "\<exists>f l. try_endpoints eps meth call start (k # [Suc k..<count]) failures lst t ?w =
        try_endpoints eps meth call start [Suc k..<count] f l t w1"
      using c True Suc.prems(2) by (intro try_endpoints_moves_on [where r = o']) simp_all
    then obtain f l where
      fl: "try_endpoints eps meth call start (k # [Suc k..<count]) failures lst t ?w =
        try_endpoints eps meth call start [Suc k..<count] f l t w1" by blast
    have rest: "try_endpoints eps meth call start [Suc k..<count] f l t
        (world_after call count start (Suc k) w) = (r, t', w')"
      using Suc.prems(3) by (simp only: upt fl w1 [symmetric])
    have ext: "passed call count start w (Suc k) i \<Longrightarrow> passed call count start w k i" for i
      using True a passed_step [of call count start k w i] by simp
    consider
      (served) i v where "Suc k \<le> i" "i < count" "passed call count start w (Suc k) i"
          "answer call count start i w = Served v" "r = Inr v"
          "t' = note_served meth start ((start + i) mod count) t"
          "w' = world_after call count start (Suc i) w"
      | (stopped) i e f where "Suc k \<le> i" "i < count" "passed call count start w (Suc k) i"
          "answer call count start i w = Refused e" "is_deterministic e" "r = Inl f" "t' = t"
      | (exhausted) f where "passed call count start w (Suc k) count" "r = Inl f"
          "t' = t\<lparr>preferred := (start + 1) mod count\<rparr>" "w' = world_after call count start count w"
      using IH [OF _ _ Suc.prems(2) rest] Suc.hyps(2) k by force
    then show ?thesis
    proof cases
      case served
      then show ?thesis using ext Suc_leD by blast
    next
      case stopped
      then show ?thesis using ext Suc_leD by blast
    next
      case exhausted
      then show ?thesis using ext by blast
    qed
  qed
qed

lemma request_round:
  assumes "eps \<noteq> []" and "request eps meth (Inr p) call t w = (r, t', w')"
    and "start = preferred t mod length eps" and "count = length eps"
  shows "(\<exists>i v. i < count \<and> passed (call p) count start w 0 i \<and>
            answer (call p) count start i w = Served v \<and> r = Inr v \<and>
            t' = note_served meth start ((start + i) mod count) t)
       \<or> (\<exists>i e f. i < count \<and> passed (call p) count start w 0 i \<and>
            answer (call p) count start i w = Refused e \<and> is_deterministic e \<and> r = Inl f \<and> t' = t)
       \<or> (\<exists>f. passed (call p) count start w 0 count \<and> r = Inl f \<and>
            t' = t\<lparr>preferred := (start + 1) mod count\<rparr>)"
  using try_endpoints_round [of 0 count eps meth "call p" start "[]" None t w r t' w'] assms
  by (simp add: request_def Let_def) blast

lemma note_served_ok:
  "transport_ok eps t \<Longrightarrow> index < length eps \<Longrightarrow> transport_ok eps (note_served meth start index t)"
  by (simp add: transport_ok_def note_served_def Let_def)

lemma preferred_ok:
  "transport_ok eps t \<Longrightarrow> index < length eps \<Longrightarrow> transport_ok eps (t\<lparr>preferred := index\<rparr>)"
  by (simp add: transport_ok_def)

lemma request_transport_ok:
  assumes "transport_ok eps t" and "request eps meth params call t w = (r, t', w')"
  shows "transport_ok eps t'"
proof (cases params)
  case (Inl e)
  with assms show ?thesis by (simp add: request_def)
next
  case (Inr p)
  from assms(1) have ne: "eps \<noteq> []" by (auto simp: transport_ok_def)
  then have lt: "j mod length eps < length eps" for j by simp
  from request_round [OF ne assms(2) [unfolded Inr] refl refl] show ?thesis
    by (elim disjE exE conjE) (simp_all add: assms(1) lt note_served_ok preferred_ok)
qed

lemma demote_transport_ok: "transport_ok eps t \<Longrightarrow> transport_ok eps (demote eps index t)"
  by (auto simp: demote_def transport_ok_def Let_def intro: mod_less_divisor)

lemma failover_new_ok:
  "failover_new http_parse url_parse urls = Inr (eps, t) \<Longrightarrow> transport_ok eps t"
proof -
  assume new: "failover_new http_parse url_parse urls = Inr (eps, t)"
  have "build_endpoints http_parse url_parse us = Inr es \<Longrightarrow> length es = length us" for us es
    by (induction us arbitrary: es) (auto simp: Let_def split: sum.splits)
  with new show ?thesis
    by (auto simp: failover_new_def transport_ok_def split: if_splits sum.splits)
qed

section \<open>The interface the log fetcher relies on\<close>

text \<open>
  What the client of the transport relies on: every request keeps the indices valid, and a
  successful \<^verbatim>\<open>eth_getLogs\<close> leaves in \<open>source\<close> the endpoint that gave the answer, so that a
  following question to that endpoint is about the right one.
\<close>

locale log_transport =
  fixes ok :: "'t \<Rightarrow> bool"
    and source :: "'t \<Rightarrow> nat"
    and endpoints :: nat
    and fetch :: "'q \<Rightarrow> 't \<Rightarrow> 'w \<Rightarrow> ('e + 'v) \<times> 't \<times> 'w"
    and gave :: "nat \<Rightarrow> 'q \<Rightarrow> 'v \<Rightarrow> bool"
  assumes fetch_ok: "ok t \<Longrightarrow> fetch q t w = (r, t', w') \<Longrightarrow> ok t'"
    and source_valid: "ok t \<Longrightarrow> source t < endpoints"
    and fetch_source: "ok t \<Longrightarrow> fetch q t w = (Inr v, t', w') \<Longrightarrow> gave (source t') q v"
begin

lemma fetched_from_valid_source:
  "ok t \<Longrightarrow> fetch q t w = (Inr v, t', w') \<Longrightarrow> source t' < endpoints \<and> gave (source t') q v"
  using fetch_ok source_valid fetch_source by blast

end

definition endpoint_gave :: "('p \<Rightarrow> nat \<Rightarrow> 'w \<Rightarrow> 'v outcome \<times> 'w) \<Rightarrow> nat \<Rightarrow> 'p \<Rightarrow> 'v \<Rightarrow> bool" where
  "endpoint_gave call index p v \<longleftrightarrow> (\<exists>w. fst (call p index w) = Served v)"

lemma get_logs_source:
  assumes "transport_ok eps t"
    and "request eps ''eth_getLogs'' (Inr p) call t w = (Inr v, t', w')"
  shows "endpoint_gave call (logs_served_by t') p v"
proof -
  from assms(1) have ne: "eps \<noteq> []" by (auto simp: transport_ok_def)
  from request_round [OF ne assms(2) refl refl] obtain i where
    "answer (call p) (length eps) (preferred t mod length eps) i w = Served v"
    and "t' = note_served ''eth_getLogs'' (preferred t mod length eps)
               ((preferred t mod length eps + i) mod length eps) t"
    by auto
  then show ?thesis
    unfolding endpoint_gave_def answer_def note_served_def Let_def by auto
qed

interpretation logs: log_transport "transport_ok eps" logs_served_by "length eps"
  "\<lambda>p. request eps ''eth_getLogs'' (Inr p) call" "endpoint_gave call" for eps call
proof (unfold_locales, goal_cases)
  case (1 t q w r t' w')
  then show ?case by (rule request_transport_ok)
next
  case (2 t)
  then show ?case by (simp add: transport_ok_def)
next
  case (3 t q w v t' w')
  then show ?case by (rule get_logs_source)
qed

section \<open>Properties\<close>

text \<open>
  C19: sticky failover. A request that succeeds was served by the first endpoint, counting
  from the preferred one and wrapping around, whose answer is not an error worth another
  endpoint; every endpoint asked before it was refused or timed out without a deterministic
  failure. That endpoint is the preferred one afterwards, and for \<^verbatim>\<open>eth_getLogs\<close> it is recorded
  as the one that served the logs.
\<close>

theorem failover_first_healthy:
  assumes "transport_ok eps t" and "request eps meth (Inr p) call t w = (Inr v, t', w')"
  shows "\<exists>i < length eps.
    answer (call p) (length eps) (preferred t) i w = Served v \<and>
    passed (call p) (length eps) (preferred t) w 0 i \<and>
    preferred t' = (preferred t + i) mod length eps \<and>
    (meth = ''eth_getLogs'' \<longrightarrow> logs_served_by t' = (preferred t + i) mod length eps) \<and>
    (meth \<noteq> ''eth_getLogs'' \<longrightarrow> logs_served_by t' = logs_served_by t)"
proof -
  from assms(1) have ne: "eps \<noteq> []" and start: "preferred t mod length eps = preferred t"
    by (auto simp: transport_ok_def)
  from request_round [OF ne assms(2) refl refl] obtain i where "i < length eps"
    "passed (call p) (length eps) (preferred t) w 0 i"
    "answer (call p) (length eps) (preferred t) i w = Served v"
    "t' = note_served meth (preferred t) ((preferred t + i) mod length eps) t"
    by (auto simp: start)
  then show ?thesis
    by (intro exI [of _ i]) (auto simp: note_served_def Let_def)
qed

definition two_endpoints :: "endpoint list" where
  "two_endpoints =
     [\<lparr>ep_label = ''https://a.example'', ep_secrets = []\<rparr>,
      \<lparr>ep_label = ''https://b.example'', ep_secrets = []\<rparr>]"

definition first_limited :: "unit \<Rightarrow> nat \<Rightarrow> unit \<Rightarrow> u64 outcome \<times> unit" where
  "first_limited p index w =
     (if index = 0 then Refused (JsonRpcError 429 ''Too Many Requests'' ''Too Many Requests'')
      else Served 42, w)"

theorem failover_first_healthy_witness:
  "\<exists>t' w'. request two_endpoints ''eth_blockNumber'' (Inr ()) first_limited
     \<lparr>preferred = 0, logs_served_by = 0\<rparr> () = (Inr 42, t', w') \<and> preferred t' = 1"
proof -
  let ?t = "\<lparr>preferred = 0, logs_served_by = 0\<rparr>"
  have ok: "transport_ok two_endpoints ?t" by (simp add: transport_ok_def two_endpoints_def)
  have run: "request two_endpoints ''eth_blockNumber'' (Inr ()) first_limited ?t () =
      (Inr 42, \<lparr>preferred = 1, logs_served_by = 0\<rparr>, ())"
    by (simp add: request_def two_endpoints_def first_limited_def is_deterministic_def
        str_contains_def to_lowercase_def lower_char_def Let_def upt_rec)
  from failover_first_healthy [OF ok run] obtain i where "i < length two_endpoints"
    and "preferred \<lparr>preferred = 1, logs_served_by = 0\<rparr> = (preferred ?t + i) mod length two_endpoints"
    by blast
  with run show ?thesis by auto
qed

text \<open>
  C23: a request with an error result has not been given up early: either some endpoint failed
  deterministically, after all earlier ones were worth moving on from, and the preference is
  untouched; or every endpoint of the list was asked and failed, and the next request starts
  at the one after the endpoint this round started with.
\<close>

theorem failover_error_is_final:
  assumes "transport_ok eps t" and "request eps meth (Inr p) call t w = (Inl e, t', w')"
  shows "(\<exists>i < length eps. \<exists>err. passed (call p) (length eps) (preferred t) w 0 i \<and>
            answer (call p) (length eps) (preferred t) i w = Refused err \<and>
            is_deterministic err \<and> t' = t) \<or>
         (passed (call p) (length eps) (preferred t) w 0 (length eps) \<and>
            t' = t\<lparr>preferred := (preferred t + 1) mod length eps\<rparr>)"
proof -
  from assms(1) have ne: "eps \<noteq> []" and start: "preferred t mod length eps = preferred t"
    by (auto simp: transport_ok_def)
  from request_round [OF ne assms(2) refl refl] show ?thesis
    unfolding start by blast
qed

definition all_time_out :: "unit \<Rightarrow> nat \<Rightarrow> unit \<Rightarrow> u64 outcome \<times> unit" where
  "all_time_out p index w = (TimedOut, w)"

theorem failover_error_is_final_witness:
  "\<exists>e t' w'. request two_endpoints ''eth_blockNumber'' (Inr ()) all_time_out
     \<lparr>preferred = 1, logs_served_by = 0\<rparr> () = (Inl e, t', w') \<and> preferred t' = 0"
proof -
  let ?t = "\<lparr>preferred = 1, logs_served_by = 0\<rparr>"
  have ok: "transport_ok two_endpoints ?t" by (simp add: transport_ok_def two_endpoints_def)
  obtain e t' w' where run: "request two_endpoints ''eth_blockNumber'' (Inr ()) all_time_out ?t () =
      (Inl e, t', w')" and t': "preferred t' = 0"
    by (simp add: request_def two_endpoints_def all_time_out_def Let_def upt_rec)
  from failover_error_is_final [OF ok run]
  have "\<exists>i. answer (all_time_out ()) 2 1 i () \<noteq> TimedOut \<or> t' = ?t\<lparr>preferred := 0\<rparr>"
    by (auto simp: two_endpoints_def answer_def all_time_out_def)
  with run t' show ?thesis by auto
qed

text \<open>
  C24: one working endpoint is enough, unless another refuses for good: if some endpoint of the list
  always serves the request, and no endpoint ever answers it with a deterministic failure (such as
  "execution reverted", which ends the request at once), it succeeds, wherever the round starts.
\<close>

theorem failover_reaches_healthy:
  assumes "transport_ok eps t" and "h < length eps"
    and "\<And>w. \<exists>v. fst (call p h w) = Served v"
    and "\<And>i w e. fst (call p i w) = Refused e \<Longrightarrow> \<not> is_deterministic e"
  shows "\<exists>v. fst (request eps meth (Inr p) call t w) = Inr v"
proof -
  let ?n = "length eps" and ?s = "preferred t"
  from assms(1) have ne: "eps \<noteq> []" and start: "?s mod ?n = ?s" and s: "?s < ?n"
    by (auto simp: transport_ok_def)
  obtain r t' w' where run: "request eps meth (Inr p) call t w = (r, t', w')"
    by (cases "request eps meth (Inr p) call t w")
  let ?k = "(h + (?n - ?s)) mod ?n"
  have k: "?k < ?n" using ne by simp
  have "(?s + ?k) mod ?n = (?s + (h + (?n - ?s))) mod ?n" by (rule mod_add_right_eq)
  also have "?s + (h + (?n - ?s)) = h + ?n" using s by simp
  also have "(h + ?n) mod ?n = h" using assms(2) by simp
  finally have "(?s + ?k) mod ?n = h" .
  with assms(3) obtain v where "answer (call p) ?n ?s ?k w = Served v"
    unfolding answer_def by metis
  then have "\<not> moves_on (answer (call p) ?n ?s ?k w)" by (simp add: moves_on_def)
  with k have "\<not> passed (call p) ?n ?s w 0 ?n" unfolding passed_def by force
  moreover have "\<not> is_deterministic e" if "answer (call p) ?n ?s i w = Refused e" for i e
    using that assms(4) unfolding answer_def by blast
  ultimately show ?thesis
    using request_round [OF ne run refl refl] run unfolding start by auto
qed

theorem failover_reaches_healthy_witness:
  "\<exists>v. fst (request two_endpoints ''eth_chainId'' (Inr ()) first_limited
     \<lparr>preferred = 0, logs_served_by = 1\<rparr> ()) = Inr v"
proof (rule failover_reaches_healthy [where h = 1])
  show "transport_ok two_endpoints \<lparr>preferred = 0, logs_served_by = 1\<rparr>"
    by (simp add: transport_ok_def two_endpoints_def)
  show "1 < length two_endpoints" by (simp add: two_endpoints_def)
  show "\<exists>v. fst (first_limited () 1 w) = Served v" for w by (simp add: first_limited_def)
  show "\<not> is_deterministic e" if "fst (first_limited () i w) = Refused e" for i w e
    using that by (auto simp: first_limited_def is_deterministic_def str_contains_def
        to_lowercase_def lower_char_def split: if_splits)
qed

end
