(* ===== verification/External.thy ===== *)
theory External
  imports Rpc
begin

text \<open>
  The library functions the program calls that are not part of the repository, as fields of a
  record that the definitions take as an argument: hashing, hexadecimal and ABI coding, the
  textual form of addresses, URL parsing, the generated contract bindings and the display of
  transport errors. Nothing is assumed about them here; the properties that rely on their
  documented behaviour name it as a hypothesis (\<open>addr_codec_ok\<close>).
\<close>

section \<open>ABI values\<close>

text \<open>\<open>ethers::abi::Token\<close> and the \<open>ParamType\<close>s the program decodes.\<close>

datatype token =
    AddressToken address
  | FixedBytesToken bytes
  | BytesToken bytes
  | IntToken u256
  | UintToken u256
  | BoolToken bool
  | StringToken string
  | FixedArrayToken "token list"
  | ArrayToken "token list"
  | TupleToken "token list"

datatype param_type = FixedBytesType nat | StringType | UintType nat | BoolType

text \<open>Big-endian bytes of a hash or an address, and the number a byte string stands for.\<close>

definition be_bytes :: "u256 \<Rightarrow> bytes" where
  "be_bytes h = map (\<lambda>i. ucast (drop_bit (8 * (31 - i)) h)) [0..<32]"

definition addr_bytes :: "address \<Rightarrow> bytes" where
  "addr_bytes a = map (\<lambda>i. ucast (drop_bit (8 * (19 - i)) a)) [0..<20]"

definition from_big_endian :: "bytes \<Rightarrow> u256" where
  "from_big_endian data = foldl (\<lambda>n b. 256 * n + ucast b) 0 data"

text \<open>\<open>as_u64\<close> panics when the number does not fit; \<open>low_u64\<close> truncates.\<close>

definition as_u64 :: "u256 \<Rightarrow> u64 option" where
  "as_u64 n = (if unat n < 2 ^ 64 then Some (ucast n) else None)"

definition low_u64 :: "u256 \<Rightarrow> u64" where
  "low_u64 n = ucast n"

definition u256_str :: "u256 \<Rightarrow> string" where
  "u256_str n = nat_str (unat n)"

section \<open>Decoded contract events\<close>

text \<open>The structs that the event declarations of \<^verbatim>\<open>src/chain/settlement.rs\<close> generate.\<close>

record settled_event =
  se_execution_id :: bytes
  se_payment_id :: bytes
  se_exit :: address
  se_fee_asset :: address
  se_exit_fee :: u256
  se_network_fee :: u256
  se_action_target :: address
  se_action_success :: bool

record claimed_event =
  ce_exit :: address
  ce_recipient :: address
  ce_asset :: address
  ce_amount :: u256

section \<open>The libraries\<close>

record ext =
  x_keccak256 :: "bytes \<Rightarrow> u256"
  x_sha256 :: "string \<Rightarrow> u256"
  x_hex :: "bytes \<Rightarrow> string"
  x_u256_hex :: "u256 \<Rightarrow> string"
  x_addr_text :: "address \<Rightarrow> string"
  x_addr_parse :: "string \<Rightarrow> address res"
  x_url_parse :: "string \<Rightarrow> parsed_url option"
  x_http_parse :: "string \<Rightarrow> string res"
  x_abi_encode :: "token list \<Rightarrow> bytes"
  x_abi_decode :: "param_type list \<Rightarrow> bytes \<Rightarrow> token list res"
  x_token_text :: "token \<Rightarrow> string"
  x_decode_event :: "string \<Rightarrow> u256 list \<Rightarrow> bytes \<Rightarrow> (address \<times> u256) option"
  x_role_call :: "address \<Rightarrow> bytes"
  x_role_result :: "bytes \<Rightarrow> u8 res"
  x_count_call :: bytes
  x_count_result :: "bytes \<Rightarrow> u256 res"
  x_fingerprint_call :: bytes
  x_fingerprint_result :: "bytes \<Rightarrow> u256 res"
  x_provider_error :: "failover_error \<Rightarrow> string"
  x_contract_error :: "failover_error \<Rightarrow> string"
  x_settled_topic :: u256
  x_claimed_topic :: u256
  x_decode_settled :: "u256 list \<Rightarrow> bytes \<Rightarrow> settled_event option"
  x_decode_claimed :: "u256 list \<Rightarrow> bytes \<Rightarrow> claimed_event option"
  x_view_call :: "string \<Rightarrow> address list \<Rightarrow> bytes"
  x_uint_result :: "bytes \<Rightarrow> u256 res"

text \<open>
  Documented behaviour of the address type's \<open>Debug\<close> and \<open>FromStr\<close>: lower-case
  hexadecimal with a \<open>0x\<close> prefix that parses back to the same address, in either case.
\<close>

definition addr_codec_ok :: "('z) ext_scheme \<Rightarrow> bool" where
  "addr_codec_ok x \<longleftrightarrow>
     (\<forall>a. x_addr_parse x (x_addr_text x a) = Inr a \<and>
          to_lowercase (x_addr_text x a) = x_addr_text x a)"

lemma addr_text_inj:
  assumes "addr_codec_ok x" and "x_addr_text x a = x_addr_text x b"
  shows "a = b"
proof -
  have p: "x_addr_parse x (x_addr_text x c) = Inr c" for c
    using assms(1) unfolding addr_codec_ok_def by blast
  have "(Inr a :: address res) = Inr b" using p [of a] p [of b] assms(2) by metis
  then show ?thesis by (rule sum.inject(2) [THEN iffD1])
qed

lemma addr_text_lower [simp]:
  "addr_codec_ok x \<Longrightarrow> to_lowercase (x_addr_text x a) = x_addr_text x a"
  unfolding addr_codec_ok_def by blast

lemma addr_parse_text [simp]: "addr_codec_ok x \<Longrightarrow> x_addr_parse x (x_addr_text x a) = Inr a"
  unfolding addr_codec_ok_def by blast

section \<open>A concrete address codec\<close>

text \<open>Fixed-width hexadecimal, to instantiate the parameter in examples.\<close>

definition hex_char :: "nat \<Rightarrow> char" where
  "hex_char d = char_of (if d < 10 then 48 + d else 87 + d)"

definition hex_value :: "char \<Rightarrow> nat" where
  "hex_value c = (if is_digit c then of_char c - 48 else of_char c - 87)"

fun hex_fixed :: "nat \<Rightarrow> nat \<Rightarrow> string" where
  "hex_fixed 0 n = []"
| "hex_fixed (Suc k) n = hex_fixed k (n div 16) @ [hex_char (n mod 16)]"

definition hex_number :: "string \<Rightarrow> nat" where
  "hex_number s = foldl (\<lambda>n c. 16 * n + hex_value c) 0 s"

definition hex_address :: "address \<Rightarrow> string" where
  "hex_address a = ''0x'' @ hex_fixed 40 (unat a)"

definition parse_hex_address :: "string \<Rightarrow> address res" where
  "parse_hex_address s =
     (if length s = 42 then Inr (of_nat (hex_number (to_lowercase (drop 2 s))))
      else Inl ''Invalid input length'')"

lemma hex_value_char [simp]: "d < 16 \<Longrightarrow> hex_value (hex_char d) = d"
  by (auto simp: hex_value_def hex_char_def is_digit_def)

lemma lower_hex_char [simp]: "d < 16 \<Longrightarrow> lower_char (hex_char d) = hex_char d"
  by (auto simp: lower_char_def hex_char_def)

lemma length_hex_fixed [simp]: "length (hex_fixed k n) = k"
  by (induction k n rule: hex_fixed.induct) auto

lemma lower_hex_fixed [simp]: "to_lowercase (hex_fixed k n) = hex_fixed k n"
  by (induction k n rule: hex_fixed.induct) (auto simp: to_lowercase_def)

lemma hex_number_fixed: "hex_number (hex_fixed k n) = n mod 16 ^ k"
proof (induction k n rule: hex_fixed.induct)
  case (2 k n)
  have "hex_number (hex_fixed k (n div 16) @ [hex_char (n mod 16)]) =
      16 * hex_number (hex_fixed k (n div 16)) + n mod 16"
    by (simp add: hex_number_def)
  also have "\<dots> = 16 * (n div 16 mod 16 ^ k) + n mod 16" using 2 by simp
  also have "\<dots> = n mod (16 * 16 ^ k)" by (simp add: mod_mult2_eq)
  finally show ?case by simp
qed (simp add: hex_number_def)

lemma hex_address_roundtrip: "parse_hex_address (hex_address a) = Inr a"
proof -
  have lt: "unat a < 2 ^ LENGTH(160)" by (rule unsigned_less)
  then have "hex_number (hex_fixed 40 (unat a)) = unat a" by (simp add: hex_number_fixed)
  then show ?thesis by (simp add: parse_hex_address_def hex_address_def)
qed

lemma hex_address_lower: "to_lowercase (hex_address a) = hex_address a"
proof -
  have "to_lowercase (''0x'' @ s) = ''0x'' @ to_lowercase s" for s
    by (simp add: to_lowercase_def lower_char_def)
  then show ?thesis unfolding hex_address_def by simp
qed

text \<open>A set of library functions for examples: the address codec is the real one, the others
  are simple stand-ins.\<close>

definition example_ext :: ext where
  "example_ext =
     \<lparr>x_keccak256 = (\<lambda>b. 256 * from_big_endian b + 1), x_sha256 = (\<lambda>s. of_nat (length s)),
      x_hex = (\<lambda>b. concat (map (\<lambda>x. hex_fixed 2 (unat x)) b)),
      x_u256_hex = (\<lambda>n. ''0x'' @ hex_fixed 64 (unat n)),
      x_addr_text = hex_address, x_addr_parse = parse_hex_address,
      x_url_parse = (\<lambda>s. None), x_http_parse = Inr,
      x_abi_encode = (\<lambda>t. []), x_abi_decode = (\<lambda>p d. Inl ''no decoder''),
      x_token_text = (\<lambda>t. ''token''), x_decode_event = (\<lambda>n t d. None),
      x_role_call = (\<lambda>a. 1 # addr_bytes a), x_role_result = (\<lambda>b. Inr (hd (b @ [0]))),
      x_count_call = [2], x_count_result = (\<lambda>b. Inr (from_big_endian b)),
      x_fingerprint_call = [3], x_fingerprint_result = (\<lambda>b. Inr (from_big_endian b)),
      x_provider_error = fe_summary, x_contract_error = fe_summary,
      x_settled_topic = 11, x_claimed_topic = 12,
      x_decode_settled = (\<lambda>t d. Some \<lparr>se_execution_id = replicate 32 1, se_payment_id = replicate 32 2,
         se_exit = 0xe1, se_fee_asset = 0xa1, se_exit_fee = from_big_endian d, se_network_fee = 2,
         se_action_target = 0x11, se_action_success = True\<rparr>),
      x_decode_claimed = (\<lambda>t d. Some \<lparr>ce_exit = 0xe1, ce_recipient = 0xd1, ce_asset = 0xa1,
         ce_amount = from_big_endian d\<rparr>),
      x_view_call = (\<lambda>f as. 5 # concat (map addr_bytes as)),
      x_uint_result = (\<lambda>b. Inr (from_big_endian b))\<rparr>"

lemma example_ext_codec: "addr_codec_ok example_ext"
  by (simp add: addr_codec_ok_def example_ext_def hex_address_roundtrip hex_address_lower)

end
