(* ===== verification/Profile.thy ===== *)
theory Profile
  imports External
begin

text \<open>
  Model of \<^verbatim>\<open>src/chain/profile.rs\<close>: the raw return data of the registry's
  \<^verbatim>\<open>relayers(address)\<close> is decoded for one of two layouts, told apart by the offset of the
  first string. The closure that takes the next token is a task over the remaining tokens.
\<close>

section \<open>Data\<close>

definition abi_word :: nat where
  "abi_word = 32"

definition legacy_fields :: nat where
  "legacy_fields = 7"

definition current_fields :: nat where
  "current_fields = 9"

definition status_none :: u8 where
  "status_none = 0"

datatype profile_layout = Legacy7 | Current9

record relayer_profile =
  rp_sphinx_key :: bytes
  rp_url :: string
  rp_ingress_url :: string
  rp_metadata_url :: string
  rp_staked_amount :: u256
  rp_unstake_time :: u256
  rp_is_registered :: bool
  rp_status :: "u8 option"
  rp_frozen :: bool
  rp_layout :: profile_layout

definition layout_text :: "profile_layout \<Rightarrow> string" where
  "layout_text l = (case l of Legacy7 \<Rightarrow> ''Legacy7'' | Current9 \<Rightarrow> ''Current9'')"

section \<open>Decoding\<close>

definition relayers_calldata :: "'z ext_scheme \<Rightarrow> address \<Rightarrow> bytes" where
  "relayers_calldata x a =
     take 4 (be_bytes (x_keccak256 x (map (\<lambda>c. of_nat (of_char c)) ''relayers(address)'')))
       @ x_abi_encode x [AddressToken a]"

definition param_types :: "profile_layout \<Rightarrow> param_type list" where
  "param_types layout =
     [FixedBytesType 32, StringType, StringType, StringType, UintType 256, UintType 256, BoolType]
       @ (if layout = Current9 then [UintType 8, BoolType] else [])"

definition detect_layout :: "'z ext_scheme \<Rightarrow> bytes \<Rightarrow> profile_layout res" where
  "detect_layout x data =
     (if length data < 2 * abi_word
      then Inl (''relayers() returned '' @ nat_str (length data)
                  @ '' bytes, too short for a profile'')
      else let offset = from_big_endian (take abi_word (drop abi_word data))
           in if offset = of_nat (legacy_fields * abi_word) then Inr Legacy7
              else if offset = of_nat (current_fields * abi_word) then Inr Current9
              else Inl (''relayers() returned an unknown layout (first string offset ''
                          @ x_u256_hex x offset @ '')''))"

definition next_token :: "string \<Rightarrow> (token list, token) task" where
  "next_token name toks =
     (case toks of
        [] \<Rightarrow> Some (Inl (''relayers() is missing field '' @ name), [])
      | t # ts \<Rightarrow> Some (Inr t, ts))"

definition unexpected :: "'z ext_scheme \<Rightarrow> string \<Rightarrow> token \<Rightarrow> string" where
  "unexpected x name other =
     ''relayers() '' @ name @ '' has unexpected token '' @ x_token_text x other"

definition key_field :: "'z ext_scheme \<Rightarrow> string \<Rightarrow> (token list, bytes) task" where
  "key_field x name = task_bind (next_token name) (\<lambda>t. task_of_res
     (case t of FixedBytesToken b \<Rightarrow> if length b = 32 then Inr b else Inl (unexpected x name t)
      | _ \<Rightarrow> Inl (unexpected x name t)))"

definition string_field :: "'z ext_scheme \<Rightarrow> string \<Rightarrow> (token list, string) task" where
  "string_field x name = task_bind (next_token name) (\<lambda>t. task_of_res
     (case t of StringToken v \<Rightarrow> Inr v | _ \<Rightarrow> Inl (unexpected x name t)))"

definition uint_field :: "'z ext_scheme \<Rightarrow> string \<Rightarrow> (token list, u256) task" where
  "uint_field x name = task_bind (next_token name) (\<lambda>t. task_of_res
     (case t of UintToken v \<Rightarrow> Inr v | _ \<Rightarrow> Inl (unexpected x name t)))"

definition bool_field :: "'z ext_scheme \<Rightarrow> string \<Rightarrow> (token list, bool) task" where
  "bool_field x name = task_bind (next_token name) (\<lambda>t. task_of_res
     (case t of BoolToken v \<Rightarrow> Inr v | _ \<Rightarrow> Inl (unexpected x name t)))"

text \<open>
  The status byte: \<open>u8::try_from(status.as_u64())\<close>, filtered by the range of the full
  word. \<open>as_u64\<close> panics above the \<open>u64\<close> range, before the filter is reached.
\<close>

definition status_byte :: "u256 \<Rightarrow> ('s, u8) task" where
  "status_byte status =
     (case as_u64 status of
        None \<Rightarrow> task_panic
      | Some n \<Rightarrow> if unat n < 256 \<and> status \<le> 255 then task_return (ucast n)
                  else task_fail (''relayers() status '' @ u256_str status @ '' is out of range''))"

definition decode_fields :: "'z ext_scheme \<Rightarrow> profile_layout \<Rightarrow> (token list, relayer_profile) task" where
  "decode_fields x layout =
     task_bind (key_field x ''sphinxKey'') (\<lambda>sphinx_key.
     task_bind (string_field x ''url'') (\<lambda>url.
     task_bind (string_field x ''ingressUrl'') (\<lambda>ingress_url.
     task_bind (string_field x ''metadataUrl'') (\<lambda>metadata_url.
     task_bind (uint_field x ''stakedAmount'') (\<lambda>staked_amount.
     task_bind (uint_field x ''unstakeTime'') (\<lambda>unstake_time.
     task_bind (bool_field x ''isRegistered'') (\<lambda>is_registered.
     task_bind
       (case layout of
          Legacy7 \<Rightarrow> task_return (None, False)
        | Current9 \<Rightarrow>
            task_bind (uint_field x ''status'') (\<lambda>status_word.
            task_bind (status_byte status_word) (\<lambda>status.
            task_bind (bool_field x ''frozen'') (\<lambda>frozen.
            task_return (Some status, frozen)))))
       (\<lambda>(status, frozen).
     task_return \<lparr>rp_sphinx_key = sphinx_key, rp_url = url, rp_ingress_url = ingress_url,
       rp_metadata_url = metadata_url, rp_staked_amount = staked_amount,
       rp_unstake_time = unstake_time, rp_is_registered = is_registered, rp_status = status,
       rp_frozen = frozen, rp_layout = layout\<rparr>))))))))"

text \<open>None is a panic.\<close>

definition decode_relayer_profile :: "'z ext_scheme \<Rightarrow> bytes \<Rightarrow> relayer_profile res option" where
  "decode_relayer_profile x data =
     (case detect_layout x data of
        Inl e \<Rightarrow> Some (Inl e)
      | Inr layout \<Rightarrow>
          (case x_abi_decode x (param_types layout) data of
             Inl e \<Rightarrow> Some (Inl (''relayers() '' @ layout_text layout @ '' decode failed: '' @ e))
           | Inr tokens \<Rightarrow> map_option fst (decode_fields x layout tokens)))"

definition is_member :: "relayer_profile \<Rightarrow> bool" where
  "is_member p \<longleftrightarrow> rp_is_registered p \<and> rp_status p \<noteq> Some status_none"

section \<open>What a decoded profile says\<close>

lemma next_token_Inr [simp]:
  "next_token name toks = Some (Inr t, ts) \<longleftrightarrow> toks = t # ts"
  by (auto simp: next_token_def split: list.splits)

lemma next_token_None [simp]: "next_token name toks \<noteq> None"
  by (simp add: next_token_def split: list.splits)

lemmas field_defs = key_field_def string_field_def uint_field_def bool_field_def task_of_res_def

lemma field_Inr [simp]:
  "key_field x name fs = Some (Inr k, ts) \<longleftrightarrow> fs = FixedBytesToken k # ts \<and> length k = 32"
  "string_field x name fs = Some (Inr s, ts) \<longleftrightarrow> fs = StringToken s # ts"
  "uint_field x name fs = Some (Inr u, ts) \<longleftrightarrow> fs = UintToken u # ts"
  "bool_field x name fs = Some (Inr b, ts) \<longleftrightarrow> fs = BoolToken b # ts"
  by (cases fs; cases "hd fs"; auto simp: field_defs next_token_def task_bind_def)+

lemma field_None [simp]:
  "key_field x name fs \<noteq> None" "string_field x name fs \<noteq> None"
  "uint_field x name fs \<noteq> None" "bool_field x name fs \<noteq> None"
  by (auto simp: field_defs task_bind_None_iff)

lemma status_byte_Inr [simp]:
  "status_byte w s = Some (Inr b, s') \<longleftrightarrow> w \<le> 255 \<and> b = ucast w \<and> s' = s"
proof -
  have "ucast (ucast w :: u64) = (ucast w :: u8)" by (rule bit_word_eqI) (auto simp: bit_simps)
  moreover have "unat (ucast w :: u64) = unat w" if "unat w < 2 ^ 64"
    using that by (simp add: unsigned_ucast_eq take_bit_nat_eq_self)
  moreover have "w \<le> 255 \<Longrightarrow> unat w < 256" by (simp add: word_le_nat_alt)
  ultimately show ?thesis
    by (auto simp: status_byte_def as_u64_def task_panic_def)
qed

lemma status_byte_None: "status_byte w s = None \<longleftrightarrow> 2 ^ 64 \<le> unat w"
  by (auto simp: status_byte_def as_u64_def task_defs)


text \<open>The token lists that decode, one per layout; a decoder that returns more tokens than it
  was asked for would have the rest ignored.\<close>

definition profile_tokens :: "relayer_profile \<Rightarrow> token list" where
  "profile_tokens p =
     [FixedBytesToken (rp_sphinx_key p), StringToken (rp_url p), StringToken (rp_ingress_url p),
      StringToken (rp_metadata_url p), UintToken (rp_staked_amount p),
      UintToken (rp_unstake_time p), BoolToken (rp_is_registered p)]
     @ (case rp_status p of
          None \<Rightarrow> [] | Some st \<Rightarrow> [UintToken (ucast st), BoolToken (rp_frozen p)])"

definition profile_ok :: "relayer_profile \<Rightarrow> bool" where
  "profile_ok p \<longleftrightarrow> length (rp_sphinx_key p) = 32 \<and>
     (case rp_layout p of
        Legacy7 \<Rightarrow> rp_status p = None \<and> \<not> rp_frozen p
      | Current9 \<Rightarrow> rp_status p \<noteq> None)"

lemma ucast_byte_word:
  "w \<le> 255 \<Longrightarrow> ucast (ucast w :: u8) = (w :: u256)"
proof -
  assume "w \<le> 255"
  then have "unat w < 2 ^ 8" by (simp add: word_le_nat_alt)
  then show "ucast (ucast w :: u8) = w"
    by (intro unsigned_word_eqI [where ?'a = nat]) (simp add: unsigned_ucast_eq unsigned_take_bit_eq take_bit_nat_eq_self)
qed

lemma ucast_word_byte: "ucast (ucast b :: u256) = (b :: u8)"
  by (rule bit_word_eqI) (auto simp: bit_simps)

lemma ucast_byte_le: "(ucast (b :: u8) :: u256) \<le> 255"
proof -
  have "unat b < 2 ^ LENGTH(8)" by (rule unsigned_less)
  then show ?thesis by (simp add: word_le_nat_alt unsigned_ucast_eq take_bit_nat_eq_self)
qed

lemma decode_fields_Inr:
  "decode_fields x layout toks = Some (Inr p, rest) \<longleftrightarrow>
     rp_layout p = layout \<and> profile_ok p \<and> toks = profile_tokens p @ rest"
proof (cases layout)
  case Legacy7
  then show ?thesis
    by (cases p) (auto simp: decode_fields_def task_bind_Inr_iff profile_ok_def profile_tokens_def)
next
  case Current9
  then show ?thesis
    by (cases p) (auto simp: decode_fields_def task_bind_Inr_iff profile_ok_def profile_tokens_def
        ucast_byte_word ucast_word_byte ucast_byte_le)
qed

lemma decode_fields_None:
  "decode_fields x layout toks = None \<longleftrightarrow>
     layout = Current9 \<and>
     (\<exists>k u i m st t r w rest. length k = 32 \<and> 2 ^ 64 \<le> unat w \<and>
        toks = [FixedBytesToken k, StringToken u, StringToken i, StringToken m, UintToken st,
                UintToken t, BoolToken r, UintToken w] @ rest)"
proof (cases layout)
  case Legacy7
  then show ?thesis
    by (auto simp: decode_fields_def task_bind_None_iff task_return_def)
next
  case Current9
  then show ?thesis
    by (auto simp: decode_fields_def task_bind_None_iff status_byte_None task_return_def)
qed

text \<open>The byte size of a layout's static head, which is where its first string starts.\<close>

definition head_bytes :: "profile_layout \<Rightarrow> nat" where
  "head_bytes layout = (case layout of Legacy7 \<Rightarrow> 224 | Current9 \<Rightarrow> 288)"

definition first_string_offset :: "bytes \<Rightarrow> u256" where
  "first_string_offset data = from_big_endian (take 32 (drop 32 data))"

lemma detect_layout_Inr:
  "detect_layout x data = Inr layout \<longleftrightarrow>
     64 \<le> length data \<and> first_string_offset data = of_nat (head_bytes layout)"
  by (cases layout) (auto simp: detect_layout_def first_string_offset_def head_bytes_def
      abi_word_def legacy_fields_def current_fields_def Let_def)

lemma decode_profile_Inr:
  "decode_relayer_profile x data = Some (Inr p) \<longleftrightarrow>
     detect_layout x data = Inr (rp_layout p) \<and> profile_ok p \<and>
     (\<exists>rest. x_abi_decode x (param_types (rp_layout p)) data = Inr (profile_tokens p @ rest))"
  by (auto simp: decode_relayer_profile_def decode_fields_Inr split: sum.splits)

section \<open>Properties\<close>

text \<open>
  C22: the layout of a profile is never misread. The decoder gives the profile \<open>p\<close> exactly when
  the return data is long enough, the offset of its first string is the head size of \<open>p\<close>'s own
  layout, and the ABI decoder, run with that layout's types, returns the tokens of \<open>p\<close>: 7 fields
  with no status and not frozen, or 9 fields with the status byte and the frozen flag they carry.
\<close>

theorem profile_layout_faithful:
  "decode_relayer_profile x data = Some (Inr p) \<longleftrightarrow>
     64 \<le> length data \<and> first_string_offset data = of_nat (head_bytes (rp_layout p)) \<and>
     length (rp_sphinx_key p) = 32 \<and>
     (rp_status p = None \<longleftrightarrow> rp_layout p = Legacy7) \<and> (rp_frozen p \<le> (rp_layout p = Current9)) \<and>
     (\<exists>rest. x_abi_decode x (param_types (rp_layout p)) data = Inr (profile_tokens p @ rest))"
  unfolding decode_profile_Inr detect_layout_Inr profile_ok_def
  by (cases "rp_layout p") auto

text \<open>
  C29: decoding stops the task instead of returning an error exactly when the data has the current
  layout, the seven first fields are well-formed and the status word does not fit a \<open>u64\<close>:
  \<open>as_u64\<close> panics before the range of the status is checked. Every other malformed answer
  is an error value.
\<close>

theorem profile_decode_panics_iff:
  "decode_relayer_profile x data = None \<longleftrightarrow>
     64 \<le> length data \<and> first_string_offset data = of_nat (head_bytes Current9) \<and>
     (\<exists>k u i m st t r w rest. length k = 32 \<and> 2 ^ 64 \<le> unat w \<and>
        x_abi_decode x (param_types Current9) data =
          Inr ([FixedBytesToken k, StringToken u, StringToken i, StringToken m, UintToken st,
                UintToken t, BoolToken r, UintToken w] @ rest))"
proof -
  have "decode_relayer_profile x data = None \<longleftrightarrow>
     detect_layout x data = Inr Current9 \<and>
     (\<exists>toks. x_abi_decode x (param_types Current9) data = Inr toks \<and>
        decode_fields x Current9 toks = None)"
  proof (cases "detect_layout x data")
    case (Inr layout)
    have "decode_fields x Legacy7 toks \<noteq> None" for toks by (simp add: decode_fields_None)
    with Inr show ?thesis
      by (cases layout; cases "x_abi_decode x (param_types layout) data")
        (auto simp: decode_relayer_profile_def)
  qed (simp add: decode_relayer_profile_def)
  then show ?thesis by (simp only: detect_layout_Inr decode_fields_None) blast
qed

end
