(* ===== verification/Targets.thy ===== *)
theory Targets
  imports External
begin

text \<open>
  Model of \<^verbatim>\<open>src/node/targets.rs\<close> (which addresses the indexer may contact) and of
  the multiaddr helpers of \<^verbatim>\<open>src/chain/mod.rs\<close> that turn a registered P2P address into the
  URL of the node's admin API. The standard library's reading and display of IP addresses is
  written out. The URL parser is a parameter.
\<close>

section \<open>IP addresses\<close>

text \<open>\<open>IpAddr\<close>: four octets, or eight segments.\<close>

datatype ip_addr = V4 u8 u8 u8 u8 | V6 "u16 list"

definition digit_of :: "nat \<Rightarrow> char \<Rightarrow> nat option" where
  "digit_of radix c =
     (let n = (of_char c :: nat);
          d = (if 48 \<le> n \<and> n \<le> 57 then Some (n - 48)
               else if 97 \<le> n \<and> n \<le> 102 then Some (n - 87)
               else if 65 \<le> n \<and> n \<le> 70 then Some (n - 55) else None)
      in case d of Some k \<Rightarrow> if k < radix then Some k else None | None \<Rightarrow> None)"

definition is_digit_in :: "nat \<Rightarrow> char \<Rightarrow> bool" where
  "is_digit_in radix c = (digit_of radix c \<noteq> None)"

definition number_of :: "nat \<Rightarrow> string \<Rightarrow> nat" where
  "number_of radix s =
     foldl (\<lambda>n c. radix * n + (case digit_of radix c of Some k \<Rightarrow> k | None \<Rightarrow> 0)) 0 s"

text \<open>\<open>read_number\<close>: the digits at the front of the input, at most \<open>max_digits\<close> of them,
  below \<open>bound\<close>, and with no leading zero unless that is allowed.\<close>

definition read_number :: "nat \<Rightarrow> nat \<Rightarrow> nat \<Rightarrow> bool \<Rightarrow> string \<Rightarrow> (nat \<times> string) option" where
  "read_number radix max_digits bound zeros s =
     (let ds = takeWhile (is_digit_in radix) s
      in if ds = [] \<or> max_digits < length ds \<or> \<not> zeros \<and> hd ds = CHR ''0'' \<and> 1 < length ds
            \<or> bound \<le> number_of radix ds
         then None else Some (number_of radix ds, drop (length ds) s))"

definition read_char :: "char \<Rightarrow> string \<Rightarrow> string option" where
  "read_char c s = (case s of [] \<Rightarrow> None | d # ds \<Rightarrow> if c = d then Some ds else None)"

text \<open>\<open>read_separator\<close>: the separator first, except before element 0.\<close>

definition read_separated :: "char \<Rightarrow> nat \<Rightarrow> string \<Rightarrow> string option" where
  "read_separated c i s = (if 0 < i then read_char c s else Some s)"

definition read_octet :: "nat \<Rightarrow> string \<Rightarrow> (u8 \<times> string) option" where
  "read_octet i s =
     (case read_separated CHR ''.'' i s of
        None \<Rightarrow> None
      | Some s1 \<Rightarrow>
          map_option (\<lambda>(n, r). (of_nat n, r)) (read_number 10 3 256 False s1))"

definition read_ipv4 :: "string \<Rightarrow> ((u8 \<times> u8 \<times> u8 \<times> u8) \<times> string) option" where
  "read_ipv4 s =
     (case read_octet 0 s of
        None \<Rightarrow> None
      | Some (a, s1) \<Rightarrow> (case read_octet 1 s1 of
        None \<Rightarrow> None
      | Some (b, s2) \<Rightarrow> (case read_octet 2 s2 of
        None \<Rightarrow> None
      | Some (c, s3) \<Rightarrow> (case read_octet 3 s3 of
        None \<Rightarrow> None
      | Some (d, s4) \<Rightarrow> Some ((a, b, c, d), s4)))))"

definition word_pair :: "u8 \<Rightarrow> u8 \<Rightarrow> u16" where
  "word_pair a b = 256 * ucast a + ucast b"

text \<open>
  \<open>read_groups\<close>: up to \<open>limit\<close> hexadecimal groups (\<open>i\<close> counts those read), an embedded IPv4
  address standing for two. Gives the groups, whether it ended in an IPv4 address, and the rest.
\<close>

function read_groups :: "nat \<Rightarrow> nat \<Rightarrow> string \<Rightarrow> u16 list \<times> bool \<times> string" where
  "read_groups limit i s =
     (if limit \<le> i then ([], False, s)
      else (case (if i + 1 < limit
                  then (case read_separated CHR '':'' i s of
                          None \<Rightarrow> None | Some s1 \<Rightarrow> read_ipv4 s1)
                  else None) of
              Some ((a, b, c, d), r) \<Rightarrow> ([word_pair a b, word_pair c d], True, r)
            | None \<Rightarrow>
                (case (case read_separated CHR '':'' i s of
                         None \<Rightarrow> None | Some s1 \<Rightarrow> read_number 16 4 65536 True s1) of
                   None \<Rightarrow> ([], False, s)
                 | Some (g, r) \<Rightarrow>
                     (case read_groups limit (i + 1) r of
                        (gs, v4, r') \<Rightarrow> (of_nat g # gs, v4, r')))))"
  by auto
termination by (relation "measure (\<lambda>(limit, i, s). limit - i)") auto

declare read_groups.simps [simp del]

definition read_ipv6 :: "string \<Rightarrow> (u16 list \<times> string) option" where
  "read_ipv6 s =
     (case read_groups 8 0 s of
        (head, head_v4, s1) \<Rightarrow>
          if length head = 8 then Some (head, s1)
          else if head_v4 then None
          else (case read_char CHR '':'' s1 of
                  None \<Rightarrow> None
                | Some s2 \<Rightarrow> (case read_char CHR '':'' s2 of
                  None \<Rightarrow> None
                | Some s3 \<Rightarrow>
                    (case read_groups (8 - (length head + 1)) 0 s3 of
                       (tail, _, s4) \<Rightarrow>
                         Some (head @ replicate (8 - (length head + length tail)) 0 @ tail, s4)))))"

text \<open>\<open>str::parse::<IpAddr>\<close>: the whole text must be read.\<close>

definition parse_ip :: "string \<Rightarrow> ip_addr option" where
  "parse_ip s =
     (case read_ipv4 s of
        Some ((a, b, c, d), r) \<Rightarrow> if r = [] then Some (V4 a b c d) else None
      | None \<Rightarrow>
          (case read_ipv6 s of
             Some (segs, r) \<Rightarrow> if r = [] then Some (V6 segs) else None
           | None \<Rightarrow> None))"

text \<open>Display.\<close>

definition show_v4 :: "u8 \<Rightarrow> u8 \<Rightarrow> u8 \<Rightarrow> u8 \<Rightarrow> string" where
  "show_v4 a b c d = nat_str (unat a) @ ''.'' @ nat_str (unat b) @ ''.'' @ nat_str (unat c)
     @ ''.'' @ nat_str (unat d)"

fun hex_str :: "nat \<Rightarrow> string" where
  "hex_str n = (if n < 16 then [hex_char n] else hex_str (n div 16) @ [hex_char (n mod 16)])"

declare hex_str.simps [simp del]

text \<open>The longest run of zero segments (the first of the longest), as start and length.\<close>

fun zero_run :: "u16 list \<Rightarrow> nat \<Rightarrow> nat \<times> nat \<Rightarrow> nat \<times> nat \<Rightarrow> nat \<times> nat" where
  "zero_run [] i cur best = best"
| "zero_run (s # ss) i (cs, cl) (bs, bl) =
     (if s = 0
      then let cur = (if cl = 0 then i else cs, cl + 1)
           in zero_run ss (i + 1) cur (if bl < snd cur then cur else (bs, bl))
      else zero_run ss (i + 1) (0, 0) (bs, bl))"

definition show_segments :: "u16 list \<Rightarrow> string" where
  "show_segments ss = join '':'' (map (\<lambda>s. hex_str (unat s)) ss)"

definition ipv4_mapped :: "u16 list \<Rightarrow> (u8 \<times> u8 \<times> u8 \<times> u8) option" where
  "ipv4_mapped s =
     (if take 6 s = [0, 0, 0, 0, 0, 0xffff]
      then Some (ucast (drop_bit 8 (s ! 6)), ucast (s ! 6), ucast (drop_bit 8 (s ! 7)), ucast (s ! 7))
      else None)"

definition show_v6 :: "u16 list \<Rightarrow> string" where
  "show_v6 s =
     (case ipv4_mapped s of
        Some (a, b, c, d) \<Rightarrow> ''::ffff:'' @ show_v4 a b c d
      | None \<Rightarrow>
          (case zero_run s 0 (0, 0) (0, 0) of
             (start, n) \<Rightarrow>
               if 1 < n then show_segments (take start s) @ ''::'' @ show_segments (drop (start + n) s)
               else show_segments s))"

text \<open>\<open>SocketAddr\<close>: an IPv6 host in brackets.\<close>

definition show_socket :: "ip_addr \<Rightarrow> u16 \<Rightarrow> string" where
  "show_socket ip port =
     (case ip of
        V4 a b c d \<Rightarrow> show_v4 a b c d @ '':'' @ nat_str (unat port)
      | V6 s \<Rightarrow> ''['' @ show_v6 s @ '']:'' @ nat_str (unat port))"

section \<open>Which addresses may be contacted\<close>

definition is_public_v4 :: "u8 \<Rightarrow> u8 \<Rightarrow> u8 \<Rightarrow> u8 \<Rightarrow> bool" where
  "is_public_v4 a b c d \<longleftrightarrow>
     \<not> ((a = 0 \<and> b = 0 \<and> c = 0 \<and> d = 0)
        \<or> a = 127
        \<or> (a = 10 \<or> (a = 172 \<and> 16 \<le> b \<and> b \<le> 31) \<or> (a = 192 \<and> b = 168))
        \<or> (a = 169 \<and> b = 254)
        \<or> (a = 255 \<and> b = 255 \<and> c = 255 \<and> d = 255)
        \<or> ((a = 192 \<and> b = 0 \<and> c = 2) \<or> (a = 198 \<and> b = 51 \<and> c = 100)
            \<or> (a = 203 \<and> b = 0 \<and> c = 113))
        \<or> (224 \<le> a \<and> a \<le> 239)
        \<or> a = 0
        \<or> (a = 100 \<and> (b AND 0xc0) = 64)
        \<or> (a = 192 \<and> b = 0 \<and> c = 0)
        \<or> (a = 198 \<and> (b AND 0xfe) = 18)
        \<or> 240 \<le> a)"

definition is_public_v6 :: "u16 list \<Rightarrow> bool" where
  "is_public_v6 s =
     (case ipv4_mapped s of
        Some (a, b, c, d) \<Rightarrow> is_public_v4 a b c d
      | None \<Rightarrow>
          (s ! 0 AND 0xe000) = 0x2000
          \<and> \<not> (s ! 0 = 0x2001 \<and> s ! 1 = 0x0db8)
          \<and> \<not> (s ! 0 = 0x2001 \<and> s ! 1 = 0x0000)
          \<and> s ! 0 \<noteq> 0x2002)"

definition is_public_ip :: "ip_addr \<Rightarrow> bool" where
  "is_public_ip ip = (case ip of V4 a b c d \<Rightarrow> is_public_v4 a b c d | V6 s \<Rightarrow> is_public_v6 s)"

definition ip_allowed_with :: "ip_addr \<Rightarrow> bool \<Rightarrow> bool" where
  "ip_allowed_with ip allow_private \<longleftrightarrow> allow_private \<or> is_public_ip ip"

definition trim_brackets :: "string \<Rightarrow> string" where
  "trim_brackets h =
     rev (dropWhile (\<lambda>c. c = CHR '']'') (rev (dropWhile (\<lambda>c. c = CHR ''['') h)))"

definition url_allowed_with :: "'z ext_scheme \<Rightarrow> string \<Rightarrow> bool \<Rightarrow> bool" where
  "url_allowed_with x url allow_private =
     (case x_url_parse x url of
        None \<Rightarrow> False
      | Some parsed \<Rightarrow>
          if url_scheme parsed \<noteq> ''http'' \<and> url_scheme parsed \<noteq> ''https'' then False
          else (case url_host parsed of
                  None \<Rightarrow> False
                | Some host \<Rightarrow>
                    if allow_private then True
                    else (case parse_ip (trim_brackets host) of
                            Some ip \<Rightarrow> is_public_ip ip | None \<Rightarrow> False)))"

section \<open>From a multiaddr to the admin URL\<close>

fun scan_multiaddr :: "string list \<Rightarrow> string option \<Rightarrow> u16 option \<Rightarrow> string option \<times> u16 option" where
  "scan_multiaddr [] ip port = (ip, port)"
| "scan_multiaddr [segment] ip port =
     (if segment = ''ip4'' \<or> segment = ''ip6'' then (None, port)
      else if segment = ''tcp'' then (ip, None) else (ip, port))"
| "scan_multiaddr (segment # s # rest) ip port =
     (if segment = ''ip4'' \<or> segment = ''ip6'' then scan_multiaddr rest (Some s) port
      else if segment = ''tcp'' then scan_multiaddr rest ip (parse_u16 s)
      else scan_multiaddr (s # rest) ip port)"

definition parse_multiaddr :: "string \<Rightarrow> (string \<times> u16) option" where
  "parse_multiaddr url =
     (case scan_multiaddr (split_on CHR ''/'' url) None None of
        (Some ip, Some port) \<Rightarrow> Some (ip, port)
      | _ \<Rightarrow> None)"

definition derive_admin_url_with :: "string \<Rightarrow> bool \<Rightarrow> string" where
  "derive_admin_url_with multiaddr allow_private =
     (case parse_multiaddr multiaddr of
        None \<Rightarrow> []
      | Some (ip_text, tcp_port) \<Rightarrow>
          (case parse_ip ip_text of
             None \<Rightarrow> []
           | Some ip \<Rightarrow>
               (case checked_add tcp_port 1 of
                  None \<Rightarrow> []
                | Some admin_port \<Rightarrow>
                    if \<not> ip_allowed_with ip allow_private then []
                    else ''http://'' @ show_socket ip admin_port)))"

section \<open>The filter against the special-purpose blocks\<close>

text \<open>An address as a number, and membership in a CIDR block.\<close>

definition v4_number :: "u8 \<Rightarrow> u8 \<Rightarrow> u8 \<Rightarrow> u8 \<Rightarrow> nat" where
  "v4_number a b c d = unat a * 16777216 + unat b * 65536 + unat c * 256 + unat d"

definition in_block :: "nat \<Rightarrow> (u8 \<times> u8 \<times> u8 \<times> u8) \<times> nat \<Rightarrow> bool" where
  "in_block n block =
     (case block of ((a, b, c, d), prefix) \<Rightarrow>
        n div 2 ^ (32 - prefix) = v4_number a b c d div 2 ^ (32 - prefix))"

text \<open>The IPv4 blocks that are not publicly routable unicast, by their assignments.\<close>

definition special_v4_blocks :: "((u8 \<times> u8 \<times> u8 \<times> u8) \<times> nat) list" where
  "special_v4_blocks =
     [((0, 0, 0, 0), 8), ((10, 0, 0, 0), 8), ((100, 64, 0, 0), 10), ((127, 0, 0, 0), 8),
      ((169, 254, 0, 0), 16), ((172, 16, 0, 0), 12), ((192, 0, 0, 0), 24), ((192, 0, 2, 0), 24),
      ((192, 168, 0, 0), 16), ((198, 18, 0, 0), 15), ((198, 51, 100, 0), 24),
      ((203, 0, 113, 0), 24), ((224, 0, 0, 0), 4), ((240, 0, 0, 0), 4)]"

lemma u8_bound [simp]: "unat (b :: u8) < 256"
proof -
  have "unat b < 2 ^ LENGTH(8)" by (rule unsigned_less)
  then show ?thesis by simp
qed

lemma v4_prefix:
  assumes "n = v4_number a b c d"
  shows "n div 16777216 = unat a"
    and "n div 65536 = unat a * 256 + unat b"
    and "n div 256 = unat a * 65536 + unat b * 256 + unat c"
    and "n div 268435456 = unat a div 16"
    and "n div 1048576 = unat a * 16 + unat b div 16"
    and "n div 4194304 = unat a * 4 + unat b div 64"
    and "n div 131072 = unat a * 128 + unat b div 2"
proof -
  note n = assms [unfolded v4_number_def]
  have b: "unat b < 256" and c: "unat c < 256" and d: "unat d < 256" by simp_all
  show 24: "n div 16777216 = unat a" using n b c d by linarith
  show 16: "n div 65536 = unat a * 256 + unat b" using n b c d by linarith
  show "n div 256 = unat a * 65536 + unat b * 256 + unat c" using n b c d by linarith
  have "n div 268435456 = n div 16777216 div 16" by (simp add: div_mult2_eq [symmetric])
  with 24 show "n div 268435456 = unat a div 16" by simp
  have "n div 1048576 = n div 65536 div 16" by (simp add: div_mult2_eq [symmetric])
  with 16 show "n div 1048576 = unat a * 16 + unat b div 16" by simp
  have "n div 4194304 = n div 65536 div 64" by (simp add: div_mult2_eq [symmetric])
  with 16 show "n div 4194304 = unat a * 4 + unat b div 64" by simp
  have "n div 131072 = n div 65536 div 2" by (simp add: div_mult2_eq [symmetric])
  with 16 show "n div 131072 = unat a * 128 + unat b div 2" by simp
qed

lemma octet_masks:
  "(b AND 0xc0) = (64 :: u8) \<longleftrightarrow> unat b div 64 = 1"
  "(b AND 0xfe) = (18 :: u8) \<longleftrightarrow> unat b div 2 = 9"
proof -
  have masked: "unat (b AND NOT (mask n)) = unat b div 2 ^ n * 2 ^ n" for n
  proof -
    have "unat (drop_bit n b) = unat b div 2 ^ n"
      by (simp only: unsigned_drop_bit_eq) (simp add: drop_bit_eq_div take_bit_nat_eq_self)
    then have d: "drop_bit n b = of_nat (unat b div 2 ^ n)" by (metis of_nat_unat ucast_id)
    have "b AND NOT (mask n) = push_bit n (drop_bit n b)"
      by (rule bit_word_eqI) (auto simp: bit_simps)
    then have eq: "b AND NOT (mask n) = of_nat (unat b div 2 ^ n * 2 ^ n)"
      by (simp add: push_bit_eq_mult d)
    have "unat b div 2 ^ n * 2 ^ n \<le> unat b" by (rule div_times_less_eq_dividend)
    then have "unat b div 2 ^ n * 2 ^ n < 256" using u8_bound [of b] by linarith
    then show ?thesis unfolding eq by (simp only: unsigned_of_nat) (simp add: take_bit_nat_eq_self)
  qed
  have m: "(0xc0 :: u8) = NOT (mask 6)" "(0xfe :: u8) = NOT (mask 1)"
    by (simp_all add: mask_eq_exp_minus_1)
  have c0: "unat (b AND 0xc0) = unat b div 64 * 64" and fe: "unat (b AND 0xfe) = unat b div 2 * 2"
    unfolding m masked by simp_all
  show "(b AND 0xc0) = (64 :: u8) \<longleftrightarrow> unat b div 64 = 1"
    by (simp only: word_unat_eq_iff c0) simp
  show "(b AND 0xfe) = (18 :: u8) \<longleftrightarrow> unat b div 2 = 9"
    by (simp only: word_unat_eq_iff fe) simp
qed

lemma u8_eq_iff: "(b :: u8) = of_nat k \<longleftrightarrow> unat b = k mod 256"
  by (auto simp: unsigned_of_nat take_bit_eq_mod word_unat_eq_iff)

lemma disj_nat_step:
  "240 \<le> A \<or> 224 \<le> A \<and> A \<le> 239 \<longleftrightarrow> 224 \<le> (A :: nat)"
  by linarith

lemma two_digits:
  assumes "B < r" and "L < r"
  shows "A * r + B = K * r + L \<longleftrightarrow> A = K \<and> B = (L :: nat)"
proof
  assume eq: "A * r + B = K * r + L"
  have "(A * r + B) div r = A" "(K * r + L) div r = K" using assms by simp_all
  with eq have "A = K" by metis
  with eq show "A = K \<and> B = L" by simp
qed simp

lemma three_digits:
  assumes "B < 256" and "C < 256" and "L < 256" and "J < 256"
  shows "A * 65536 + B * 256 + C = K * 65536 + L * 256 + J \<longleftrightarrow> A = K \<and> B = L \<and> C = (J :: nat)"
  using two_digits [OF assms(2,4), of "A * 256 + B" "K * 256 + L"] two_digits [OF assms(1,3), of A K]
  by (simp add: algebra_simps)

lemma in_special_block:
  assumes "n = v4_number a b c d"
  shows "list_ex (in_block n) special_v4_blocks \<longleftrightarrow>
     unat a = 0 \<or> unat a = 10 \<or> unat a * 4 + unat b div 64 = 401 \<or> unat a = 127 \<or>
     unat a * 256 + unat b = 43518 \<or> unat a * 16 + unat b div 16 = 2753 \<or>
     unat a * 65536 + unat b * 256 + unat c = 12582912 \<or>
     unat a * 65536 + unat b * 256 + unat c = 12582914 \<or>
     unat a * 256 + unat b = 49320 \<or> unat a * 128 + unat b div 2 = 25353 \<or>
     unat a * 65536 + unat b * 256 + unat c = 12989284 \<or>
     unat a * 65536 + unat b * 256 + unat c = 13303921 \<or>
     unat a div 16 = 14 \<or> unat a div 16 = 15"
  by (simp add: special_v4_blocks_def in_block_def v4_number_def [of _ _ 0 0]
      v4_number_def [of _ _ 2 0] v4_number_def [of _ _ 100 0] v4_number_def [of _ _ 113 0]
      v4_prefix [OF assms])

text \<open>
  C25: outside a local testnet the indexer contacts an IPv4 address exactly when it lies in none
  of the special-purpose blocks: this network, private, shared, loopback, link-local, protocol
  assignments, documentation, benchmarking, multicast and reserved.
\<close>

theorem public_v4_outside_special_blocks:
  "ip_allowed_with (V4 a b c d) False \<longleftrightarrow>
     \<not> list_ex (in_block (v4_number a b c d)) special_v4_blocks"
proof -
  let ?a = "unat a" and ?b = "unat b" and ?c = "unat c"
  have lt: "?a < 256" "?b < 256" "?c < 256" by simp_all
  have public: "is_public_v4 a b c d \<longleftrightarrow>
     \<not> (?a = 0 \<or> ?a = 127 \<or> ?a = 10 \<or> (?a = 172 \<and> 16 \<le> ?b \<and> ?b \<le> 31) \<or> (?a = 192 \<and> ?b = 168)
        \<or> (?a = 169 \<and> ?b = 254) \<or> (?a = 192 \<and> ?b = 0 \<and> ?c = 2) \<or> (?a = 198 \<and> ?b = 51 \<and> ?c = 100)
        \<or> (?a = 203 \<and> ?b = 0 \<and> ?c = 113) \<or> 224 \<le> ?a \<or> (?a = 100 \<and> ?b div 64 = 1)
        \<or> (?a = 192 \<and> ?b = 0 \<and> ?c = 0) \<or> (?a = 198 \<and> ?b div 2 = 9))"
  proof -
    have eq: "a = k \<longleftrightarrow> ?a = unat k" "b = k \<longleftrightarrow> ?b = unat k" "c = k \<longleftrightarrow> ?c = unat k" for k
      by (simp_all add: word_unat_eq_iff)
    have le: "k \<le> a \<longleftrightarrow> unat k \<le> ?a" "a \<le> k \<longleftrightarrow> ?a \<le> unat k"
        "k \<le> b \<longleftrightarrow> unat k \<le> ?b" "b \<le> k \<longleftrightarrow> ?b \<le> unat k" for k
      by (simp_all add: word_le_nat_alt)
    have num: "unat (0 :: u8) = 0" "unat (2 :: u8) = 2" "unat (10 :: u8) = 10"
      "unat (16 :: u8) = 16" "unat (31 :: u8) = 31" "unat (51 :: u8) = 51" "unat (100 :: u8) = 100"
      "unat (113 :: u8) = 113" "unat (127 :: u8) = 127" "unat (168 :: u8) = 168"
      "unat (169 :: u8) = 169" "unat (172 :: u8) = 172" "unat (192 :: u8) = 192"
      "unat (198 :: u8) = 198" "unat (203 :: u8) = 203" "unat (224 :: u8) = 224"
      "unat (239 :: u8) = 239" "unat (240 :: u8) = 240" "unat (254 :: u8) = 254"
      "unat (255 :: u8) = 255"
      by simp_all
    have cover: "?a = 255 \<Longrightarrow> 224 \<le> ?a" by simp
    show ?thesis
      unfolding is_public_v4_def octet_masks eq le num
      using disj_nat_step [of ?a] cover by argo
  qed
  have split: "?a * 4 + ?b div 64 = 401 \<longleftrightarrow> ?a = 100 \<and> ?b div 64 = 1"
    "?a * 16 + ?b div 16 = 2753 \<longleftrightarrow> ?a = 172 \<and> ?b div 16 = 1"
    "?a * 128 + ?b div 2 = 25353 \<longleftrightarrow> ?a = 198 \<and> ?b div 2 = 9"
    "?a * 256 + ?b = 43518 \<longleftrightarrow> ?a = 169 \<and> ?b = 254"
    "?a * 256 + ?b = 49320 \<longleftrightarrow> ?a = 192 \<and> ?b = 168"
    using lt two_digits [of "?b div 64" 4 1 ?a 100] two_digits [of "?b div 16" 16 1 ?a 172]
      two_digits [of "?b div 2" 128 9 ?a 198] two_digits [of ?b 256 254 ?a 169]
      two_digits [of ?b 256 168 ?a 192]
    by (simp_all add: less_mult_imp_div_less)
  have split3: "?a * 65536 + ?b * 256 + ?c = 12582912 \<longleftrightarrow> ?a = 192 \<and> ?b = 0 \<and> ?c = 0"
    "?a * 65536 + ?b * 256 + ?c = 12582914 \<longleftrightarrow> ?a = 192 \<and> ?b = 0 \<and> ?c = 2"
    "?a * 65536 + ?b * 256 + ?c = 12989284 \<longleftrightarrow> ?a = 198 \<and> ?b = 51 \<and> ?c = 100"
    "?a * 65536 + ?b * 256 + ?c = 13303921 \<longleftrightarrow> ?a = 203 \<and> ?b = 0 \<and> ?c = 113"
    using lt three_digits [of ?b ?c 0 0 ?a 192] three_digits [of ?b ?c 0 2 ?a 192]
      three_digits [of ?b ?c 51 100 ?a 198] three_digits [of ?b ?c 0 113 ?a 203]
    by simp_all
  have ranges: "?b div 16 = 1 \<longleftrightarrow> 16 \<le> ?b \<and> ?b \<le> 31"
    "?a div 16 = 14 \<or> ?a div 16 = 15 \<longleftrightarrow> 224 \<le> ?a"
    using lt by (simp_all, linarith+)
  show ?thesis
    unfolding ip_allowed_with_def is_public_ip_def ip_addr.case in_special_block [OF refl] public
      split split3 ranges by blast
qed

section \<open>Reading back what was printed\<close>

lemma split_on_absent: "d \<notin> set s \<Longrightarrow> split_on d s = [s]"
  by (induction s) auto

lemma split_on_append: "d \<notin> set s \<Longrightarrow> split_on d (s @ d # t) = s # split_on d t"
  by (induction s) auto

lemma digit_of_10: "digit_of 10 c = (if is_digit c then Some (of_char c - 48) else None)"
  by (auto simp: digit_of_def is_digit_def Let_def)

lemma is_digit_in_10 [simp]: "is_digit_in 10 c = is_digit c"
  by (simp add: is_digit_in_def digit_of_10)

lemma number_of_10: "list_all is_digit s \<Longrightarrow> number_of 10 s = digits_val s"
proof -
  have "list_all is_digit s \<Longrightarrow>
      foldl (\<lambda>n c. 10 * n + (case digit_of 10 c of Some k \<Rightarrow> k | None \<Rightarrow> 0)) n s =
      foldl (\<lambda>n c. 10 * n + (of_char c - 48)) n s" for n
    by (induction s arbitrary: n) (auto simp: digit_of_10)
  then show "list_all is_digit s \<Longrightarrow> number_of 10 s = digits_val s"
    by (simp add: number_of_def digits_val_def)
qed

lemma takeWhile_digits:
  "list_all is_digit s \<Longrightarrow> (rest = [] \<or> \<not> is_digit (hd rest)) \<Longrightarrow>
     takeWhile is_digit (s @ rest) = s"
  by (induction s) (auto simp: takeWhile_eq_Nil_iff)

lemma nat_str_octet:
  assumes "n < 256"
  shows "length (nat_str n) \<le> 3" and "hd (nat_str n) = CHR ''0'' \<Longrightarrow> length (nat_str n) \<le> 1"
proof -
  have z: "char_of (48 + k) = CHR ''0'' \<longleftrightarrow> k mod 256 = 0" if "k < 10" for k :: nat
  proof
    assume "char_of (48 + k) = CHR ''0''"
    then have "(of_char (char_of (48 + k) :: char) :: nat) = 48" by simp
    with that show "k mod 256 = 0" by simp
  next
    assume "k mod 256 = 0"
    with that have "k = 0" by simp
    moreover have "char_of (48 :: nat) = CHR ''0''" by code_simp
    ultimately show "char_of (48 + k) = CHR ''0''" by simp
  qed
  consider "n < 10" | "10 \<le> n" "n < 100" | "100 \<le> n" "n div 100 < 10" using assms by linarith
  then have "length (nat_str n) \<le> 3 \<and> (hd (nat_str n) = CHR ''0'' \<longrightarrow> length (nat_str n) \<le> 1)"
  proof cases
    case 1
    then show ?thesis by (simp add: nat_str.simps [of n])
  next
    case 2
    then have "n div 10 < 10" "0 < n div 10" by linarith+
    with 2 z [of "n div 10"] show ?thesis
      by (simp add: nat_str.simps [of n] nat_str.simps [of "n div 10"])
  next
    case 3
    then have d: "n div 10 div 10 < 10" "0 < n div 10 div 10" "\<not> n div 10 < 10" by linarith+
    with 3 z [of "n div 10 div 10"] show ?thesis
      by (simp add: nat_str.simps [of n] nat_str.simps [of "n div 10"]
          nat_str.simps [of "n div 10 div 10"])
  qed
  then show "length (nat_str n) \<le> 3" and "hd (nat_str n) = CHR ''0'' \<Longrightarrow> length (nat_str n) \<le> 1"
    by auto
qed

lemma read_number_nat_str:
  assumes "n < 256" and "rest = [] \<or> \<not> is_digit (hd rest)"
  shows "read_number 10 3 256 False (nat_str n @ rest) = Some (n, rest)"
proof -
  have d: "list_all is_digit (nat_str n)" "nat_str n \<noteq> []" using nat_str_digits by blast+
  have t: "takeWhile is_digit (nat_str n @ rest) = nat_str n" by (rule takeWhile_digits [OF d(1) assms(2)])
  have fe: "is_digit_in 10 = is_digit" by (rule ext) simp
  show ?thesis
    using d nat_str_octet [OF assms(1)] assms(1)
    by (auto simp: read_number_def Let_def fe t number_of_10 digits_val_nat_str)
qed

lemma read_ipv4_show:
  assumes "rest = [] \<or> \<not> is_digit (hd rest)"
  shows "read_ipv4 (show_v4 a b c d @ rest) = Some ((a, b, c, d), rest)"
proof -
  have dot: "\<not> is_digit CHR ''.''" by (simp add: is_digit_def)
  have r: "read_number 10 3 256 False (nat_str (unat v) @ s) = Some (unat v, s)"
    if "s = [] \<or> \<not> is_digit (hd s)" for v :: u8 and s
    using that by (intro read_number_nat_str) simp_all
  show ?thesis
    using assms dot
    by (simp add: read_ipv4_def show_v4_def read_octet_def read_separated_def read_char_def r)
qed

lemma parse_ip_show: "parse_ip (show_v4 a b c d) = Some (V4 a b c d)"
  using read_ipv4_show [of "[]" a b c d] by (simp add: parse_ip_def)

lemma not_in_nat_str: "\<not> is_digit ch \<Longrightarrow> ch \<notin> set (nat_str n)"
  using nat_str_digits [of n] by (auto simp: list_all_iff)

text \<open>
  C28: the admin URL of a node registered at an IPv4 multiaddr is \<^verbatim>\<open>http://<ip>:<tcp port + 1>\<close>,
  character for character, when that address may be contacted, and empty otherwise, for every
  address and every port below the last one.
\<close>

theorem admin_url_of_multiaddr:
  fixes port :: u16
  assumes "unat port < 65535"
  shows "derive_admin_url_with
      (''/ip4/'' @ show_v4 a b c d @ ''/tcp/'' @ nat_str (unat port)) allow_private =
    (if ip_allowed_with (V4 a b c d) allow_private
     then ''http://'' @ show_v4 a b c d @ '':'' @ nat_str (unat port + 1) else [])"
proof -
  let ?ip = "show_v4 a b c d" and ?p = "nat_str (unat port)"
  have slash: "\<not> is_digit CHR ''/''" by (simp add: is_digit_def)
  have ip: "CHR ''/'' \<notin> set ?ip" using not_in_nat_str [OF slash] by (simp add: show_v4_def)
  have p: "CHR ''/'' \<notin> set ?p" by (rule not_in_nat_str [OF slash])
  have "split_on CHR ''/'' (''/ip4/'' @ ?ip @ ''/tcp/'' @ ?p) =
      [[], ''ip4'', ?ip, ''tcp'', ?p]"
    using split_on_append [OF ip] split_on_absent [OF p] by simp
  moreover have "parse_u16 ?p = Some port"
    using assms by (simp add: parse_u16_def parse_unsigned_nat_str)
  ultimately have parts: "parse_multiaddr (''/ip4/'' @ ?ip @ ''/tcp/'' @ ?p) = Some (?ip, port)"
    by (simp add: parse_multiaddr_def)
  have add: "checked_add port 1 = Some (port + 1)" using assms by (simp add: checked_add_def)
  then have "unat (port + 1) = unat port + 1" using checked_add_Some by fastforce
  then show ?thesis
    by (simp only: derive_admin_url_with_def parts add parse_ip_show option.case prod.case)
      (simp add: show_socket_def)
qed

theorem admin_url_of_multiaddr_witness:
  "derive_admin_url_with (''/ip4/'' @ show_v4 8 8 4 4 @ ''/tcp/'' @ nat_str (unat (9000 :: u16))) False =
   ''http://'' @ show_v4 8 8 4 4 @ '':'' @ nat_str 9001"
proof -
  have "ip_allowed_with (V4 8 8 4 4) False"
    by (simp add: ip_allowed_with_def is_public_ip_def is_public_v4_def word_le_nat_alt)
  with admin_url_of_multiaddr [of 9000 8 8 4 4 False] show ?thesis by simp
qed

end
