(* ===== verification/Node.thy ===== *)
theory Node
  imports Targets
begin

text \<open>
  The node data of \<^verbatim>\<open>src/state.rs\<close>, \<^verbatim>\<open>src/chain/mod.rs\<close> and
  \<^verbatim>\<open>src/db.rs\<close>: what is read on chain, what the indexer keeps in memory, the database row,
  and the conversions between them.
\<close>

section \<open>Layers and status\<close>

text \<open>The first byte of a digest.\<close>

definition first_byte :: "u256 \<Rightarrow> u8" where
  "first_byte h = ucast (drop_bit 248 h)"

definition primary_layer_for_role :: "'z ext_scheme \<Rightarrow> u8 \<Rightarrow> string \<Rightarrow> u8" where
  "primary_layer_for_role x role addr =
     (if role = 2 then 2
      else let hash = first_byte (x_sha256 x (to_lowercase addr))
           in if role = 1 then hash mod 2 else hash mod 3)"

datatype node_status = Online | Offline | Deregistered

definition status_str :: "node_status \<Rightarrow> string" where
  "status_str s = (case s of Online \<Rightarrow> ''online'' | Offline \<Rightarrow> ''offline''
                   | Deregistered \<Rightarrow> ''deregistered'')"

definition status_from_str :: "string \<Rightarrow> node_status" where
  "status_from_str s =
     (if s = ''online'' then Online
      else if s = ''offline'' then Offline
      else if s = ''deregistered'' then Deregistered
      else Offline)"

lemma status_roundtrip [simp]: "status_from_str (status_str s) = s"
  by (cases s) (simp_all add: status_from_str_def status_str_def)

lemma status_str_eq_iff [simp]: "status_str s = status_str t \<longleftrightarrow> s = t"
  by (metis status_roundtrip)

section \<open>Nodes\<close>

text \<open>Coordinates are copied, never computed with.\<close>

type_synonym coordinate = real

record on_chain_node =
  oc_address :: string
  oc_url :: string
  oc_ingress_url :: string
  oc_metadata_url :: string
  oc_sphinx_key :: string
  oc_role :: u8
  oc_frozen :: bool

record pinned_node =
  pn_address :: string
  pn_sphinx_key :: string
  pn_url :: string
  pn_stake :: string
  pn_is_privileged :: bool
  pn_layer :: u8
  pn_role :: u8
  pn_ingress_url :: string
  pn_metadata_url :: string
  pn_frozen :: bool

record node_state =
  ns_id :: string
  ns_address :: string
  ns_admin_port :: u16
  ns_ingress_port :: u16
  ns_p2p_addr :: string
  ns_sphinx_key :: string
  ns_admin_url :: string
  ns_ingress_url :: string
  ns_metadata_url :: string
  ns_status :: node_status
  ns_role :: u8
  ns_layer :: u8
  ns_latitude :: coordinate
  ns_longitude :: coordinate
  ns_frozen :: bool
  ns_registry_address :: string
  ns_chain_id :: u64

text \<open>A row of the table \<open>nodes\<close>. Integer columns are \<open>int\<close>; the conversions truncate.\<close>

record node_row =
  nr_address :: string
  nr_id :: string
  nr_admin_port :: int
  nr_ingress_port :: int
  nr_p2p_addr :: string
  nr_sphinx_key :: string
  nr_admin_url :: string
  nr_ingress_url :: string
  nr_metadata_url :: string
  nr_status :: string
  nr_role :: int
  nr_layer :: int
  nr_latitude :: coordinate
  nr_longitude :: coordinate
  nr_frozen :: bool
  nr_registry_address :: string
  nr_chain_id :: i64

text \<open>\<open>u64::try_from(x).unwrap_or_default()\<close>.\<close>

definition u64_or_zero :: "i64 \<Rightarrow> u64" where
  "u64_or_zero i = (case u64_of_i64 i of Some n \<Rightarrow> n | None \<Rightarrow> 0)"

text \<open>\<open>allow\<close> is the process-wide switch for private targets.\<close>

definition node_of_row :: "'z ext_scheme \<Rightarrow> bool \<Rightarrow> node_row \<Rightarrow> node_state" where
  "node_of_row x allow row =
     \<lparr>ns_id = nr_id row, ns_address = nr_address row,
      ns_admin_port = word_of_int (nr_admin_port row),
      ns_ingress_port = word_of_int (nr_ingress_port row),
      ns_p2p_addr = nr_p2p_addr row, ns_sphinx_key = nr_sphinx_key row,
      ns_admin_url = (if nr_admin_url row = [] then derive_admin_url_with (nr_p2p_addr row) allow
                      else nr_admin_url row),
      ns_ingress_url = nr_ingress_url row, ns_metadata_url = nr_metadata_url row,
      ns_status = status_from_str (nr_status row), ns_role = word_of_int (nr_role row),
      ns_layer = primary_layer_for_role x (word_of_int (nr_role row)) (nr_address row),
      ns_latitude = nr_latitude row, ns_longitude = nr_longitude row, ns_frozen = nr_frozen row,
      ns_registry_address = nr_registry_address row, ns_chain_id = u64_or_zero (nr_chain_id row)\<rparr>"

text \<open>The values \<open>upsert_node\<close> binds.\<close>

definition row_of_node :: "node_state \<Rightarrow> node_row" where
  "row_of_node n =
     \<lparr>nr_address = ns_address n, nr_id = ns_id n, nr_admin_port = uint (ns_admin_port n),
      nr_ingress_port = uint (ns_ingress_port n), nr_p2p_addr = ns_p2p_addr n,
      nr_sphinx_key = ns_sphinx_key n, nr_admin_url = ns_admin_url n,
      nr_ingress_url = ns_ingress_url n, nr_metadata_url = ns_metadata_url n,
      nr_status = status_str (ns_status n), nr_role = uint (ns_role n), nr_layer = uint (ns_layer n),
      nr_latitude = ns_latitude n, nr_longitude = ns_longitude n, nr_frozen = ns_frozen n,
      nr_registry_address = ns_registry_address n, nr_chain_id = i64_of_u64 (ns_chain_id n)\<rparr>"

definition checked_port :: "u16 option \<Rightarrow> u16 \<Rightarrow> u16" where
  "checked_port p k =
     (case p of
        None \<Rightarrow> 0
      | Some port \<Rightarrow> (case checked_add port k of Some q \<Rightarrow> q | None \<Rightarrow> 0))"

text \<open>\<open>&address[2..10]\<close> of a hexadecimal address (one byte per character).\<close>

definition from_chain_info :: "'z ext_scheme \<Rightarrow> bool \<Rightarrow> on_chain_node \<Rightarrow> u64 \<Rightarrow> string \<Rightarrow> node_state" where
  "from_chain_info x allow info chain_id registry =
     (let parsed = parse_multiaddr (oc_url info);
          port = map_option snd parsed
      in \<lparr>ns_id = (if 10 \<le> length (oc_address info)
                   then ''nox-'' @ take 8 (drop 2 (oc_address info))
                   else ''nox-'' @ oc_address info),
          ns_address = to_lowercase (oc_address info),
          ns_admin_port = checked_port port 1, ns_ingress_port = checked_port port 2,
          ns_p2p_addr = oc_url info, ns_sphinx_key = oc_sphinx_key info,
          ns_admin_url = derive_admin_url_with (oc_url info) allow,
          ns_ingress_url = oc_ingress_url info, ns_metadata_url = oc_metadata_url info,
          ns_status = Offline, ns_role = oc_role info,
          ns_layer = primary_layer_for_role x (oc_role info) (oc_address info),
          ns_latitude = 0, ns_longitude = 0, ns_frozen = oc_frozen info,
          ns_registry_address = to_lowercase registry, ns_chain_id = chain_id\<rparr>)"

text \<open>\<open>apply_geo\<close>; the GeoIP reader's lookup is a parameter.\<close>

definition apply_geo ::
  "(string \<Rightarrow> (coordinate \<times> coordinate) option) option \<Rightarrow> node_state \<Rightarrow> node_state" where
  "apply_geo geo n =
     (case geo of
        None \<Rightarrow> n
      | Some lookup \<Rightarrow>
          (case parse_multiaddr (ns_p2p_addr n) of
             None \<Rightarrow> n
           | Some (ip, _) \<Rightarrow>
               (case lookup ip of
                  None \<Rightarrow> n
                | Some (lat, lon) \<Rightarrow> n\<lparr>ns_latitude := lat, ns_longitude := lon\<rparr>)))"

lemma apply_geo_simps [simp]:
  "ns_address (apply_geo geo n) = ns_address n" "ns_status (apply_geo geo n) = ns_status n"
  "ns_registry_address (apply_geo geo n) = ns_registry_address n"
  "ns_chain_id (apply_geo geo n) = ns_chain_id n" "ns_role (apply_geo geo n) = ns_role n"
  "ns_layer (apply_geo geo n) = ns_layer n" "ns_admin_url (apply_geo geo n) = ns_admin_url n"
  "ns_p2p_addr (apply_geo geo n) = ns_p2p_addr n" "ns_frozen (apply_geo geo n) = ns_frozen n"
  "ns_ingress_url (apply_geo geo n) = ns_ingress_url n"
  "ns_metadata_url (apply_geo geo n) = ns_metadata_url n"
  by (auto simp: apply_geo_def split: option.splits)

section \<open>A stored node is read back unchanged\<close>

lemma primary_layer_lower [simp]:
  "primary_layer_for_role x role (to_lowercase a) = primary_layer_for_role x role a"
  by (simp add: primary_layer_for_role_def)

definition node_ok :: "'z ext_scheme \<Rightarrow> bool \<Rightarrow> node_state \<Rightarrow> bool" where
  "node_ok x allow n \<longleftrightarrow>
     ns_layer n = primary_layer_for_role x (ns_role n) (ns_address n) \<and>
     (ns_admin_url n = [] \<longrightarrow> derive_admin_url_with (ns_p2p_addr n) allow = []) \<and>
     uint (ns_chain_id n) \<le> i64_max"

lemma row_roundtrip: "node_ok x allow n \<Longrightarrow> node_of_row x allow (row_of_node n) = n"
  by (cases n) (simp add: node_ok_def node_of_row_def row_of_node_def u64_or_zero_def
      u64_of_i64_of_u64)

lemma from_chain_info_ok:
  "uint chain_id \<le> i64_max \<Longrightarrow>
     node_ok x allow (apply_geo geo (from_chain_info x allow info chain_id registry))"
  by (simp add: node_ok_def from_chain_info_def Let_def)

text \<open>
  C27: a node read from the registry, located, and written to the database is the node that is
  served after a restart: the row written for it converts back to the same in-memory node (ports,
  role, layer, status, admin URL, registry and chain included), for every chain id that fits the
  column.
\<close>

theorem stored_node_survives_restart:
  assumes "uint chain_id \<le> i64_max"
  shows "node_of_row x allow (row_of_node
      (apply_geo geo (from_chain_info x allow info chain_id registry)\<lparr>ns_status := st\<rparr>)) =
    apply_geo geo (from_chain_info x allow info chain_id registry)\<lparr>ns_status := st\<rparr>"
proof -
  let ?n = "apply_geo geo (from_chain_info x allow info chain_id registry)"
  have "node_ok x allow (?n\<lparr>ns_status := st\<rparr>)"
    using from_chain_info_ok [OF assms, of x allow geo info registry] by (simp add: node_ok_def)
  then show ?thesis by (rule row_roundtrip)
qed

definition example_info :: on_chain_node where
  "example_info =
     \<lparr>oc_address = ''0x00000000000000000000000000000000000000aa'', oc_url = ''/ip4/8.8.8.8/tcp/9000'',
      oc_ingress_url = [], oc_metadata_url = [], oc_sphinx_key = [], oc_role = 2, oc_frozen = False\<rparr>"

theorem stored_node_survives_restart_witness:
  "node_of_row example_ext False (row_of_node
      (apply_geo None (from_chain_info example_ext False example_info 421614 ''0xab'')
         \<lparr>ns_status := Online\<rparr>)) =
    apply_geo None (from_chain_info example_ext False example_info 421614 ''0xab'')
      \<lparr>ns_status := Online\<rparr>"
  by (rule stored_node_survives_restart) (simp add: i64_max_def)

text \<open>
  The layer of a member is the one its role allows: relays sit on layers 0 and 1, exits on
  layer 2, full nodes on any of the three, and the case of the address text does not matter.
\<close>

theorem layer_matches_role:
  "primary_layer_for_role x role addr < 3 \<and>
   (role = 1 \<longrightarrow> primary_layer_for_role x role addr < 2) \<and>
   (role = 2 \<longrightarrow> primary_layer_for_role x role addr = 2) \<and>
   primary_layer_for_role x role (to_lowercase addr) = primary_layer_for_role x role addr"
proof -
  have "h mod 2 < (2 :: u8)" and "h mod 3 < (3 :: u8)" for h :: u8
    by (simp_all add: word_less_nat_alt unat_mod)
  moreover from this(1) have "h mod 2 < (3 :: u8)" for h :: u8
    by (rule less_trans) simp
  ultimately show ?thesis by (simp add: primary_layer_for_role_def Let_def)
qed

theorem layer_matches_role_witness:
  "primary_layer_for_role example_ext 1 ''0xAA'' < 2"
  using layer_matches_role [of example_ext 1 "''0xAA''"] by blast

end
