(* ===== verification/Chain.thy ===== *)
theory Chain
  imports Retry Profile Node "HOL-Library.Multiset"
begin

text \<open>
  Model of \<^verbatim>\<open>src/chain/mod.rs\<close>: the registry client. The endpoints, the clock and the
  shutdown signal are functions from the world to an answer and the new world, in a record that
  extends the library functions; the client's own state (adaptive chunk, cached chain id,
  transport indices, jitter counter) is a record threaded through every call.
\<close>

section \<open>Logs, configuration, environment and state\<close>

record log =
  lg_address :: address
  lg_topics :: "u256 list"
  lg_data :: bytes
  lg_block_number :: "u64 option"
  lg_log_index :: "u256 option"
  lg_tx_hash :: "u256 option"
  lg_removed :: "bool option"

text \<open>A log filter without its block range: contract addresses and accepted first topics.\<close>

record log_filter =
  lf_addresses :: "address list"
  lf_topic0 :: "u256 list"

record chain_config =
  cc_endpoints :: "endpoint list"
  cc_registry_address :: address
  cc_registry_hex :: string
  cc_poll_interval :: duration
  cc_from_block :: u64
  cc_confirmations :: u64
  cc_expected_chain_id :: "u64 option"

record 'w env = ext +
  e_get_logs :: "log_filter \<times> u64 \<times> u64 \<Rightarrow> nat \<Rightarrow> 'w \<Rightarrow> log list outcome \<times> 'w"
  e_block_number :: "unit \<Rightarrow> nat \<Rightarrow> 'w \<Rightarrow> u64 outcome \<times> 'w"
  e_chain_id :: "unit \<Rightarrow> nat \<Rightarrow> 'w \<Rightarrow> u256 outcome \<times> 'w"
  e_call :: "address \<times> bytes \<times> u64 option \<Rightarrow> nat \<Rightarrow> 'w \<Rightarrow> bytes outcome \<times> 'w"
  e_get_block :: "u64 \<Rightarrow> nat \<Rightarrow> 'w \<Rightarrow> u256 option outcome \<times> 'w"
  e_nanos :: "'w \<Rightarrow> u64 \<times> 'w"
  e_pause :: "duration \<Rightarrow> 'w \<Rightarrow> bool \<times> 'w"

record 'w net =
  n_chunk :: adaptive_chunk
  n_chain_id :: u64
  n_transport :: transport
  n_jitter :: u64
  n_world :: 'w

definition max_chunk_attempts :: nat where
  "max_chunk_attempts = 8"

definition chunk_backoff_base :: duration where
  "chunk_backoff_base = from_millis 500"

definition chunk_backoff_cap :: duration where
  "chunk_backoff_cap = from_secs 30"

definition max_call_attempts :: nat where
  "max_call_attempts = 5"

definition head_check_window :: u64 where
  "head_check_window = 100000"

record log_chunk_config =
  lc_initial :: u64
  lc_min :: u64
  lc_max :: u64

text \<open>\<open>ChainConfig::new\<close>: the configuration and the client's initial state.\<close>

definition chain_config_new ::
  "'z ext_scheme \<Rightarrow> string list \<Rightarrow> string \<Rightarrow> u64 \<Rightarrow> u64 \<Rightarrow> u64 \<Rightarrow> u64 option \<Rightarrow> log_chunk_config \<Rightarrow>
   'w \<Rightarrow> (chain_config \<times> 'w net) res" where
  "chain_config_new x urls registry_hex poll_secs from_block confirmations expected chunk w =
     (case failover_new (x_http_parse x) (x_url_parse x) urls of
        Inl e \<Rightarrow> Inl e
      | Inr (eps, t) \<Rightarrow>
          (case x_addr_parse x registry_hex of
             Inl e \<Rightarrow> Inl (''Invalid registry address '' @ squote @ registry_hex @ squote @ '': '' @ e)
           | Inr registry \<Rightarrow>
               Inr (\<lparr>cc_endpoints = eps, cc_registry_address = registry,
                     cc_registry_hex = to_lowercase (x_addr_text x registry),
                     cc_poll_interval = from_secs (unat poll_secs), cc_from_block = from_block,
                     cc_confirmations = confirmations, cc_expected_chain_id = expected\<rparr>,
                    \<lparr>n_chunk = chunk_new (lc_initial chunk) (lc_min chunk) (lc_max chunk),
                     n_chain_id = 0, n_transport = t, n_jitter = 0x9E3779B97F4A7C15, n_world = w\<rparr>)))"

section \<open>Membership events\<close>

datatype chain_node_event =
    Registered address
  | ProfileChanged address
  | Removed address
  | Unstaked address u256

text \<open>The new set and whether it changed.\<close>

definition apply_membership_event :: "chain_node_event \<Rightarrow> address set \<Rightarrow> address set \<times> bool" where
  "apply_membership_event event members =
     (case event of
        Registered a \<Rightarrow> (insert a members, a \<notin> members)
      | Removed a \<Rightarrow> (members - {a}, a \<in> members)
      | Unstaked a _ \<Rightarrow> (members - {a}, a \<in> members)
      | ProfileChanged a \<Rightarrow> (members, False))"

text \<open>The event names in the order they are tried, with what each stands for.\<close>

definition event_decoders :: "(string \<times> (address \<Rightarrow> u256 \<Rightarrow> chain_node_event)) list" where
  "event_decoders =
     [(''RelayerRegistered'', \<lambda>a _. Registered a),
      (''PrivilegedRelayerRegistered'', \<lambda>a _. Registered a),
      (''RelayerRemoved'', \<lambda>a _. Removed a),
      (''RelayerUpdated'', \<lambda>a _. ProfileChanged a),
      (''IngressUrlUpdated'', \<lambda>a _. ProfileChanged a),
      (''MetadataUrlUpdated'', \<lambda>a _. ProfileChanged a),
      (''KeyRotated'', \<lambda>a _. ProfileChanged a),
      (''RoleUpdated'', \<lambda>a _. ProfileChanged a),
      (''RelayerFrozen'', \<lambda>a _. ProfileChanged a),
      (''RelayerUnfrozen'', \<lambda>a _. ProfileChanged a),
      (''Unstaked'', \<lambda>a n. Unstaked a n)]"

definition decode_log :: "'z ext_scheme \<Rightarrow> chain_config \<Rightarrow> log \<Rightarrow> chain_node_event option" where
  "decode_log x cfg lg =
     (if lg_address lg \<noteq> cc_registry_address cfg then None
      else find_map (\<lambda>(name, mk).
             map_option (\<lambda>(a, n). mk a n) (x_decode_event x name (lg_topics lg) (lg_data lg)))
           event_decoders)"

section \<open>Requests\<close>

definition rpc_request ::
  "chain_config \<Rightarrow> string \<Rightarrow> ('p \<Rightarrow> nat \<Rightarrow> 'w \<Rightarrow> 'v outcome \<times> 'w) \<Rightarrow> 'p \<Rightarrow> (failover_error \<Rightarrow> string) \<Rightarrow>
   (('w, 'z) net_scheme, 'v) task" where
  "rpc_request cfg meth call p show_error s =
     (case request (cc_endpoints cfg) meth (Inr p) call (n_transport s) (n_world s) of
        (r, t, w) \<Rightarrow>
          Some (case r of Inl e \<Rightarrow> Inl (show_error e) | Inr v \<Rightarrow> Inr v,
                s\<lparr>n_transport := t, n_world := w\<rparr>))"

text \<open>The jittered delay before the next attempt; the result says that shutdown came first.\<close>

definition backoff_pause ::
  "('w, 'e) env_scheme \<Rightarrow> nat \<Rightarrow> duration \<Rightarrow> duration \<Rightarrow> (('w, 'z) net_scheme, bool) task" where
  "backoff_pause env attempt base cap s =
     (case e_nanos env (n_world s) of
        (nanos, w1) \<Rightarrow>
          (case jittered_backoff (of_nat attempt) base cap (n_jitter s) nanos of
             (None, _) \<Rightarrow> None
           | (Some delay, jitter) \<Rightarrow>
               (case e_pause env delay w1 of
                  (stop, w2) \<Rightarrow> Some (Inr stop, s\<lparr>n_jitter := jitter, n_world := w2\<rparr>))))"

function retry_rpc_from ::
  "('w, 'e) env_scheme \<Rightarrow> string \<Rightarrow> nat \<Rightarrow> (('w, 'z) net_scheme, 'a) task \<Rightarrow> nat \<Rightarrow>
   (('w, 'z) net_scheme, 'a) task" where
  "retry_rpc_from env what max_attempts operation attempt s =
     task_try operation (\<lambda>r. case r of
         Inr v \<Rightarrow> task_return v
       | Inl e \<Rightarrow>
           if max_attempts \<le> attempt + 1
           then task_fail (what @ '' failed after '' @ nat_str (attempt + 1) @ '' attempts: '' @ e)
           else task_bind (backoff_pause env (attempt + 1) chunk_backoff_base chunk_backoff_cap)
                  (\<lambda>stop. if stop then task_fail (what @ '': shutting down'')
                          else retry_rpc_from env what max_attempts operation (attempt + 1))) s"
  by auto
termination by (relation "measure (\<lambda>(env, what, max_attempts, operation, attempt, s).
  max_attempts - attempt)") auto

declare retry_rpc_from.simps [simp del]

definition retry_rpc_attempts ::
  "('w, 'e) env_scheme \<Rightarrow> string \<Rightarrow> nat \<Rightarrow> (('w, 'z) net_scheme, 'a) task \<Rightarrow>
   (('w, 'z) net_scheme, 'a) task" where
  "retry_rpc_attempts env what max_attempts operation =
     retry_rpc_from env what max_attempts operation 0"

definition retry_rpc ::
  "('w, 'e) env_scheme \<Rightarrow> string \<Rightarrow> (('w, 'z) net_scheme, 'a) task \<Rightarrow>
   (('w, 'z) net_scheme, 'a) task" where
  "retry_rpc env what operation = retry_rpc_attempts env what max_call_attempts operation"

section \<open>Fetching logs\<close>

definition get_logs ::
  "('w, 'e) env_scheme \<Rightarrow> chain_config \<Rightarrow> log_filter \<Rightarrow> u64 \<Rightarrow> u64 \<Rightarrow>
   (('w, 'z) net_scheme, log list) task" where
  "get_logs env cfg base from till =
     rpc_request cfg ''eth_getLogs'' (e_get_logs env) (base, from, till) (x_provider_error env)"

definition check_logs_endpoint_head ::
  "('w, 'e) env_scheme \<Rightarrow> chain_config \<Rightarrow> u64 \<Rightarrow> u64 \<Rightarrow> (('w, 'z) net_scheme, unit) task" where
  "check_logs_endpoint_head env cfg till to s =
     (if head_check_window \<le> sat_sub to till then Some (Inr (), s)
      else let index = logs_served_by (n_transport s)
           in (case block_number_on (cc_endpoints cfg) (e_block_number env ()) index (n_world s) of
                 (Inl e, w) \<Rightarrow> Some (Inl e, s\<lparr>n_world := w\<rparr>)
               | (Inr head, w) \<Rightarrow>
                   if till \<le> head then Some (Inr (), s\<lparr>n_world := w\<rparr>)
                   else Some (Inl (label (cc_endpoints cfg) index @ '' is behind: its head ''
                                @ u64_str head @ '' is below requested log end '' @ u64_str till
                                @ ''; discarding the possibly truncated result''),
                              s\<lparr>n_world := w,
                                n_transport := demote (cc_endpoints cfg) index (n_transport s)\<rparr>)))"

text \<open>The last block one attempt covers, and the attempt itself.\<close>

definition window_end :: "('w, 'z) net_scheme \<Rightarrow> u64 \<Rightarrow> u64 \<Rightarrow> u64" where
  "window_end s from to = min (sat_add from (sat_sub (chunk_size (n_chunk s)) 1)) to"

definition fetch_attempt ::
  "('w, 'e) env_scheme \<Rightarrow> chain_config \<Rightarrow> log_filter \<Rightarrow> u64 \<Rightarrow> u64 \<Rightarrow> u64 \<Rightarrow>
   (('w, 'z) net_scheme, log list \<times> u64) task" where
  "fetch_attempt env cfg base from till to =
     task_bind (get_logs env cfg base from till) (\<lambda>logs.
     task_bind (check_logs_endpoint_head env cfg till to) (\<lambda>_.
     task_bind (task_modify (\<lambda>s. s\<lparr>n_chunk := on_success (n_chunk s)\<rparr>)) (\<lambda>_.
     task_return (logs, till))))"

text \<open>What a failed attempt tells the sizer; true means a smaller range is tried at once.\<close>

definition note_failure ::
  "u64 \<Rightarrow> string \<Rightarrow> ('w, 'z) net_scheme \<Rightarrow> bool \<times> ('w, 'z) net_scheme" where
  "note_failure requested e s =
     (case classify_rpc_error e of
        RangeTooLarge hint \<Rightarrow>
          (let c = on_range_error requested hint (n_chunk s)
           in (chunk_size c < requested, s\<lparr>n_chunk := c\<rparr>))
      | RateLimited \<Rightarrow> (False, s\<lparr>n_chunk := on_rate_limited (n_chunk s)\<rparr>)
      | Transient \<Rightarrow> (False, s))"

partial_function (option) fetch_from ::
  "('w, 'e) env_scheme \<Rightarrow> chain_config \<Rightarrow> log_filter \<Rightarrow> u64 \<Rightarrow> u64 \<Rightarrow> nat \<Rightarrow>
   ('w, 'z) net_scheme \<Rightarrow> ((log list \<times> u64) res \<times> ('w, 'z) net_scheme) option" where
  "fetch_from env cfg base from to attempt s =
     task_try (fetch_attempt env cfg base from (window_end s from to) to) (\<lambda>r s1.
       case r of
         Inr logs_end \<Rightarrow> Some (Inr logs_end, s1)
       | Inl e \<Rightarrow>
           (case note_failure (window_end s from to - from + 1) e s1 of
             (shrunk, s2) \<Rightarrow>
               if shrunk then fetch_from env cfg base from to attempt s2
               else if max_chunk_attempts \<le> attempt + 1
               then Some (Inl (''eth_getLogs '' @ u64_str from @ ''..''
                            @ u64_str (window_end s from to) @ '' failed after ''
                            @ nat_str (attempt + 1) @ '' attempts: '' @ e), s2)
               else task_bind
                      (backoff_pause env (attempt + 1) chunk_backoff_base chunk_backoff_cap)
                      (\<lambda>stop s3. if stop then Some (Inl ''eth_getLogs: shutting down'', s3)
                                 else fetch_from env cfg base from to (attempt + 1) s3) s2)) s"

definition fetch_filtered_logs_chunk ::
  "('w, 'e) env_scheme \<Rightarrow> chain_config \<Rightarrow> log_filter \<Rightarrow> u64 \<Rightarrow> u64 \<Rightarrow>
   (('w, 'z) net_scheme, log list \<times> u64) task" where
  "fetch_filtered_logs_chunk env cfg base from to = fetch_from env cfg base from to 0"

definition fetch_logs_chunk ::
  "('w, 'e) env_scheme \<Rightarrow> chain_config \<Rightarrow> u64 \<Rightarrow> u64 \<Rightarrow>
   (('w, 'z) net_scheme, log list \<times> u64) task" where
  "fetch_logs_chunk env cfg from to =
     fetch_filtered_logs_chunk env cfg
       \<lparr>lf_addresses = [cc_registry_address cfg], lf_topic0 = []\<rparr> from to"

section \<open>What every request keeps\<close>

definition net_ok :: "chain_config \<Rightarrow> ('w, 'z) net_scheme \<Rightarrow> bool" where
  "net_ok cfg s \<longleftrightarrow> chunk_ok (n_chunk s) \<and> transport_ok (cc_endpoints cfg) (n_transport s)"

text \<open>
  \<open>frame\<close>: the rest of the state is untouched and the client's invariant is kept;
  \<open>quiet\<close>: besides, the sizer and the cached chain id are untouched.
\<close>

definition frame :: "chain_config \<Rightarrow> ('w, 'z) net_scheme \<Rightarrow> ('w, 'z) net_scheme \<Rightarrow> bool" where
  "frame cfg s s' \<longleftrightarrow> net.more s' = net.more s \<and> (net_ok cfg s \<longrightarrow> net_ok cfg s')"

definition quiet :: "chain_config \<Rightarrow> ('w, 'z) net_scheme \<Rightarrow> ('w, 'z) net_scheme \<Rightarrow> bool" where
  "quiet cfg s s' \<longleftrightarrow> frame cfg s s' \<and> n_chunk s' = n_chunk s \<and> n_chain_id s' = n_chain_id s"

lemma frame_refl [simp]: "reflp (frame cfg)" and frame_trans [simp]: "transp (frame cfg)"
  by (auto simp: frame_def reflp_def transp_def)

lemma quiet_refl [simp]: "reflp (quiet cfg)" and quiet_trans [simp]: "transp (quiet cfg)"
  by (auto simp: quiet_def frame_def reflp_def transp_def)

lemma quiet_frame: "quiet cfg s s' \<Longrightarrow> frame cfg s s'"
  by (simp add: quiet_def)

lemma keeps_weaken: "keeps R m \<Longrightarrow> (\<And>s s'. R s s' \<Longrightarrow> Q s s') \<Longrightarrow> keeps Q m"
  by (auto simp: keeps_def)

lemma rpc_request_quiet: "keeps (quiet cfg) (rpc_request cfg meth call p show_error)"
proof (rule keepsI)
  fix s r s'
  assume run: "rpc_request cfg meth call p show_error s = Some (r, s')"
  obtain r0 t w where req: "request (cc_endpoints cfg) meth (Inr p) call (n_transport s) (n_world s) = (r0, t, w)"
    by (cases "request (cc_endpoints cfg) meth (Inr p) call (n_transport s) (n_world s)")
  with run have s': "s' = s\<lparr>n_transport := t, n_world := w\<rparr>" by (simp add: rpc_request_def)
  have "transport_ok (cc_endpoints cfg) (n_transport s) \<Longrightarrow> transport_ok (cc_endpoints cfg) t"
    by (rule request_transport_ok [OF _ req])
  with s' show "quiet cfg s s'" by (auto simp: quiet_def frame_def net_ok_def)
qed

lemma rpc_request_Some: "\<exists>r s'. rpc_request cfg meth call p show_error s = Some (r, s')"
  by (simp add: rpc_request_def split: prod.splits)

lemma backoff_pause_quiet: "keeps (quiet cfg) (backoff_pause env attempt base cap)"
  by (rule keepsI) (auto simp: backoff_pause_def quiet_def frame_def net_ok_def
      split: prod.splits option.splits)

lemma backoff_pause_Some:
  assumes "as_millis (cap div 2) < 2 ^ 64 - 1"
  shows "\<exists>b s'. backoff_pause env attempt base cap s = Some (Inr b, s')"
proof -
  obtain nanos w1 where n: "e_nanos env (n_world s) = (nanos, w1)" by (cases "e_nanos env (n_world s)")
  obtain ent j where e: "next_entropy (n_jitter s) nanos = (ent, j)" by (cases "next_entropy (n_jitter s) nanos")
  obtain d where d: "backoff_delay (of_nat attempt) base cap ent = Some d"
    using backoff_delay_window [OF assms] by blast
  obtain b w2 where "e_pause env d w1 = (b, w2)" by (cases "e_pause env d w1")
  with n e d show ?thesis by (simp add: backoff_pause_def jittered_backoff_def)
qed

lemma chunk_cap_small: "as_millis (chunk_backoff_cap div 2) < 2 ^ 64 - 1"
  by (simp add: as_millis_def chunk_backoff_cap_def from_secs_def)

text \<open>Retrying returns whenever the operation does, and keeps what it keeps.\<close>

lemma retry_rpc_from_keeps:
  assumes "transp R" and "keeps R operation"
    and pause: "\<And>n b c. keeps R (backoff_pause env n b c)" and "reflp R"
  shows "keeps R (retry_rpc_from env what max_attempts operation attempt)"
proof (induction "max_attempts - attempt" arbitrary: attempt rule: less_induct)
  case less
  have step: "retry_rpc_from env what max_attempts operation attempt =
      task_try operation (\<lambda>r. case r of
         Inr v \<Rightarrow> task_return v
       | Inl e \<Rightarrow>
           if max_attempts \<le> attempt + 1
           then task_fail (what @ '' failed after '' @ nat_str (attempt + 1) @ '' attempts: '' @ e)
           else task_bind (backoff_pause env (attempt + 1) chunk_backoff_base chunk_backoff_cap)
                  (\<lambda>stop. if stop then task_fail (what @ '': shutting down'')
                          else retry_rpc_from env what max_attempts operation (attempt + 1)))"
    by (rule ext) (rule retry_rpc_from.simps)
  have rec: "\<not> max_attempts \<le> attempt + 1 \<Longrightarrow>
      keeps R (retry_rpc_from env what max_attempts operation (attempt + 1))"
    by (rule less) simp
  have "keeps R (case r of
         Inr v \<Rightarrow> task_return v
       | Inl e \<Rightarrow>
           if max_attempts \<le> attempt + 1
           then task_fail (what @ '' failed after '' @ nat_str (attempt + 1) @ '' attempts: '' @ e)
           else task_bind (backoff_pause env (attempt + 1) chunk_backoff_base chunk_backoff_cap)
                  (\<lambda>stop. if stop then task_fail (what @ '': shutting down'')
                          else retry_rpc_from env what max_attempts operation (attempt + 1)))" for r
    using rec keeps_pure [OF assms(4)] pause
    by (cases r) (auto intro!: keeps_bind [OF assms(1)])
  then show ?case unfolding step by (intro keeps_try [OF assms(1,2)])
qed

lemma retry_rpc_from_Some:
  assumes "\<And>s. \<exists>r s'. operation s = Some (r, s')"
  shows "\<exists>r s'. retry_rpc_from env what max_attempts operation attempt s = Some (r, s')"
proof (induction "max_attempts - attempt" arbitrary: attempt s rule: less_induct)
  case less
  obtain r s1 where op: "operation s = Some (r, s1)" using assms by blast
  show ?case
  proof (cases r)
    case (Inr v)
    with op show ?thesis by (simp add: retry_rpc_from.simps task_try_def task_return_def)
  next
    case (Inl e)
    obtain b s2 where p: "backoff_pause env (attempt + 1) chunk_backoff_base chunk_backoff_cap s1
        = Some (Inr b, s2)"
      using backoff_pause_Some [OF chunk_cap_small] by blast
    have "\<not> max_attempts \<le> attempt + 1 \<Longrightarrow>
        \<exists>r s'. retry_rpc_from env what max_attempts operation (attempt + 1) s2 = Some (r, s')"
      by (rule less) simp
    with Inl op p show ?thesis
      by (cases "max_attempts \<le> attempt + 1"; cases b)
        (simp_all add: retry_rpc_from.simps [of _ _ _ _ attempt] task_defs)
  qed
qed

section \<open>What a fetch guarantees\<close>

definition head_announced :: "('w, 'e) env_scheme \<Rightarrow> nat \<Rightarrow> u64 \<Rightarrow> bool" where
  "head_announced env i head \<longleftrightarrow> (\<exists>w. fst (e_block_number env () i w) = Served head)"

text \<open>
  Logs that may be acted on: one endpoint gave them for exactly that range and, when the range
  ends close to the target, the same endpoint announced a head at or above its end.
\<close>

definition logs_trusted ::
  "('w, 'e) env_scheme \<Rightarrow> log_filter \<Rightarrow> u64 \<Rightarrow> u64 \<Rightarrow> log list \<Rightarrow> u64 \<Rightarrow> bool" where
  "logs_trusted env base from to logs till \<longleftrightarrow>
     (\<exists>i. endpoint_gave (e_get_logs env) i (base, from, till) logs \<and>
          (unat to - unat till < 100000 \<longrightarrow> (\<exists>head. head_announced env i head \<and> till \<le> head)))"

lemma get_logs_gave:
  assumes "transport_ok (cc_endpoints cfg) (n_transport s)"
    and "get_logs env cfg base from till s = Some (Inr logs, s1)"
  shows "endpoint_gave (e_get_logs env) (logs_served_by (n_transport s1)) (base, from, till) logs"
proof -
  obtain r t w where req: "request (cc_endpoints cfg) ''eth_getLogs'' (Inr (base, from, till))
      (e_get_logs env) (n_transport s) (n_world s) = (r, t, w)"
    by (cases "request (cc_endpoints cfg) ''eth_getLogs'' (Inr (base, from, till))
      (e_get_logs env) (n_transport s) (n_world s)")
  with assms(2) have "r = Inr logs" and "n_transport s1 = t"
    by (auto simp: get_logs_def rpc_request_def split: sum.splits)
  with logs.fetched_from_valid_source [OF assms(1)] req show ?thesis by metis
qed

lemma check_head_quiet: "keeps (quiet cfg) (check_logs_endpoint_head env cfg till to)"
  by (rule keepsI) (auto simp: check_logs_endpoint_head_def quiet_def frame_def net_ok_def Let_def
      intro: demote_transport_ok split: if_splits prod.splits sum.splits)

lemma check_head_Some: "\<exists>r s'. check_logs_endpoint_head env cfg till to s = Some (r, s')"
  by (auto simp: check_logs_endpoint_head_def Let_def split: prod.splits sum.splits)

lemma block_number_announced:
  "block_number_on eps (e_block_number env ()) i w = (Inr head, w') \<Longrightarrow> head_announced env i head"
  by (auto simp: block_number_on_def head_announced_def split: if_splits prod.splits outcome.splits)
    (metis fst_conv)

lemma check_head_passed:
  assumes "check_logs_endpoint_head env cfg till to s = Some (Inr (), s1)"
  shows "unat to - unat till < 100000 \<Longrightarrow>
    \<exists>head. head_announced env (logs_served_by (n_transport s)) head \<and> till \<le> head"
  using assms
  by (auto simp: check_logs_endpoint_head_def head_check_window_def Let_def rust_arith
      word_le_nat_alt dest!: block_number_announced split: if_splits prod.splits sum.splits)

lemma get_logs_Some: "\<exists>r s'. get_logs env cfg base from till s = Some (r, s')"
  by (simp add: get_logs_def rpc_request_def split: prod.splits)

lemma fetch_attempt_Some: "\<exists>r s'. fetch_attempt env cfg base from till to s = Some (r, s')"
proof -
  obtain r s1 where g: "get_logs env cfg base from till s = Some (r, s1)"
    using get_logs_Some by blast
  obtain r2 s2 where c: "check_logs_endpoint_head env cfg till to s1 = Some (r2, s2)"
    using check_head_Some by blast
  from g c show ?thesis
    by (cases r; cases r2) (simp_all add: fetch_attempt_def task_defs)
qed

lemma get_logs_quiet: "keeps (quiet cfg) (get_logs env cfg base from till)"
  unfolding get_logs_def by (rule rpc_request_quiet)

lemma fetch_attempt_Inr:
  assumes "fetch_attempt env cfg base from till to s = Some (Inr res, s')" and "net_ok cfg s"
  shows "frame cfg s s' \<and> n_chain_id s' = n_chain_id s \<and>
    (\<exists>logs. res = (logs, till) \<and> logs_trusted env base from to logs till)"
proof -
  from assms(1) obtain logs s1 s2 where g: "get_logs env cfg base from till s = Some (Inr logs, s1)"
    and c: "check_logs_endpoint_head env cfg till to s1 = Some (Inr (), s2)"
    and s': "s' = s2\<lparr>n_chunk := on_success (n_chunk s2)\<rparr>" and res: "res = (logs, till)"
    by (auto simp: fetch_attempt_def task_bind_Inr_iff)
  have q1: "quiet cfg s s1" using keepsD [OF get_logs_quiet g] .
  have q2: "quiet cfg s1 s2" using keepsD [OF check_head_quiet c] .
  have "frame cfg s s2 \<and> n_chain_id s2 = n_chain_id s" using q1 q2 by (auto simp: quiet_def frame_def)
  then have "frame cfg s s' \<and> n_chain_id s' = n_chain_id s"
    by (auto simp: s' frame_def net_ok_def intro: chunk.ok_succeeded)
  moreover have "endpoint_gave (e_get_logs env) (logs_served_by (n_transport s1)) (base, from, till) logs"
    using get_logs_gave [OF _ g] assms(2) by (simp add: net_ok_def)
  ultimately show ?thesis
    using res check_head_passed [OF c] unfolding logs_trusted_def by blast
qed

lemma fetch_attempt_Inl:
  assumes "fetch_attempt env cfg base from till to s = Some (Inl e, s')"
  shows "quiet cfg s s'"
proof -
  from assms consider "get_logs env cfg base from till s = Some (Inl e, s')"
    | logs s1 where "get_logs env cfg base from till s = Some (Inr logs, s1)"
        "check_logs_endpoint_head env cfg till to s1 = Some (Inl e, s')"
    by (auto simp: fetch_attempt_def task_bind_Inl_iff)
  then show ?thesis
  proof cases
    case 1
    then show ?thesis by (rule keepsD [OF get_logs_quiet])
  next
    case 2
    then show ?thesis
      using keepsD [OF get_logs_quiet] keepsD [OF check_head_quiet] transpD [OF quiet_trans] by metis
  qed
qed

lemma note_failure_ok:
  assumes "note_failure requested e s = (shrunk, s')" and "chunk_ok (n_chunk s)"
    and "requested \<le> chunk_size (n_chunk s)"
  shows "frame cfg s s'" and "n_chain_id s' = n_chain_id s"
    and "shrunk \<Longrightarrow> unat (chunk_size (n_chunk s')) < unat (chunk_size (n_chunk s))"
proof -
  show "frame cfg s s'"
    using assms by (auto simp: note_failure_def frame_def net_ok_def Let_def
        intro: chunk.ok_rejected chunk.ok_throttled split: rpc_error_kind.splits)
  show "n_chain_id s' = n_chain_id s"
    using assms(1) by (auto simp: note_failure_def Let_def split: rpc_error_kind.splits)
  show "unat (chunk_size (n_chunk s')) < unat (chunk_size (n_chunk s))" if shrunk
    using assms that chunk.immediate_retry_shrinks
    by (auto simp: note_failure_def Let_def split: rpc_error_kind.splits)
qed

lemma window_in_range:
  assumes "chunk_ok (n_chunk s)" and "from \<le> to"
  shows "from \<le> window_end s from to" and "window_end s from to \<le> to"
    and "window_end s from to - from + 1 \<le> chunk_size (n_chunk s)"
  using chunk.window_bounds [OF assms, of "window_end s from to"]
  by (simp_all add: window_end_def)

definition fetch_result_ok ::
  "('w, 'e) env_scheme \<Rightarrow> chain_config \<Rightarrow> log_filter \<Rightarrow> u64 \<Rightarrow> u64 \<Rightarrow> ('w, 'z) net_scheme \<Rightarrow>
   (log list \<times> u64) res \<Rightarrow> ('w, 'z) net_scheme \<Rightarrow> bool" where
  "fetch_result_ok env cfg base from to s r s' \<longleftrightarrow>
     frame cfg s s' \<and> n_chain_id s' = n_chain_id s \<and>
     (case r of
        Inl _ \<Rightarrow> True
      | Inr (logs, till) \<Rightarrow> from \<le> till \<and> till \<le> to \<and> logs_trusted env base from to logs till)"

lemma fetch_result_ok_trans:
  "frame cfg s s1 \<Longrightarrow> n_chain_id s1 = n_chain_id s \<Longrightarrow> fetch_result_ok env cfg base from to s1 r s' \<Longrightarrow>
     fetch_result_ok env cfg base from to s r s'"
  by (auto simp: fetch_result_ok_def frame_def)

lemma frame_net_ok: "frame cfg s s' \<Longrightarrow> net_ok cfg s \<Longrightarrow> net_ok cfg s'"
  by (simp add: frame_def)

lemma next_attempt_less:
  "a + 1 < m \<Longrightarrow> x < (2 :: nat) ^ 64 \<Longrightarrow> (m - (a + 1)) * 2 ^ 64 + x < (m - a) * 2 ^ 64 + y"
proof -
  assume "a + 1 < m" and x: "x < (2 :: nat) ^ 64"
  then have "m - a = Suc (m - (a + 1))" by simp
  then have "(m - a) * 2 ^ 64 = (m - (a + 1)) * 2 ^ 64 + 2 ^ 64" by simp
  with x show ?thesis by linarith
qed

lemma fetch_from_failed:
  assumes "fetch_attempt env cfg base from (window_end s from to) to s = Some (Inl e, s1)"
    and "note_failure (window_end s from to - from + 1) e s1 = (shrunk, s2)"
  shows "fetch_from env cfg base from to attempt s =
    (if shrunk then fetch_from env cfg base from to attempt s2
     else if max_chunk_attempts \<le> attempt + 1
     then Some (Inl (''eth_getLogs '' @ u64_str from @ ''..'' @ u64_str (window_end s from to)
                  @ '' failed after '' @ nat_str (attempt + 1) @ '' attempts: '' @ e), s2)
     else task_bind (backoff_pause env (attempt + 1) chunk_backoff_base chunk_backoff_cap)
            (\<lambda>stop s3. if stop then Some (Inl ''eth_getLogs: shutting down'', s3)
                       else fetch_from env cfg base from to (attempt + 1) s3) s2)"
  by (subst fetch_from.simps) (simp add: task_try_def assms)

lemma fetch_from_returns:
  assumes "net_ok cfg s" and "from \<le> to"
  shows "\<exists>r s'. fetch_from env cfg base from to attempt s = Some (r, s') \<and>
    fetch_result_ok env cfg base from to s r s'"
  using assms(1)
proof (induction "(max_chunk_attempts - attempt) * 2 ^ 64 + unat (chunk_size (n_chunk s))"
    arbitrary: attempt s rule: less_induct)
  case less
  let ?till = "window_end s from to"
  let ?req = "?till - from + 1"
  have ok: "chunk_ok (n_chunk s)" using less.prems by (simp add: net_ok_def)
  note win = window_in_range [OF ok assms(2)]
  obtain r s1 where a: "fetch_attempt env cfg base from ?till to s = Some (r, s1)"
    using fetch_attempt_Some by blast
  show ?case
  proof (cases r)
    case (Inr res)
    with a fetch_attempt_Inr less.prems win have "fetch_result_ok env cfg base from to s r s1"
      unfolding fetch_result_ok_def by fastforce
    with a Inr show ?thesis
      by (subst fetch_from.simps) (simp add: task_try_def)
  next
    case (Inl e)
    have q: "quiet cfg s s1" using fetch_attempt_Inl a Inl by blast
    obtain shrunk s2 where n: "note_failure ?req e s1 = (shrunk, s2)" by (cases "note_failure ?req e s1")
    have c1: "n_chunk s1 = n_chunk s" and i1: "n_chain_id s1 = n_chain_id s" and f1: "frame cfg s s1"
      using q by (simp_all add: quiet_def)
    note nf = note_failure_ok [OF n, unfolded c1, OF ok win(3)]
    have f2: "frame cfg s s2" by (rule transpD [OF frame_trans f1 nf(1)])
    have i2: "n_chain_id s2 = n_chain_id s" using i1 nf(2) by simp
    have ok2: "net_ok cfg s2" using frame_net_ok [OF f2 less.prems] .
    note body = fetch_from_failed [OF a [unfolded Inl] n]
    show ?thesis
    proof (cases "shrunk")
      case True
      with nf(3) have "\<exists>r s'. fetch_from env cfg base from to attempt s2 = Some (r, s') \<and>
          fetch_result_ok env cfg base from to s2 r s'"
        by (intro less.hyps ok2) simp
      with body True fetch_result_ok_trans [OF f2 i2] show ?thesis by auto
    next
      case False
      show ?thesis
      proof (cases "max_chunk_attempts \<le> attempt + 1")
        case True
        with body False f2 i2 show ?thesis by (simp add: fetch_result_ok_def)
      next
        case more: False
        obtain stop s3 where p: "backoff_pause env (attempt + 1) chunk_backoff_base chunk_backoff_cap s2
            = Some (Inr stop, s3)"
          using backoff_pause_Some [OF chunk_cap_small] by blast
        have q3: "quiet cfg s2 s3" using keepsD [OF backoff_pause_quiet p] .
        have f3: "frame cfg s s3" by (rule transpD [OF frame_trans f2 quiet_frame [OF q3]])
        have i3: "n_chain_id s3 = n_chain_id s" using q3 i2 by (simp add: quiet_def)
        have ok3: "net_ok cfg s3" using frame_net_ok [OF f3 less.prems] .
        have "(max_chunk_attempts - (attempt + 1)) * 2 ^ 64 + unat (chunk_size (n_chunk s3))
            < (max_chunk_attempts - attempt) * 2 ^ 64 + unat (chunk_size (n_chunk s))"
          using more unat_u64_bound [of "chunk_size (n_chunk s3)"] by (intro next_attempt_less) simp_all
        then have "\<exists>r s'. fetch_from env cfg base from to (attempt + 1) s3 = Some (r, s') \<and>
            fetch_result_ok env cfg base from to s3 r s'"
          by (intro less.hyps ok3)
        then obtain r' s' where rec: "fetch_from env cfg base from to (attempt + 1) s3 = Some (r', s')"
          and "fetch_result_ok env cfg base from to s3 r' s'" by blast
        then have res: "fetch_result_ok env cfg base from to s r' s'"
          using fetch_result_ok_trans [OF f3 i3] by blast
        show ?thesis
        proof (cases stop)
          case True
          with body False more p f3 i3 show ?thesis by (simp add: task_bind_def fetch_result_ok_def)
        next
          case False
          with body \<open>\<not> shrunk\<close> more p rec res show ?thesis by (simp add: task_bind_def)
        qed
      qed
    qed
  qed
qed

lemma fetch_chunk_returns:
  assumes "net_ok cfg s" and "from \<le> to"
  shows "\<exists>r s'. fetch_filtered_logs_chunk env cfg base from to s = Some (r, s') \<and>
    fetch_result_ok env cfg base from to s r s'"
  unfolding fetch_filtered_logs_chunk_def by (rule fetch_from_returns [OF assms])

section \<open>The registry's view calls\<close>

text \<open>\<open>provider.get_chainid()\<close> gives a 256-bit number; \<open>as_u64\<close> panics above \<open>u64\<close>.\<close>

definition chain_id ::
  "('w, 'e) env_scheme \<Rightarrow> chain_config \<Rightarrow> (('w, 'z) net_scheme, u64) task" where
  "chain_id env cfg s =
     (if n_chain_id s \<noteq> 0 then Some (Inr (n_chain_id s), s)
      else task_bind (rpc_request cfg ''eth_chainId'' (e_chain_id env) ()
             (\<lambda>e. ''Failed to get chain id: '' @ x_provider_error env e)) (\<lambda>n.
           case as_u64 n of
             None \<Rightarrow> task_panic
           | Some i \<Rightarrow>
               (case cc_expected_chain_id cfg of
                  Some expected \<Rightarrow>
                    if expected \<noteq> i
                    then task_fail (''RPC reports chain id '' @ u64_str i @ '' but EXPECTED_CHAIN_ID is ''
                           @ u64_str expected)
                    else task_bind (task_modify (\<lambda>s. s\<lparr>n_chain_id := i\<rparr>)) (\<lambda>_. task_return i)
                | None \<Rightarrow> task_bind (task_modify (\<lambda>s. s\<lparr>n_chain_id := i\<rparr>)) (\<lambda>_. task_return i))) s)"

definition current_block ::
  "('w, 'e) env_scheme \<Rightarrow> chain_config \<Rightarrow> (('w, 'z) net_scheme, u64) task" where
  "current_block env cfg =
     rpc_request cfg ''eth_blockNumber'' (e_block_number env) ()
       (\<lambda>e. ''Failed to get block number: '' @ x_provider_error env e)"

definition safe_head ::
  "('w, 'e) env_scheme \<Rightarrow> chain_config \<Rightarrow> (('w, 'z) net_scheme, u64) task" where
  "safe_head env cfg =
     task_bind (current_block env cfg) (\<lambda>block. task_return (sat_sub block (cc_confirmations cfg)))"

definition eth_call ::
  "('w, 'e) env_scheme \<Rightarrow> chain_config \<Rightarrow> bytes \<Rightarrow> u64 option \<Rightarrow> (failover_error \<Rightarrow> string) \<Rightarrow>
   (('w, 'z) net_scheme, bytes) task" where
  "eth_call env cfg data block show_error =
     rpc_request cfg ''eth_call'' (e_call env) (cc_registry_address cfg, data, block) show_error"

definition fetch_profile ::
  "('w, 'e) env_scheme \<Rightarrow> chain_config \<Rightarrow> address \<Rightarrow> u64 option \<Rightarrow>
   (('w, 'z) net_scheme, relayer_profile) task" where
  "fetch_profile env cfg a block =
     task_bind (eth_call env cfg (relayers_calldata env a) block
         (\<lambda>e. ''relayers('' @ x_addr_text env a @ '') call failed: '' @ x_provider_error env e)) (\<lambda>raw.
     case decode_relayer_profile env raw of
       None \<Rightarrow> task_panic
     | Some (Inl e) \<Rightarrow> task_fail (''relayers('' @ x_addr_text env a @ ''): '' @ e)
     | Some (Inr p) \<Rightarrow> task_return p)"

text \<open>A call through the generated contract binding: its own encoding and decoding.\<close>

definition contract_call ::
  "('w, 'e) env_scheme \<Rightarrow> chain_config \<Rightarrow> bytes \<Rightarrow> (bytes \<Rightarrow> 'a res) \<Rightarrow> u64 option \<Rightarrow> string \<Rightarrow>
   (('w, 'z) net_scheme, 'a) task" where
  "contract_call env cfg data decode block what =
     task_map_err (\<lambda>e. what @ '': '' @ e)
       (task_bind (eth_call env cfg data block (x_contract_error env)) (\<lambda>raw.
        task_of_res (decode raw)))"

definition fetch_role ::
  "('w, 'e) env_scheme \<Rightarrow> chain_config \<Rightarrow> address \<Rightarrow> u64 option \<Rightarrow> (('w, 'z) net_scheme, u8) task" where
  "fetch_role env cfg a block =
     contract_call env cfg (x_role_call env a) (x_role_result env) block
       (''getNodeRole('' @ x_addr_text env a @ '')'')"

definition fetch_node_info ::
  "('w, 'e) env_scheme \<Rightarrow> chain_config \<Rightarrow> address \<Rightarrow> (('w, 'z) net_scheme, on_chain_node option) task" where
  "fetch_node_info env cfg a =
     task_bind (fetch_profile env cfg a None) (\<lambda>profile.
     if \<not> is_member profile then task_return None
     else task_bind (fetch_role env cfg a None) (\<lambda>role.
          task_return (Some
            \<lparr>oc_address = x_addr_text env a, oc_url = rp_url profile,
             oc_ingress_url = rp_ingress_url profile, oc_metadata_url = rp_metadata_url profile,
             oc_sphinx_key = x_hex env (rp_sphinx_key profile), oc_role = role,
             oc_frozen = rp_frozen profile\<rparr>)))"

definition membership_at ::
  "('w, 'e) env_scheme \<Rightarrow> chain_config \<Rightarrow> u64 \<Rightarrow> (('w, 'z) net_scheme, u256 \<times> u256) task" where
  "membership_at env cfg block =
     task_bind (contract_call env cfg (x_count_call env) (x_count_result env) (Some block)
         (''relayerCount at block '' @ u64_str block)) (\<lambda>count.
     task_bind (contract_call env cfg (x_fingerprint_call env) (x_fingerprint_result env) (Some block)
         (''topologyFingerprint at block '' @ u64_str block)) (\<lambda>fingerprint.
     task_return (count, fingerprint)))"

section \<open>Membership checks\<close>

fun fold_members ::
  "'z ext_scheme \<Rightarrow> address list \<Rightarrow> address list \<Rightarrow> u256 \<Rightarrow> u256 res" where
  "fold_members x [] seen fingerprint = Inr fingerprint"
| "fold_members x (a # as) seen fingerprint =
     (if a \<in> set seen then Inl (''replayed topology has duplicate address '' @ x_addr_text x a)
      else fold_members x as (a # seen) (fingerprint XOR x_keccak256 x (addr_bytes a)))"

definition validate_pinned_membership ::
  "'z ext_scheme \<Rightarrow> address list \<Rightarrow> u256 \<Rightarrow> u256 \<Rightarrow> unit res" where
  "validate_pinned_membership x addresses expected_count expected_fingerprint =
     (case fold_members x addresses [] 0 of
        Inl e \<Rightarrow> Inl e
      | Inr fingerprint \<Rightarrow>
          if expected_count \<noteq> of_nat (length addresses)
          then Inl (''replayed topology count '' @ nat_str (length addresses)
                 @ '' differs from registry count '' @ u256_str expected_count)
          else if fingerprint \<noteq> expected_fingerprint
          then Inl ''replayed topology fingerprint differs from registry''
          else Inr ())"

text \<open>The order in which the hash set is read is any order; here it is the sorted one.\<close>

definition verify_membership ::
  "('w, 'e) env_scheme \<Rightarrow> chain_config \<Rightarrow> address set \<Rightarrow> u64 \<Rightarrow>
   (('w, 'z) net_scheme, unit res) task" where
  "verify_membership env cfg members block =
     task_bind (membership_at env cfg block) (\<lambda>(count, fingerprint).
     task_return (validate_pinned_membership env (sorted_list_of_set members) count fingerprint))"

fun parse_addresses :: "'z ext_scheme \<Rightarrow> string list \<Rightarrow> address list res" where
  "parse_addresses x [] = Inr []"
| "parse_addresses x (s # ss) =
     (case x_addr_parse x s of
        Inl e \<Rightarrow> Inl (''stored topology address '' @ s @ '' is invalid: '' @ e)
      | Inr a \<Rightarrow>
          (case parse_addresses x ss of Inl e \<Rightarrow> Inl e | Inr as \<Rightarrow> Inr (a # as)))"

definition pinned_node_at ::
  "('w, 'e) env_scheme \<Rightarrow> chain_config \<Rightarrow> u64 \<Rightarrow> address \<Rightarrow> (('w, 'z) net_scheme, pinned_node) task" where
  "pinned_node_at env cfg block a =
     task_bind (fetch_profile env cfg a (Some block)) (\<lambda>profile.
     if \<not> is_member profile
     then task_fail (''replayed topology member '' @ x_addr_text env a
            @ '' is not registered at block '' @ u64_str block)
     else task_bind (fetch_role env cfg a (Some block)) (\<lambda>role.
     if \<not> (1 \<le> role \<and> role \<le> 3)
     then task_fail (''replayed topology member '' @ x_addr_text env a @ '' has invalid role ''
            @ nat_str (unat role) @ '' at block '' @ u64_str block)
     else let address_text = to_lowercase (x_addr_text env a)
          in task_return
            \<lparr>pn_address = address_text, pn_sphinx_key = x_hex env (rp_sphinx_key profile),
             pn_url = rp_url profile, pn_stake = u256_str (rp_staked_amount profile),
             pn_is_privileged = (rp_staked_amount profile = 0),
             pn_layer = primary_layer_for_role env role address_text, pn_role = role,
             pn_ingress_url = rp_ingress_url profile, pn_metadata_url = rp_metadata_url profile,
             pn_frozen = rp_frozen profile\<rparr>))"

text \<open>
  The profiles are read four at a time and collected in any order before sorting; here they are
  read one after the other. The first error ends the read.
\<close>

definition pinned_topology_members ::
  "('w, 'e) env_scheme \<Rightarrow> chain_config \<Rightarrow> string list \<Rightarrow> u64 \<Rightarrow>
   (('w, 'z) net_scheme, pinned_node list \<times> string) task" where
  "pinned_topology_members env cfg member_addresses block_number =
     (if block_number = 0 then task_fail ''seed topology requires a non-zero processed block''
      else
        task_bind (task_of_res (parse_addresses env member_addresses)) (\<lambda>addresses.
        task_bind (membership_at env cfg block_number) (\<lambda>(count, fingerprint).
        task_bind (task_of_res (validate_pinned_membership env addresses count fingerprint)) (\<lambda>_.
        task_bind (task_map (pinned_node_at env cfg block_number) addresses) (\<lambda>nodes.
        task_return (sort_key pn_address nodes, x_hex env (be_bytes fingerprint)))))))"

definition block_timestamp ::
  "('w, 'e) env_scheme \<Rightarrow> chain_config \<Rightarrow> u64 \<Rightarrow> (('w, 'z) net_scheme, u64) task" where
  "block_timestamp env cfg block =
     task_bind (rpc_request cfg ''eth_getBlockByNumber'' (e_get_block env) block
         (\<lambda>e. ''eth_getBlockByNumber '' @ u64_str block @ '': '' @ x_provider_error env e)) (\<lambda>header.
     case header of
       None \<Rightarrow> task_fail (''block '' @ u64_str block @ '' is not available yet'')
     | Some timestamp \<Rightarrow> task_return (low_u64 timestamp))"

section \<open>The calls keep the client's invariant\<close>

lemma keeps_case_option:
  "keeps R m \<Longrightarrow> (\<And>a. keeps R (f a)) \<Longrightarrow> keeps R (case v of None \<Rightarrow> m | Some a \<Rightarrow> f a)"
  by (cases v) auto

lemma keeps_case_sum:
  "(\<And>a. keeps R (f a)) \<Longrightarrow> (\<And>a. keeps R (g a)) \<Longrightarrow> keeps R (case v of Inl a \<Rightarrow> f a | Inr a \<Rightarrow> g a)"
  by (cases v) auto

lemma keeps_if: "keeps R m \<Longrightarrow> keeps R n \<Longrightarrow> keeps R (if b then m else n)"
  by simp

lemma keeps_case_prod: "(\<And>a b. keeps R (f a b)) \<Longrightarrow> keeps R (case p of (a, b) \<Rightarrow> f a b)"
  by (cases p) auto

lemma keeps_task_map:
  assumes "transp R" and "reflp R" and "\<And>x. keeps R (f x)"
  shows "keeps R (task_map f xs)"
proof (induction xs)
  case Nil
  have "task_map f [] = task_return []" by (rule ext) (simp add: task_return_def)
  then show ?case using keeps_pure [OF assms(2)] by simp
next
  case (Cons x xs)
  have "task_map f (x # xs) = task_bind (f x) (\<lambda>y. task_bind (task_map f xs) (\<lambda>ys. task_return (y # ys)))"
    by (rule ext) simp
  then show ?case using Cons assms(3) keeps_pure [OF assms(2)] by (auto intro!: keeps_bind [OF assms(1)])
qed

lemmas quiet_pure = keeps_pure [OF quiet_refl]
lemmas quiet_bind = keeps_bind [OF quiet_trans]
lemmas frame_pure = keeps_pure [OF frame_refl]
lemmas frame_bind = keeps_bind [OF frame_trans]
lemmas keeps_cases = keeps_case_option keeps_case_sum keeps_if keeps_case_prod

lemma view_calls_quiet:
  "keeps (quiet cfg) (current_block env cfg)" "keeps (quiet cfg) (safe_head env cfg)"
  "keeps (quiet cfg) (eth_call env cfg data block show_error)"
  "keeps (quiet cfg) (fetch_profile env cfg a block)"
  "keeps (quiet cfg) (contract_call env cfg data decode block what)"
  "keeps (quiet cfg) (fetch_role env cfg a block)"
  "keeps (quiet cfg) (fetch_node_info env cfg a)"
  "keeps (quiet cfg) (membership_at env cfg n)"
  "keeps (quiet cfg) (verify_membership env cfg members n)"
  "keeps (quiet cfg) (pinned_node_at env cfg n a)"
  "keeps (quiet cfg) (pinned_topology_members env cfg addrs n)"
  "keeps (quiet cfg) (block_timestamp env cfg n)"
proof -
  show blk: "keeps (quiet cfg) (current_block env cfg)"
    unfolding current_block_def by (rule rpc_request_quiet)
  show "keeps (quiet cfg) (safe_head env cfg)"
    unfolding safe_head_def by (intro quiet_bind blk quiet_pure)
  have call: "keeps (quiet cfg) (eth_call env cfg data block show_error)" for data block show_error
    unfolding eth_call_def by (rule rpc_request_quiet)
  then show "keeps (quiet cfg) (eth_call env cfg data block show_error)" .
  have prof: "keeps (quiet cfg) (fetch_profile env cfg a block)" for a block
    unfolding fetch_profile_def by (intro quiet_bind call keeps_cases quiet_pure)
  then show "keeps (quiet cfg) (fetch_profile env cfg a block)" .
  have con: "keeps (quiet cfg) (contract_call env cfg data decode block what)"
    for data block what and decode :: "bytes \<Rightarrow> 'x res"
    unfolding contract_call_def by (intro keeps_map_err quiet_bind call quiet_pure)
  then show "keeps (quiet cfg) (contract_call env cfg data decode block what)" .
  have role: "keeps (quiet cfg) (fetch_role env cfg a block)" for a block
    unfolding fetch_role_def contract_call_def by (intro keeps_map_err quiet_bind call quiet_pure)
  then show "keeps (quiet cfg) (fetch_role env cfg a block)" .
  show "keeps (quiet cfg) (fetch_node_info env cfg a)"
    unfolding fetch_node_info_def by (intro quiet_bind prof role keeps_cases quiet_pure)
  have mem: "keeps (quiet cfg) (membership_at env cfg n)" for n
    unfolding membership_at_def contract_call_def
    by (intro keeps_map_err quiet_bind call quiet_pure)
  then show "keeps (quiet cfg) (membership_at env cfg n)" .
  show "keeps (quiet cfg) (verify_membership env cfg members n)"
    unfolding verify_membership_def by (intro quiet_bind mem keeps_cases quiet_pure)
  have node: "keeps (quiet cfg) (pinned_node_at env cfg n a)" for n a
    unfolding pinned_node_at_def Let_def
    by (intro quiet_bind prof role keeps_cases quiet_pure)
  then show "keeps (quiet cfg) (pinned_node_at env cfg n a)" .
  show "keeps (quiet cfg) (pinned_topology_members env cfg addrs n)"
    unfolding pinned_topology_members_def
    by (intro quiet_bind mem keeps_cases quiet_pure keeps_task_map node quiet_trans quiet_refl)
  show "keeps (quiet cfg) (block_timestamp env cfg n)"
    unfolding block_timestamp_def by (intro quiet_bind rpc_request_quiet keeps_cases quiet_pure)
qed

definition chain_id_ok :: "chain_config \<Rightarrow> ('w, 'z) net_scheme \<Rightarrow> bool" where
  "chain_id_ok cfg s \<longleftrightarrow>
     (\<forall>expected. cc_expected_chain_id cfg = Some expected \<longrightarrow> n_chain_id s \<noteq> 0 \<longrightarrow> n_chain_id s = expected)"

lemma chain_id_spec:
  assumes "chain_id env cfg s = Some (r, s')"
  shows "frame cfg s s' \<and>
    (case r of Inl _ \<Rightarrow> n_chain_id s' = n_chain_id s
     | Inr i \<Rightarrow> n_chain_id s' = i \<and>
         (n_chain_id s = 0 \<longrightarrow> (\<forall>e. cc_expected_chain_id cfg = Some e \<longrightarrow> i = e)) \<and>
         (n_chain_id s \<noteq> 0 \<longrightarrow> i = n_chain_id s \<and> s' = s))"
proof (cases "n_chain_id s = 0")
  case False
  with assms show ?thesis by (auto simp: chain_id_def frame_def)
next
  case True
  obtain r0 s1 where req: "rpc_request cfg ''eth_chainId'' (e_chain_id env) ()
      (\<lambda>e. ''Failed to get chain id: '' @ x_provider_error env e) s = Some (r0, s1)"
    using rpc_request_Some [of cfg "''eth_chainId''" "e_chain_id env" "()"] by blast
  have q: "quiet cfg s s1" using keepsD [OF rpc_request_quiet req] .
  with assms True req show ?thesis
    by (auto simp: chain_id_def task_defs quiet_def frame_def net_ok_def
        split: sum.splits option.splits if_splits)
qed

section \<open>The membership check is exact\<close>

definition member_hash :: "'z ext_scheme \<Rightarrow> address \<Rightarrow> u256" where
  "member_hash x a = x_keccak256 x (addr_bytes a)"

text \<open>What the registry's fingerprint is meant to be: the exclusive or of its members' hashes.\<close>

definition registry_fingerprint :: "'z ext_scheme \<Rightarrow> address set \<Rightarrow> u256" where
  "registry_fingerprint x members =
     fold (\<lambda>a f. f XOR member_hash x a) (sorted_list_of_set members) 0"

lemma fold_members_Inr:
  "fold_members x as seen f0 = Inr f \<longleftrightarrow>
     distinct as \<and> set as \<inter> set seen = {} \<and> f = fold (\<lambda>a f. f XOR member_hash x a) as f0"
  by (induction as arbitrary: seen f0) (auto simp: member_hash_def)

lemma xor_fold_perm:
  assumes "mset as = mset bs"
  shows "fold (\<lambda>a f. f XOR member_hash x a) as = fold (\<lambda>a f. f XOR member_hash x a) bs"
  using assms
  by (intro fold_multiset_equiv) (auto simp: fun_eq_iff ac_simps xor.left_commute)

lemma fingerprint_fold:
  assumes "distinct as"
  shows "fold (\<lambda>a f. f XOR member_hash x a) as 0 = registry_fingerprint x (set as)"
proof -
  have "mset (sorted_list_of_set (set as)) = mset as"
    using assms by (simp add: set_eq_iff_mset_eq_distinct [symmetric])
  then show ?thesis
    unfolding registry_fingerprint_def by (intro fun_cong [OF xor_fold_perm]) simp
qed

lemma validate_iff:
  "validate_pinned_membership x as cnt fingerprint = Inr () \<longleftrightarrow>
     distinct as \<and> cnt = of_nat (length as) \<and> fingerprint = registry_fingerprint x (set as)"
proof (cases "fold_members x as [] 0")
  case (Inl e)
  then have "\<not> distinct as" using fold_members_Inr [of x as "[]" 0] by fastforce
  with Inl show ?thesis by (simp add: validate_pinned_membership_def)
next
  case (Inr f)
  then have "distinct as" and "f = registry_fingerprint x (set as)"
    by (auto simp: fold_members_Inr fingerprint_fold)
  with Inr show ?thesis by (auto simp: validate_pinned_membership_def)
qed

text \<open>
  C9: the replayed members are accepted exactly when they are distinct, as many as the registry
  counts (modulo the 256-bit word), and the exclusive or of their hashes, taken over the set and
  so in any order, is the registry's fingerprint. In particular the iteration order of the hash
  set that is checked never changes the verdict.
\<close>

theorem membership_check_exact:
  "validate_pinned_membership x addresses cnt fingerprint = Inr () \<longleftrightarrow>
     distinct addresses \<and> cnt = of_nat (card (set addresses)) \<and>
     fingerprint = registry_fingerprint x (set addresses)"
  unfolding validate_iff by (auto simp: distinct_card)

section \<open>Pinned members\<close>

lemma task_map_Inr:
  "task_map f xs s = Some (Inr ys, s') \<Longrightarrow>
     list_all2 (\<lambda>x y. \<exists>s1 s2. f x s1 = Some (Inr y, s2)) xs ys"
proof (induction xs arbitrary: s ys)
  case (Cons x xs)
  then obtain y s1 zs where "f x s = Some (Inr y, s1)" and "task_map f xs s1 = Some (Inr zs, s')"
    and "ys = y # zs"
    by (auto simp: task_bind_Inr_iff)
  with Cons.IH show ?case by auto
qed simp

lemma pinned_node_at_Inr:
  assumes "pinned_node_at env cfg block a s1 = Some (Inr n, s2)"
  shows "pn_address n = to_lowercase (x_addr_text env a) \<and> 1 \<le> pn_role n \<and> pn_role n \<le> 3 \<and>
    pn_layer n = primary_layer_for_role env (pn_role n) (pn_address n) \<and>
    (\<exists>p s0. fetch_profile env cfg a (Some block) s1 = Some (Inr p, s0) \<and> is_member p \<and>
       pn_frozen n = rp_frozen p \<and> pn_stake n = u256_str (rp_staked_amount p) \<and>
       (pn_is_privileged n \<longleftrightarrow> rp_staked_amount p = 0) \<and> pn_url n = rp_url p)"
  using assms by (auto simp: pinned_node_at_def task_bind_Inr_iff Let_def split: if_splits)

lemma parse_addresses_Inr:
  "parse_addresses x texts = Inr as \<Longrightarrow> list_all2 (\<lambda>t a. x_addr_parse x t = Inr a) texts as"
  by (induction texts arbitrary: as) (auto split: sum.splits)

text \<open>What a pinned read that succeeds has done: the members of the parsed texts, checked, sorted.\<close>

lemma pinned_read:
  fixes env :: "('w, 'e) env_scheme" and s s' :: "('w, 'z) net_scheme"
  assumes "addr_codec_ok env"
    and "pinned_topology_members env cfg texts block s = Some (Inr (nodes, fp), s')"
  obtains as and s1 :: "('w, 'z) net_scheme" where "block \<noteq> 0" and "parse_addresses env texts = Inr as" and "distinct as"
    and "membership_at env cfg block s =
           Some (Inr (of_nat (length as), registry_fingerprint env (set as)), s1)"
    and "fp = x_hex env (be_bytes (registry_fingerprint env (set as)))"
    and "set (map pn_address nodes) = x_addr_text env ` set as"
    and "sorted_wrt (<) (map pn_address nodes)"
    and "\<forall>n \<in> set nodes.
      \<exists>a (s1 :: ('w, 'z) net_scheme) s2. pinned_node_at env cfg block a s1 = Some (Inr n, s2)"
proof -
  from assms(2) obtain as cnt f ns and s0 s1 s2 :: "('w, 'z) net_scheme" where b: "block \<noteq> 0"
    and as: "parse_addresses env texts = Inr as"
    and ms: "membership_at env cfg block s = Some (Inr (cnt, f), s0)"
    and v: "validate_pinned_membership env as cnt f = Inr ()"
    and m: "task_map (pinned_node_at env cfg block) as s1 = Some (Inr ns, s2)"
    and nodes: "nodes = sort_key pn_address ns" and fp: "fp = x_hex env (be_bytes f)"
    by (auto simp: pinned_topology_members_def task_bind_Inr_iff task_of_res_def split: if_splits)
  from v have d: "distinct as" and f: "f = registry_fingerprint env (set as)" and c: "cnt = of_nat (length as)"
    by (auto simp: validate_iff)
  have all: "list_all2 (\<lambda>a n. \<exists>(s1 :: ('w, 'z) net_scheme) s2. pinned_node_at env cfg block a s1 = Some (Inr n, s2)) as ns"
    by (rule task_map_Inr [OF m])
  then have "list_all2 (\<lambda>a n. pn_address n = x_addr_text env a) as ns"
    by (rule list_all2_mono) (auto dest!: pinned_node_at_Inr simp: addr_text_lower [OF assms(1)])
  then have addrs: "map pn_address ns = map (x_addr_text env) as"
    by (induction rule: list_all2_induct) auto
  have "inj_on (x_addr_text env) (set as)" by (rule inj_onI) (rule addr_text_inj [OF assms(1)])
  with d addrs have "distinct (map pn_address nodes)"
    by (simp add: nodes distinct_map [symmetric]) (metis distinct_map mset_map mset_sort
        mset_eq_imp_distinct_iff)
  moreover have "sorted (map pn_address nodes)" by (simp add: nodes)
  ultimately have "sorted_wrt (<) (map pn_address nodes)" by (simp add: strict_sorted_iff)
  moreover have "set (map pn_address nodes) = x_addr_text env ` set as"
    using addrs by (metis list.set_map nodes set_sort)
  moreover have "\<exists>a (s1 :: ('w, 'z) net_scheme) s2. pinned_node_at env cfg block a s1 = Some (Inr n, s2)"
    if "n \<in> set nodes" for n
    using that all by (auto simp: nodes list_all2_conv_all_nth in_set_conv_nth) blast
  ultimately show thesis using that b as d ms c f fp by blast
qed

text \<open>
  C8: what the pinned read hands to the seed endpoint. When it succeeds, the block is not zero, the
  stored members are distinct addresses, and the registry, asked by this very read for its count and
  fingerprint at that block, answered the number of these addresses and the fingerprint of their set,
  which is the one handed on. The nodes are exactly those members in strictly increasing address
  order, each registered at the block, with a role between 1 and 3, the layer of that role, and marked
  privileged exactly when it has no stake. Assumed is that the text of an address reads back as it.
\<close>

theorem pinned_members_verified:
  fixes env :: "('w, 'e) env_scheme" and s s' :: "('w, 'z) net_scheme"
  assumes "addr_codec_ok env"
    and "pinned_topology_members env cfg texts block s = Some (Inr (nodes, fp), s')"
  shows "block \<noteq> 0 \<and> sorted_wrt (<) (map pn_address nodes) \<and>
    (\<exists>as (s0 :: ('w, 'z) net_scheme). parse_addresses env texts = Inr as \<and> distinct as \<and>
       membership_at env cfg block s = Some (Inr (of_nat (length as), registry_fingerprint env (set as)), s0) \<and>
       length nodes = length as \<and>
       fp = x_hex env (be_bytes (registry_fingerprint env (set as))) \<and>
       set (map pn_address nodes) = x_addr_text env ` set as) \<and>
    (\<forall>n \<in> set nodes. 1 \<le> pn_role n \<and> pn_role n \<le> 3 \<and>
       pn_layer n = primary_layer_for_role env (pn_role n) (pn_address n) \<and>
       (\<exists>a p (s1 :: ('w, 'z) net_scheme) s0.
          fetch_profile env cfg a (Some block) s1 = Some (Inr p, s0) \<and> is_member p \<and>
          pn_address n = x_addr_text env a \<and> pn_frozen n = rp_frozen p \<and>
          (pn_is_privileged n \<longleftrightarrow> rp_staked_amount p = 0)))"
proof -
  obtain as and s0 :: "('w, 'z) net_scheme" where r: "block \<noteq> 0"
    "parse_addresses env texts = Inr as" "distinct as"
    "membership_at env cfg block s = Some (Inr (of_nat (length as), registry_fingerprint env (set as)), s0)"
    "fp = x_hex env (be_bytes (registry_fingerprint env (set as)))"
    "set (map pn_address nodes) = x_addr_text env ` set as" "sorted_wrt (<) (map pn_address nodes)"
    and n: "\<forall>n \<in> set nodes.
      \<exists>a (s1 :: ('w, 'z) net_scheme) s2. pinned_node_at env cfg block a s1 = Some (Inr n, s2)"
    by (rule pinned_read [OF assms]) blast
  have "1 \<le> pn_role n \<and> pn_role n \<le> 3 \<and>
       pn_layer n = primary_layer_for_role env (pn_role n) (pn_address n) \<and>
       (\<exists>a p (s1 :: ('w, 'z) net_scheme) s0.
          fetch_profile env cfg a (Some block) s1 = Some (Inr p, s0) \<and> is_member p \<and>
          pn_address n = x_addr_text env a \<and> pn_frozen n = rp_frozen p \<and>
          (pn_is_privileged n \<longleftrightarrow> rp_staked_amount p = 0))" if "n \<in> set nodes" for n
  proof -
    from n that obtain a and s2 s3 :: "('w, 'z) net_scheme" where
      "pinned_node_at env cfg block a s2 = Some (Inr n, s3)" by blast
    from pinned_node_at_Inr [OF this] addr_text_lower [OF assms(1), of a] show ?thesis by metis
  qed
  moreover have "length nodes = length as"
  proof -
    have "inj_on (x_addr_text env) (set as)" by (rule inj_onI) (rule addr_text_inj [OF assms(1)])
    then have "card (set (map pn_address nodes)) = length as"
      unfolding r(6) using r(3) by (simp add: card_image distinct_card)
    moreover have "distinct (map pn_address nodes)" using r(7) by (simp add: strict_sorted_iff)
    ultimately show ?thesis by (metis distinct_card length_map)
  qed
  ultimately show ?thesis using r by blast
qed

section \<open>A small network for the examples\<close>

text \<open>One endpoint at head 1000 that serves empty log ranges, a registry with one legacy member,
  and a clock and a shutdown signal that never fire.\<close>

definition demo_ext :: ext where
  "demo_ext = example_ext
     \<lparr>x_keccak256 := (\<lambda>_. 7), x_abi_encode := (\<lambda>_. [9]),
      x_abi_decode := (\<lambda>_ _. Inr [FixedBytesToken (replicate 32 0), StringToken ''/ip4/8.8.8.8/tcp/9000'',
        StringToken [], StringToken [], UintToken 0, UintToken 0, BoolToken True])\<rparr>"

definition demo_call :: "address \<times> bytes \<times> u64 option \<Rightarrow> nat \<Rightarrow> unit \<Rightarrow> bytes outcome \<times> unit" where
  "demo_call q i w =
     (case q of (_, data, _) \<Rightarrow>
        (Served (if data = [2] then [1] else if data = [3] then [7]
                 else if length data = 21 then [2] else replicate 63 0 @ [224]), w))"

definition demo_env :: "unit env" where
  "demo_env = ext.extend demo_ext
     (env.fields (\<lambda>_ _ w. (Served [], w)) (\<lambda>_ _ w. (Served 1000, w)) (\<lambda>_ _ w. (Served 421614, w))
        demo_call (\<lambda>_ _ w. (Served (Some 1700000000), w)) (\<lambda>w. (0, w)) (\<lambda>_ w. (False, w)))"

definition demo_cfg :: chain_config where
  "demo_cfg =
     \<lparr>cc_endpoints = [\<lparr>ep_label = ''https://a.example'', ep_secrets = []\<rparr>],
      cc_registry_address = 0xbb, cc_registry_hex = hex_address 0xbb, cc_poll_interval = from_secs 6,
      cc_from_block = 100, cc_confirmations = 20, cc_expected_chain_id = Some 421614\<rparr>"

definition demo_net :: "unit net" where
  "demo_net =
     \<lparr>n_chunk = chunk_new 50000 500 1000000, n_chain_id = 0,
      n_transport = \<lparr>preferred = 0, logs_served_by = 0\<rparr>, n_jitter = 0, n_world = ()\<rparr>"

lemmas demo_defs = demo_env_def demo_ext_def example_ext_def ext.defs env.defs

lemma demo_env_sel [simp]:
  "e_get_logs demo_env q i w = (Served [], w)" "e_block_number demo_env u i w = (Served 1000, w)"
  "e_chain_id demo_env u i w = (Served 421614, w)" "e_call demo_env = demo_call"
  "x_keccak256 demo_env b = 7" "x_abi_encode demo_env ts = [9]"
  "x_abi_decode demo_env ps d = Inr [FixedBytesToken (replicate 32 0),
     StringToken ''/ip4/8.8.8.8/tcp/9000'', StringToken [], StringToken [], UintToken 0, UintToken 0,
     BoolToken True]"
  "x_addr_text demo_env = hex_address" "x_addr_parse demo_env = parse_hex_address"
  "x_count_call demo_env = [2]" "x_fingerprint_call demo_env = [3]"
  "x_role_call demo_env a = 1 # addr_bytes a" "x_role_result demo_env b = Inr (hd (b @ [0]))"
  "x_count_result demo_env b = Inr (from_big_endian b)"
  "x_fingerprint_result demo_env b = Inr (from_big_endian b)"
  by (simp_all add: demo_defs)

lemma demo_codec: "addr_codec_ok demo_env"
  by (simp add: addr_codec_ok_def hex_address_roundtrip hex_address_lower)

lemma demo_cfg_ok: "net_ok demo_cfg demo_net"
  by (simp add: net_ok_def demo_net_def demo_cfg_def transport_ok_def chunk_new_ok)

lemma request_single:
  assumes "call p 0 w = (Served v, w)" and "preferred t = 0" and "meth \<noteq> ''eth_getLogs''"
  shows "request [ep] meth (Inr p) call t w = (Inr v, t, w)"
  using assms by (simp add: request_def Let_def upt_rec)

lemma demo_request [simp]:
  assumes "call p 0 () = (Served v, ())" and "preferred (n_transport s) = 0" and "meth \<noteq> ''eth_getLogs''"
  shows "rpc_request demo_cfg meth call p show_error (s :: (unit, 'z) net_scheme) = Some (Inr v, s)"
  using request_single [of call p "n_world s" v "n_transport s" meth] assms
  by (simp add: rpc_request_def demo_cfg_def)

lemma length_addr_bytes [simp]: "length (addr_bytes a) = 20"
  by (simp add: addr_bytes_def)

section \<open>Properties\<close>

text \<open>
  C5: fetching logs always comes back, and what it gives can be acted on. From any healthy state
  of the client and any range, whatever the endpoints answer, the retry loop ends; on success the
  logs cover a non-empty prefix of the range, one endpoint served exactly that prefix, and if it
  ends within the head-check window of the target then the same endpoint announced a head at or
  above its end, so an endpoint that silently truncates at its own head is not believed.
\<close>

theorem fetch_returns_trusted_logs:
  assumes "net_ok cfg s" and "from \<le> to"
  shows "\<exists>r s'. fetch_filtered_logs_chunk env cfg base from to s = Some (r, s') \<and>
    net_ok cfg s' \<and> net.more s' = net.more s \<and>
    (\<forall>logs till. r = Inr (logs, till) \<longrightarrow>
       from \<le> till \<and> till \<le> to \<and> logs_trusted env base from to logs till)"
proof -
  from fetch_chunk_returns [OF assms, of env base] obtain r s' where
    "fetch_filtered_logs_chunk env cfg base from to s = Some (r, s')"
    and res: "fetch_result_ok env cfg base from to s r s'" by blast
  moreover from res have "net_ok cfg s' \<and> net.more s' = net.more s"
    using assms(1) by (simp add: fetch_result_ok_def frame_def)
  ultimately show ?thesis by (auto simp: fetch_result_ok_def)
qed

theorem fetch_returns_trusted_logs_witness:
  "\<exists>r s'. fetch_filtered_logs_chunk demo_env demo_cfg \<lparr>lf_addresses = [0xbb], lf_topic0 = []\<rparr>
     100 900 demo_net = Some (r, s') \<and> net_ok demo_cfg s'"
proof -
  have "(100 :: u64) \<le> 900" by simp
  from fetch_returns_trusted_logs [OF demo_cfg_ok this, of demo_env] show ?thesis by blast
qed

lemma from_big_endian_zeros: "from_big_endian (replicate k 0 @ [b]) = ucast b"
proof -
  have "foldl (\<lambda>n b. 256 * n + ucast b) 0 (replicate k (0 :: u8)) = (0 :: u256)"
    by (induction k) simp_all
  then show ?thesis by (simp add: from_big_endian_def)
qed

text \<open>What the example lemmas use of the environment, so that they hold for every extension of it.\<close>

definition answers_demo :: "(unit, 'e) env_scheme \<Rightarrow> bool" where
  "answers_demo env \<longleftrightarrow>
     e_call env = demo_call \<and> e_block_number env = e_block_number demo_env \<and>
     x_keccak256 env = x_keccak256 demo_env \<and>
     x_abi_encode env = x_abi_encode demo_env \<and> x_abi_decode env = x_abi_decode demo_env \<and>
     x_addr_text env = hex_address \<and> x_addr_parse env = parse_hex_address \<and>
     x_count_call env = [2] \<and> x_fingerprint_call env = [3] \<and>
     x_role_call env = x_role_call demo_env \<and> x_role_result env = x_role_result demo_env \<and>
     x_count_result env = x_count_result demo_env \<and>
     x_fingerprint_result env = x_fingerprint_result demo_env"

lemma demo_env_answers [simp]: "answers_demo demo_env"
  by (simp add: answers_demo_def)

lemma demo_profile:
  assumes "answers_demo env" and p: "preferred (n_transport s) = 0"
  shows "fetch_profile env demo_cfg a block s = Some (Inr
       \<lparr>rp_sphinx_key = replicate 32 0, rp_url = ''/ip4/8.8.8.8/tcp/9000'', rp_ingress_url = [],
        rp_metadata_url = [], rp_staked_amount = 0, rp_unstake_time = 0, rp_is_registered = True,
        rp_status = None, rp_frozen = False, rp_layout = Legacy7\<rparr>, s)"
proof -
  let ?p = "\<lparr>rp_sphinx_key = replicate 32 0, rp_url = ''/ip4/8.8.8.8/tcp/9000'', rp_ingress_url = [],
        rp_metadata_url = [], rp_staked_amount = 0, rp_unstake_time = 0, rp_is_registered = True,
        rp_status = None, rp_frozen = False, rp_layout = Legacy7\<rparr>"
  note env = assms(1) [unfolded answers_demo_def]
  let ?data = "replicate 63 0 @ [224] :: bytes"
  have "drop 32 ?data = replicate 31 0 @ [224]" by (simp add: drop_append drop_replicate)
  moreover have "take 32 (replicate 31 0 @ [224 :: u8]) = replicate 31 0 @ [224]"
    by (rule take_all) simp
  ultimately have "first_string_offset ?data = 224"
    by (simp only: first_string_offset_def from_big_endian_zeros) simp
  then have "detect_layout env ?data = Inr Legacy7"
    by (simp add: detect_layout_Inr head_bytes_def)
  then have "decode_relayer_profile env ?data = Some (Inr ?p)"
    by (simp add: decode_profile_Inr profile_ok_def profile_tokens_def env)
  moreover have "eth_call env demo_cfg (relayers_calldata env a) block e s = Some (Inr ?data, s)"
    for e
    using p env unfolding eth_call_def
    by (intro demo_request) (simp_all add: demo_call_def relayers_calldata_def be_bytes_def)
  ultimately show ?thesis by (simp add: fetch_profile_def task_bind_def task_return_def)
qed

lemma demo_contract:
  assumes "answers_demo env" and "preferred (n_transport s) = 0"
  shows "contract_call env demo_cfg [2] (x_count_result env) b t s = Some (Inr 1, s)"
    and "contract_call env demo_cfg [3] (x_fingerprint_result env) b t s = Some (Inr 7, s)"
    and "contract_call env demo_cfg (1 # addr_bytes a) (x_role_result env) b t s = Some (Inr 2, s)"
  using assms
  by (simp_all add: contract_call_def eth_call_def demo_call_def from_big_endian_def task_defs answers_demo_def)

lemma demo_membership:
  assumes "answers_demo env" and "preferred (n_transport s) = 0"
  shows "membership_at env demo_cfg block s = Some (Inr (1, 7), s)"
    and "fetch_role env demo_cfg a b s = Some (Inr 2, s)"
    and "verify_membership env demo_cfg {a} block s = Some (Inr (Inr ()), s)"
proof -
  note env = assms(1) [unfolded answers_demo_def]
  show m: "membership_at env demo_cfg block s = Some (Inr (1, 7), s)"
    using assms demo_contract [OF assms] env by (simp add: membership_at_def task_defs)
  show "fetch_role env demo_cfg a b s = Some (Inr 2, s)"
    using demo_contract(3) [OF assms] env by (simp add: fetch_role_def)
  show "verify_membership env demo_cfg {a} block s = Some (Inr (Inr ()), s)"
    by (simp add: verify_membership_def m validate_pinned_membership_def env task_bind_def task_return_def)
qed

lemma demo_pinned:
  assumes "answers_demo env" and "preferred (n_transport s) = 0" and "block \<noteq> 0"
  obtains n fp where
    "pinned_topology_members env demo_cfg [hex_address a] block s = Some (Inr ([n], fp), s)"
proof -
  note env = assms(1) [unfolded answers_demo_def]
  note m = demo_membership [OF assms(1,2)]
  obtain n where n: "pinned_node_at env demo_cfg block a s = Some (Inr n, s)"
    using assms(1,2) by (simp add: pinned_node_at_def demo_profile m(2) is_member_def task_bind_def
        task_return_def Let_def del: replicate.simps)
  have p: "parse_addresses env [hex_address a] = Inr [a]"
    by (simp add: hex_address_roundtrip env)
  have v: "validate_pinned_membership env [a] 1 7 = Inr ()"
    by (simp add: validate_pinned_membership_def env)
  have "pinned_topology_members env demo_cfg [hex_address a] block s =
      Some (Inr ([n], x_hex env (be_bytes 7)), s)"
    using assms(3) by (simp add: pinned_topology_members_def p m(1) v n task_bind_def
        task_return_def task_of_res_def del: parse_addresses.simps)
  then show thesis by (rule that)
qed

theorem pinned_members_verified_witness:
  "\<exists>nodes fp s' s0. pinned_topology_members demo_env demo_cfg [hex_address 0xaa] 900 demo_net =
     Some (Inr (nodes, fp), s') \<and> sorted_wrt (<) (map pn_address nodes) \<and> length nodes = 1 \<and>
     membership_at demo_env demo_cfg 900 demo_net = Some (Inr (1, 7), s0)"
proof -
  obtain n fp where run: "pinned_topology_members demo_env demo_cfg [hex_address 0xaa] 900 demo_net =
      Some (Inr ([n], fp), demo_net)"
    using demo_pinned [OF demo_env_answers, where s = demo_net and block = 900 and a = "0xaa"]
    by (auto simp: demo_net_def)
  have "preferred (n_transport demo_net) = 0" by (simp add: demo_net_def)
  note m = demo_membership(1) [OF demo_env_answers this, of 900]
  have "length [n] = 1" by simp
  with pinned_members_verified [OF demo_codec run] run m show ?thesis by blast
qed

text \<open>
  The chain id a sync is keyed by: a check of the id that succeeds leaves it cached, and when an
  expected id is configured and no other id was cached before, it is that one.
\<close>

lemma chain_id_cached:
  "chain_id_ok cfg s \<Longrightarrow> chain_id env cfg s = Some (Inr i, s') \<Longrightarrow>
     chain_id_ok cfg s' \<and> n_chain_id s' = i \<and>
     (\<forall>e. cc_expected_chain_id cfg = Some e \<longrightarrow> i = e)"
  using chain_id_spec [of env cfg s "Inr i" s'] by (auto simp: chain_id_ok_def)

text \<open>Two log fetches of different tasks over the same transport, the second served by another
  endpoint between the first one's answer and its head check.\<close>

definition lagging_logs :: "log_filter \<times> u64 \<times> u64 \<Rightarrow> nat \<Rightarrow> unit \<Rightarrow> log list outcome \<times> unit" where
  "lagging_logs q i w =
     (if (lf_topic0 (fst q) = []) = (i = 1) then Served [] else TimedOut, w)"

definition lagging_head :: "unit \<Rightarrow> nat \<Rightarrow> unit \<Rightarrow> u64 outcome \<times> unit" where
  "lagging_head u i w = (Served (if i = 0 then 100 else 5), w)"

definition lagging_env :: "unit env" where
  "lagging_env = demo_env\<lparr>e_get_logs := lagging_logs, e_block_number := lagging_head\<rparr>"

definition two_cfg :: chain_config where
  "two_cfg = demo_cfg\<lparr>cc_endpoints := two_endpoints\<rparr>"

text \<open>
  C30: with a second task fetching logs through the same transport, the head check can be asked
  about the wrong endpoint. The registry sync's logs for blocks 1 to 10 come from the endpoint
  whose head is 5; before its check runs, the settlement sync's fetch is served by the other
  endpoint; the check then passes although no endpoint that served those logs ever announced a
  head of 10.
\<close>

theorem interleaved_fetch_defeats_head_check:
  "\<exists>s1 s2 s3.
     get_logs lagging_env two_cfg \<lparr>lf_addresses = [0xbb], lf_topic0 = []\<rparr> 1 10 demo_net =
       Some (Inr [], s1) \<and>
     get_logs lagging_env two_cfg \<lparr>lf_addresses = [0xcc], lf_topic0 = [1]\<rparr> 1 10 s1 =
       Some (Inr [], s2) \<and>
     check_logs_endpoint_head lagging_env two_cfg 10 10 s2 = Some (Inr (), s3) \<and>
     \<not> logs_trusted lagging_env \<lparr>lf_addresses = [0xbb], lf_topic0 = []\<rparr> 1 10 [] 10"
proof -
  let ?s1 = "demo_net\<lparr>n_transport := \<lparr>preferred = 1, logs_served_by = 1\<rparr>\<rparr>"
  let ?s2 = "demo_net\<lparr>n_transport := \<lparr>preferred = 0, logs_served_by = 0\<rparr>\<rparr>"
  have env: "e_get_logs lagging_env = lagging_logs" "e_block_number lagging_env = lagging_head"
    by (simp_all add: lagging_env_def)
  have cfg: "cc_endpoints two_cfg = two_endpoints" by (simp add: two_cfg_def)
  have "get_logs lagging_env two_cfg \<lparr>lf_addresses = [0xbb], lf_topic0 = []\<rparr> 1 10 demo_net =
      Some (Inr [], ?s1)"
    by (simp add: get_logs_def rpc_request_def env cfg request_def two_endpoints_def lagging_logs_def
        demo_net_def upt_rec Let_def)
  moreover have "get_logs lagging_env two_cfg \<lparr>lf_addresses = [0xcc], lf_topic0 = [1]\<rparr> 1 10 ?s1 =
      Some (Inr [], ?s2)"
    by (simp add: get_logs_def rpc_request_def env cfg request_def two_endpoints_def lagging_logs_def
        demo_net_def upt_rec Let_def)
  moreover have "check_logs_endpoint_head lagging_env two_cfg 10 10 ?s2 = Some (Inr (), ?s2)"
    by (simp add: check_logs_endpoint_head_def head_check_window_def sat_sub_def env cfg
        block_number_on_def two_endpoints_def lagging_head_def demo_net_def Let_def)
  moreover have "\<not> logs_trusted lagging_env \<lparr>lf_addresses = [0xbb], lf_topic0 = []\<rparr> 1 10 [] 10"
  proof
    assume "logs_trusted lagging_env \<lparr>lf_addresses = [0xbb], lf_topic0 = []\<rparr> 1 10 [] 10"
    then obtain i head where "endpoint_gave lagging_logs i (\<lparr>lf_addresses = [0xbb], lf_topic0 = []\<rparr>, 1, 10) []"
      and "head_announced lagging_env i head" and "10 \<le> head"
      by (auto simp: logs_trusted_def env)
    then show False
      by (auto simp: endpoint_gave_def lagging_logs_def head_announced_def env lagging_head_def
          split: if_splits)
  qed
  ultimately show ?thesis by blast
qed

end
