(* ===== verification/Settled.thy ===== *)
theory Settled
  imports Chain "HOL-Library.Product_Lexorder"
begin

text \<open>
  The data of \<^verbatim>\<open>src/chain/settlement.rs\<close>: which contracts are followed, the decoded
  settlement and claim logs, and the totals per exit and asset that are published.
\<close>

section \<open>Configuration\<close>

record settlement_config =
  sc_entry_point :: address
  sc_reward_pool :: "address option"
  sc_from_block :: u64

text \<open>A configured value, trimmed; white space alone counts as unset.\<close>

definition set_value :: "string option \<Rightarrow> string option" where
  "set_value v = (case map_option trim v of Some [] \<Rightarrow> None | t \<Rightarrow> t)"

definition parse_config_address :: "'z ext_scheme \<Rightarrow> string \<Rightarrow> string \<Rightarrow> address res" where
  "parse_config_address x name v =
     (case x_addr_parse x (trim v) of
        Inl e \<Rightarrow> Inl (''Invalid '' @ name @ '' '' @ squote @ v @ squote @ '': '' @ e)
      | Inr a \<Rightarrow> Inr a)"

definition settlement_config_new ::
  "'z ext_scheme \<Rightarrow> string option \<Rightarrow> string option \<Rightarrow> u64 \<Rightarrow> settlement_config option res" where
  "settlement_config_new x entry_point reward_pool from_block =
     (case set_value entry_point of
        None \<Rightarrow> if set_value reward_pool \<noteq> None
                 then Inl ''REWARD_POOL_ADDRESS requires ENTRY_POINT_ADDRESS'' else Inr None
      | Some ep \<Rightarrow>
          (case parse_config_address x ''ENTRY_POINT_ADDRESS'' ep of
             Inl e \<Rightarrow> Inl e
           | Inr entry \<Rightarrow>
               (case set_value reward_pool of
                  None \<Rightarrow> Inr (Some \<lparr>sc_entry_point = entry, sc_reward_pool = None,
                                     sc_from_block = from_block\<rparr>)
                | Some pool_text \<Rightarrow>
                    (case parse_config_address x ''REWARD_POOL_ADDRESS'' pool_text of
                       Inl e \<Rightarrow> Inl e
                     | Inr pool \<Rightarrow> Inr (Some \<lparr>sc_entry_point = entry, sc_reward_pool = Some pool,
                                              sc_from_block = from_block\<rparr>)))))"

definition key_of_address :: "'z ext_scheme \<Rightarrow> address \<Rightarrow> string" where
  "key_of_address x a = to_lowercase (x_addr_text x a)"

definition hex_bytes32 :: "'z ext_scheme \<Rightarrow> bytes \<Rightarrow> string" where
  "hex_bytes32 x b = ''0x'' @ x_hex x b"

definition source_key :: "'z ext_scheme \<Rightarrow> settlement_config \<Rightarrow> string" where
  "source_key x c =
     (case sc_reward_pool c of
        Some pool \<Rightarrow> key_of_address x (sc_entry_point c) @ ''|'' @ key_of_address x pool
      | None \<Rightarrow> key_of_address x (sc_entry_point c))"

definition settlement_filter :: "'z ext_scheme \<Rightarrow> settlement_config \<Rightarrow> log_filter" where
  "settlement_filter x c =
     (case sc_reward_pool c of
        Some pool \<Rightarrow> \<lparr>lf_addresses = [sc_entry_point c, pool],
                      lf_topic0 = [x_settled_topic x, x_claimed_topic x]\<rparr>
      | None \<Rightarrow> \<lparr>lf_addresses = [sc_entry_point c], lf_topic0 = [x_settled_topic x]\<rparr>)"

section \<open>Decoded logs\<close>

record paid_settlement =
  ps_tx_hash :: string
  ps_log_index :: u64
  ps_block_number :: u64
  ps_block_timestamp :: u64
  ps_execution_id :: string
  ps_payment_id :: string
  ps_exit_address :: string
  ps_fee_asset :: string
  ps_exit_fee :: string
  ps_network_fee :: string
  ps_action_target :: string
  ps_action_success :: bool

record exit_credit_claim =
  xc_tx_hash :: string
  xc_log_index :: u64
  xc_block_number :: u64
  xc_block_timestamp :: u64
  xc_exit_address :: string
  xc_recipient :: string
  xc_asset :: string
  xc_amount :: string

datatype settlement_log = Settled paid_settlement | Claimed exit_credit_claim

definition log_block :: "settlement_log \<Rightarrow> u64" where
  "log_block entry =
     (case entry of Settled s \<Rightarrow> ps_block_number s | Claimed c \<Rightarrow> xc_block_number c)"

definition set_timestamp :: "u64 \<Rightarrow> settlement_log \<Rightarrow> settlement_log" where
  "set_timestamp t entry =
     (case entry of
        Settled s \<Rightarrow> Settled (s\<lparr>ps_block_timestamp := t\<rparr>)
      | Claimed c \<Rightarrow> Claimed (c\<lparr>xc_block_timestamp := t\<rparr>))"

text \<open>The two kinds of log, once the fields every log needs are there.\<close>

definition decode_settled ::
  "'z ext_scheme \<Rightarrow> log \<Rightarrow> string \<Rightarrow> u64 \<Rightarrow> u64 \<Rightarrow> settlement_log option" where
  "decode_settled x lg tx_hash log_index block_number =
     map_option (\<lambda>e. Settled
         \<lparr>ps_tx_hash = tx_hash, ps_log_index = log_index, ps_block_number = block_number,
          ps_block_timestamp = 0, ps_execution_id = hex_bytes32 x (se_execution_id e),
          ps_payment_id = hex_bytes32 x (se_payment_id e),
          ps_exit_address = key_of_address x (se_exit e),
          ps_fee_asset = key_of_address x (se_fee_asset e),
          ps_exit_fee = u256_str (se_exit_fee e), ps_network_fee = u256_str (se_network_fee e),
          ps_action_target = key_of_address x (se_action_target e),
          ps_action_success = se_action_success e\<rparr>)
       (x_decode_settled x (lg_topics lg) (lg_data lg))"

definition decode_claimed ::
  "'z ext_scheme \<Rightarrow> log \<Rightarrow> string \<Rightarrow> u64 \<Rightarrow> u64 \<Rightarrow> settlement_log option" where
  "decode_claimed x lg tx_hash log_index block_number =
     map_option (\<lambda>e. Claimed
         \<lparr>xc_tx_hash = tx_hash, xc_log_index = log_index, xc_block_number = block_number,
          xc_block_timestamp = 0, xc_exit_address = key_of_address x (ce_exit e),
          xc_recipient = key_of_address x (ce_recipient e), xc_asset = key_of_address x (ce_asset e),
          xc_amount = u256_str (ce_amount e)\<rparr>)
       (x_decode_claimed x (lg_topics lg) (lg_data lg))"

text \<open>None is the panic of \<open>as_u64\<close> on a log index above 64 bits.\<close>

definition decode_settlement_log ::
  "'z ext_scheme \<Rightarrow> settlement_config \<Rightarrow> log \<Rightarrow> settlement_log option option" where
  "decode_settlement_log x c lg =
     (if lg_removed lg = Some True then Some None
      else (case (lg_topics lg, lg_tx_hash lg, lg_log_index lg) of
              (topic0 # _, Some tx, Some index) \<Rightarrow>
                (case as_u64 index of
                   None \<Rightarrow> None
                 | Some log_index \<Rightarrow>
                     (case lg_block_number lg of
                        None \<Rightarrow> Some None
                      | Some block_number \<Rightarrow>
                          if lg_address lg = sc_entry_point c \<and> topic0 = x_settled_topic x
                          then Some (decode_settled x lg (x_u256_hex x tx) log_index block_number)
                          else if Some (lg_address lg) = sc_reward_pool c \<and> topic0 = x_claimed_topic x
                          then Some (decode_claimed x lg (x_u256_hex x tx) log_index block_number)
                          else Some None))
            | _ \<Rightarrow> Some None))"

fun decode_settlement_logs ::
  "'z ext_scheme \<Rightarrow> settlement_config \<Rightarrow> log list \<Rightarrow> settlement_log list option" where
  "decode_settlement_logs x c [] = Some []"
| "decode_settlement_logs x c (lg # lgs) =
     (case decode_settlement_log x c lg of
        None \<Rightarrow> None
      | Some None \<Rightarrow> decode_settlement_logs x c lgs
      | Some (Some entry) \<Rightarrow> map_option (\<lambda>es. entry # es) (decode_settlement_logs x c lgs))"

section \<open>Totals\<close>

record settled_totals_row =
  st_exit_address :: string
  st_fee_asset :: string
  st_executions :: i64
  st_exit_fees :: string
  st_network_fees :: string

record claimed_totals_row =
  ct_exit_address :: string
  ct_asset :: string
  ct_claimed :: string

record exit_totals =
  xt_exit_address :: string
  xt_fee_asset :: string
  xt_executions :: u64
  xt_exit_fees :: string
  xt_network_fees :: string
  xt_claimed :: string
  xt_claimable :: "string option"

record pool_asset_gauge =
  pg_asset :: string
  pg_total_collected :: string
  pg_total_distributed :: string
  pg_network_outstanding :: string
  pg_exit_outstanding :: string

record settlement_status =
  ss_enabled :: bool
  ss_entry_point :: "string option"
  ss_reward_pool :: "string option"
  ss_last_block :: "u64 option"
  ss_last_synced_at_ms :: "i64 option"
  ss_executions :: u64
  ss_exits :: "exit_totals list"
  ss_pool :: "pool_asset_gauge list"
  ss_pool_read_block :: "u64 option"
  ss_last_error :: "string option"

definition default_settlement_status :: settlement_status where
  "default_settlement_status =
     \<lparr>ss_enabled = False, ss_entry_point = None, ss_reward_pool = None, ss_last_block = None,
      ss_last_synced_at_ms = None, ss_executions = 0, ss_exits = [], ss_pool = [],
      ss_pool_read_block = None, ss_last_error = None\<rparr>"

text \<open>
  A \<open>BTreeMap\<close> from (exit, asset) as its entries in key order: \<open>btree_insert\<close> replaces the
  value of an existing key, \<open>btree_default\<close> is \<open>entry(..).or_insert_with(..)\<close> followed by an
  update of the value.
\<close>

fun btree_update :: "('k::linorder) \<Rightarrow> ('v option \<Rightarrow> 'v) \<Rightarrow> ('k \<times> 'v) list \<Rightarrow> ('k \<times> 'v) list" where
  "btree_update k f [] = [(k, f None)]"
| "btree_update k f ((k', v) # m) =
     (if k < k' then (k, f None) # (k', v) # m
      else if k = k' then (k, f (Some v)) # m
      else (k', v) # btree_update k f m)"

definition settled_totals :: "settled_totals_row \<Rightarrow> exit_totals" where
  "settled_totals row =
     \<lparr>xt_exit_address = st_exit_address row, xt_fee_asset = st_fee_asset row,
      xt_executions = (case u64_of_i64 (st_executions row) of Some n \<Rightarrow> n | None \<Rightarrow> 0),
      xt_exit_fees = st_exit_fees row, xt_network_fees = st_network_fees row,
      xt_claimed = ''0'', xt_claimable = None\<rparr>"

definition claimed_totals :: "claimed_totals_row \<Rightarrow> exit_totals option \<Rightarrow> exit_totals" where
  "claimed_totals row existing =
     (case existing of
        Some t \<Rightarrow> t
      | None \<Rightarrow> \<lparr>xt_exit_address = ct_exit_address row, xt_fee_asset = ct_asset row,
                 xt_executions = 0, xt_exit_fees = ''0'', xt_network_fees = ''0'',
                 xt_claimed = ''0'', xt_claimable = None\<rparr>)\<lparr>xt_claimed := ct_claimed row\<rparr>"

definition merge_totals ::
  "settled_totals_row list \<Rightarrow> claimed_totals_row list \<Rightarrow> exit_totals list" where
  "merge_totals settled claimed =
     map snd
       (foldl (\<lambda>m row. btree_update (ct_exit_address row, ct_asset row) (claimed_totals row) m)
         (foldl (\<lambda>m row. btree_update (st_exit_address row, st_fee_asset row)
                    (\<lambda>_. settled_totals row) m) [] settled)
         claimed)"

section \<open>The totals are a full outer join\<close>

text \<open>A map in key order is determined by its lookups.\<close>

definition btree_ok :: "(('k::linorder) \<times> 'v) list \<Rightarrow> bool" where
  "btree_ok m \<longleftrightarrow> sorted_wrt (<) (map fst m)"

lemma btree_keys: "set (map fst (btree_update k f m)) = insert k (set (map fst m))"
  by (induction k f m rule: btree_update.induct) auto

lemma btree_ok_update: "btree_ok m \<Longrightarrow> btree_ok (btree_update k f m)"
proof (induction k f m rule: btree_update.induct)
  case (2 k f k' v m)
  have "k' < q" if "k' < k" "q \<in> set (map fst (btree_update k f m))" for q
    using that "2.prems" unfolding btree_keys by (auto simp: btree_ok_def)
  with 2 show ?case by (auto simp: btree_ok_def)
qed (simp add: btree_ok_def)

lemma btree_get_update:
  "btree_ok m \<Longrightarrow> map_of (btree_update k f m) = (map_of m)(k \<mapsto> f (map_of m k))"
proof (induction k f m rule: btree_update.induct)
  case (2 k f k' v m)
  have "map_of m k = None" if "k < k'"
    using that "2.prems" by (force simp: btree_ok_def map_of_eq_None_iff)
  with 2 show ?case by (auto simp: btree_ok_def fun_eq_iff)
qed auto

lemma btree_entries:
  assumes "btree_ok m"
  shows "m = map (\<lambda>k. (k, the (map_of m k))) (sorted_list_of_set (dom (map_of m)))"
proof -
  have "sorted (map fst m)" and "distinct (map fst m)"
    using assms unfolding btree_ok_def by (simp_all add: strict_sorted_iff)
  then have keys: "sorted_list_of_set (dom (map_of m)) = map fst m"
    unfolding dom_map_of_conv_image_fst by (metis list.set_map sorted_list_of_set.idem_if_sorted_distinct)
  have "map (\<lambda>k. (k, the (map_of m k))) (map fst m) = map id m"
    unfolding map_map using \<open>distinct (map fst m)\<close> by (intro map_cong) (auto simp: map_of_is_SomeI)
  with keys show ?thesis by simp
qed

text \<open>The last row with a key, and the totals of a key.\<close>

definition last_row :: "('r \<Rightarrow> 'k) \<Rightarrow> 'r list \<Rightarrow> 'k \<Rightarrow> 'r option" where
  "last_row key rows k = find (\<lambda>r. key r = k) (rev rows)"

lemma last_row_Nil [simp]: "last_row key [] k = None"
  by (simp add: last_row_def)

lemma last_row_snoc [simp]:
  "last_row key (rows @ [r]) k = (if key r = k then Some r else last_row key rows k)"
  by (simp add: last_row_def)

lemma last_row_None: "last_row key rows k = None \<longleftrightarrow> k \<notin> key ` set rows"
  by (auto simp: last_row_def find_None_iff)

lemma last_row_key: "last_row key rows k = Some r \<Longrightarrow> key r = k"
  by (auto simp: last_row_def find_Some_iff)

definition settled_key :: "settled_totals_row \<Rightarrow> string \<times> string" where
  "settled_key row = (st_exit_address row, st_fee_asset row)"

definition claimed_key :: "claimed_totals_row \<Rightarrow> string \<times> string" where
  "claimed_key row = (ct_exit_address row, ct_asset row)"

definition joined_totals ::
  "string \<times> string \<Rightarrow> settled_totals_row option \<Rightarrow> claimed_totals_row option \<Rightarrow> exit_totals" where
  "joined_totals k settled claimed =
     \<lparr>xt_exit_address = fst k, xt_fee_asset = snd k,
      xt_executions = (case settled of None \<Rightarrow> 0 | Some row \<Rightarrow>
         (case u64_of_i64 (st_executions row) of Some n \<Rightarrow> n | None \<Rightarrow> 0)),
      xt_exit_fees = (case settled of None \<Rightarrow> ''0'' | Some row \<Rightarrow> st_exit_fees row),
      xt_network_fees = (case settled of None \<Rightarrow> ''0'' | Some row \<Rightarrow> st_network_fees row),
      xt_claimed = (case claimed of None \<Rightarrow> ''0'' | Some row \<Rightarrow> ct_claimed row),
      xt_claimable = None\<rparr>"

lemma settled_fold:
  fixes rows :: "settled_totals_row list"
  defines "m \<equiv> foldl (\<lambda>m row. btree_update (st_exit_address row, st_fee_asset row)
                    (\<lambda>_. settled_totals row) m) [] rows"
  shows "btree_ok m \<and> map_of m = (\<lambda>k. map_option settled_totals (last_row settled_key rows k))"
  unfolding m_def
proof (induction rows rule: rev_induct)
  case (snoc r rows)
  then show ?case by (auto simp: btree_ok_update btree_get_update settled_key_def fun_eq_iff)
qed (simp add: btree_ok_def fun_eq_iff)

lemma merged_fold:
  fixes rows :: "claimed_totals_row list"
  assumes "btree_ok m"
    and "map_of m = (\<lambda>k. map_option settled_totals (last_row settled_key settled k))"
  defines "m' \<equiv> foldl (\<lambda>m row. btree_update (ct_exit_address row, ct_asset row) (claimed_totals row) m) m rows"
  shows "btree_ok m' \<and> map_of m' = (\<lambda>k.
     if k \<in> settled_key ` set settled \<union> claimed_key ` set rows
     then Some (joined_totals k (last_row settled_key settled k) (last_row claimed_key rows k))
     else None)"
  unfolding m'_def
proof (induction rows rule: rev_induct)
  case Nil
  have "map_of m k = (if k \<in> settled_key ` set settled
      then Some (joined_totals k (last_row settled_key settled k) None) else None)" for k
  proof (cases "last_row settled_key settled k")
    case None
    with assms(2) show ?thesis by (simp add: last_row_None)
  next
    case (Some r)
    then have "k \<in> settled_key ` set settled" using last_row_None [of settled_key settled k] by force
    with Some last_row_key [OF Some] assms(2) show ?thesis
      by (simp add: settled_totals_def joined_totals_def settled_key_def split: option.split) force
  qed
  with assms(1) show ?case by (auto simp: fun_eq_iff)
next
  case (snoc r rows)
  let ?k = "(ct_exit_address r, ct_asset r)"
  have "claimed_totals r (if ?k \<in> settled_key ` set settled \<union> claimed_key ` set rows
      then Some (joined_totals ?k (last_row settled_key settled ?k) c) else None)
      = joined_totals ?k (last_row settled_key settled ?k) (Some r)" for c
  proof -
    have "last_row settled_key settled ?k = None" if "?k \<notin> settled_key ` set settled"
      using that by (simp add: last_row_None)
    then show ?thesis by (auto simp: claimed_totals_def joined_totals_def simp del: last_row_None)
  qed
  with snoc show ?case
    by (auto simp: btree_ok_update btree_get_update claimed_key_def fun_eq_iff)
qed

lemma merge_totals_join:
  "merge_totals settled claimed =
     map (\<lambda>k. joined_totals k (last_row settled_key settled k) (last_row claimed_key claimed k))
       (sorted_list_of_set (settled_key ` set settled \<union> claimed_key ` set claimed))"
proof -
  let ?keys = "settled_key ` set settled \<union> claimed_key ` set claimed"
  define m1 where "m1 = foldl (\<lambda>m row. btree_update (st_exit_address row, st_fee_asset row)
                    (\<lambda>_. settled_totals row) m) [] settled"
  define m where "m = foldl (\<lambda>m row. btree_update (ct_exit_address row, ct_asset row)
                    (claimed_totals row) m) m1 claimed"
  have m: "btree_ok m" and get: "map_of m = (\<lambda>k. if k \<in> ?keys
      then Some (joined_totals k (last_row settled_key settled k) (last_row claimed_key claimed k))
      else None)"
    using merged_fold [of m1 settled claimed] settled_fold [of settled] by (simp_all add: m1_def m_def)
  have dom: "dom (map_of m) = ?keys" unfolding get by (auto simp: dom_def)
  have fin: "finite ?keys" by simp
  have "merge_totals settled claimed = map snd m" by (simp add: merge_totals_def m_def m1_def)
  also have "\<dots> = map (\<lambda>k. the (map_of m k)) (sorted_list_of_set ?keys)"
    by (subst btree_entries [OF m]) (simp add: dom comp_def)
  also have "\<dots> = map (\<lambda>k. joined_totals k (last_row settled_key settled k)
      (last_row claimed_key claimed k)) (sorted_list_of_set ?keys)"
    unfolding get using fin by (intro map_cong) auto
  finally show ?thesis .
qed

section \<open>Properties\<close>

text \<open>
  C32: the published totals are the full outer join of the two aggregates: one entry per exit and
  asset that has a settlement or a claim, in increasing order of exit and asset, with zero for
  the missing side. As a query returns one row per key, the order of its rows does not matter.
\<close>

theorem totals_are_outer_join:
  "merge_totals settled claimed =
     map (\<lambda>k. joined_totals k (last_row settled_key settled k) (last_row claimed_key claimed k))
       (sorted_list_of_set (settled_key ` set settled \<union> claimed_key ` set claimed))"
  by (rule merge_totals_join)

end
