(* ===== verification/Float64.thy ===== *)
theory Float64
  imports Prelude
begin

text \<open>
  Rust's \<open>f64\<close>: a real number, an infinity or NaN. Arithmetic is the exact result rounded to
  the nearest representable number, ties to even, with subnormals and overflow to infinity
  (IEEE 754 binary64, the only rounding mode Rust uses). The sign of zero is not kept: no
  comparison, sum or test of the program depends on it.
\<close>

section \<open>Rounding\<close>

definition round_even :: "real \<Rightarrow> int" where
  "round_even y =
     (let f = \<lfloor>y\<rfloor>; d = y - of_int f
      in if d < 1 / 2 then f else if 1 / 2 < d then f + 1 else if even f then f else f + 1)"

text \<open>The exponent of the unit in the last place at \<open>x\<close>.\<close>

definition ulp_exp :: "real \<Rightarrow> int" where
  "ulp_exp x = max (\<lfloor>log 2 \<bar>x\<bar>\<rfloor> - 52) (- 1074)"

definition ulp :: "real \<Rightarrow> real" where
  "ulp x = 2 powi ulp_exp x"

definition rnd :: "real \<Rightarrow> real" where
  "rnd x = (if x = 0 then 0 else ulp x * of_int (round_even (x / ulp x)))"

text \<open>The reals with a binary64 encoding, the exponent unbounded above.\<close>

definition representable :: "real \<Rightarrow> bool" where
  "representable x \<longleftrightarrow> (\<exists>m e :: int. x = of_int m * 2 powi e \<and> \<bar>m\<bar> \<le> 2 ^ 53 \<and> - 1074 \<le> e)"

lemma round_even_near: "\<bar>of_int (round_even y) - y\<bar> \<le> 1 / 2"
  unfolding round_even_def Let_def using floor_correct [of y] by (auto simp: abs_if) linarith+

lemma round_even_nearest: "\<bar>of_int (round_even y) - y\<bar> \<le> \<bar>of_int k - y\<bar>"
proof (cases "k = round_even y")
  case False
  then have "1 \<le> \<bar>k - round_even y\<bar>" by simp
  then have "1 \<le> real_of_int \<bar>k - round_even y\<bar>" by linarith
  then have "1 \<le> \<bar>real_of_int k - real_of_int (round_even y)\<bar>" by simp
  with round_even_near [of y] show ?thesis by linarith
qed simp

lemma ulp_pos [simp]: "0 < ulp x"
  by (simp add: ulp_def)

lemma rnd_0 [simp]: "rnd 0 = 0"
  by (simp add: rnd_def)

text \<open>Rounding picks a nearest multiple of the unit in the last place.\<close>

lemma rnd_nearest_multiple: "\<bar>rnd x - x\<bar> \<le> \<bar>of_int k * ulp x - x\<bar>"
proof (cases "x = 0")
  case False
  let ?u = "ulp x"
  have scale: "\<bar>of_int j - x / ?u\<bar> * ?u = \<bar>of_int j * ?u - x\<bar>" for j
  proof -
    have "(of_int j - x / ?u) * ?u = of_int j * ?u - x"
      using ulp_pos [of x] by (simp add: left_diff_distrib del: ulp_pos)
    then show ?thesis using ulp_pos [of x] by (metis abs_mult abs_of_pos)
  qed
  have "\<bar>of_int (round_even (x / ?u)) - x / ?u\<bar> * ?u \<le> \<bar>of_int k - x / ?u\<bar> * ?u"
    by (intro mult_right_mono round_even_nearest) (simp add: less_imp_le)
  then have "\<bar>of_int (round_even (x / ?u)) * ?u - x\<bar> \<le> \<bar>of_int k * ?u - x\<bar>"
    unfolding scale .
  then show ?thesis using False by (simp add: rnd_def mult.commute)
qed simp


lemma powi_le: "a \<le> b \<Longrightarrow> (2 :: real) powi a \<le> 2 powi b"
  by (rule power_int_increasing) simp_all

text \<open>A number with a smaller exponent than the unit at \<open>x\<close> is at most the lower end of the
  binade of \<open>x\<close>.\<close>

lemma binade_floor:
  assumes "x \<noteq> 0" and "- 1074 < ulp_exp x"
  shows "2 powi (ulp_exp x + 52) \<le> \<bar>x\<bar>"
proof -
  from assms(2) have e: "ulp_exp x + 52 = \<lfloor>log 2 \<bar>x\<bar>\<rfloor>" by (simp add: ulp_exp_def max_def split: if_splits)
  have "2 powr of_int \<lfloor>log 2 \<bar>x\<bar>\<rfloor> \<le> 2 powr log 2 \<bar>x\<bar>" by (intro powr_mono) simp_all
  also have "\<dots> = \<bar>x\<bar>" using assms(1) by simp
  finally show ?thesis by (simp add: e powr_real_of_int')
qed

lemma binade_ceiling:
  assumes "x \<noteq> 0"
  shows "\<bar>x\<bar> < 2 powi (ulp_exp x + 53)"
proof -
  have "\<bar>x\<bar> = 2 powr log 2 \<bar>x\<bar>" using assms by simp
  also have "\<dots> < 2 powr of_int (ulp_exp x + 53)"
    by (intro powr_less_mono) (simp_all add: ulp_exp_def, linarith)
  also have "\<dots> = 2 powi (ulp_exp x + 53)" by (rule powr_real_of_int') simp_all
  finally show ?thesis .
qed

lemma representable_cases:
  assumes "representable z" and "x \<noteq> 0"
  obtains k :: int where "z = of_int k * ulp x"
  | "\<bar>z\<bar> \<le> 2 powi (ulp_exp x + 52)" and "2 powi (ulp_exp x + 52) \<le> \<bar>x\<bar>"
proof -
  obtain m e where z: "z = of_int m * 2 powi e" and m: "\<bar>m\<bar> \<le> 2 ^ 53" and e: "- 1074 \<le> e"
    using assms(1) unfolding representable_def by blast
  show ?thesis
  proof (cases "ulp_exp x \<le> e")
    case True
    then have "(2 :: real) powi (e - ulp_exp x) = 2 ^ nat (e - ulp_exp x)"
      by (simp add: power_int_def)
    moreover have "(2 :: real) powi e = 2 powi (e - ulp_exp x) * 2 powi ulp_exp x"
      by (simp flip: power_int_add)
    ultimately have "(2 :: real) powi e = 2 ^ nat (e - ulp_exp x) * ulp x" by (simp add: ulp_def)
    then have "z = of_int (m * 2 ^ nat (e - ulp_exp x)) * ulp x" by (simp add: z)
    with that(1) show ?thesis .
  next
    case False
    have "\<bar>z\<bar> = of_int \<bar>m\<bar> * 2 powi e" by (simp add: z abs_mult)
    also have "\<dots> \<le> 2 ^ 53 * 2 powi (ulp_exp x - 1)"
      using m False by (intro mult_mono powi_le) (simp_all flip: of_int_le_iff)
    also have "\<dots> = 2 powi (ulp_exp x + 52)"
      by (simp add: power_int_diff power_int_add)
    finally show ?thesis using that(2) binade_floor [OF assms(2)] False e by simp
  qed
qed

lemma binade_bound_multiple:
  "(2 :: real) powi (ulp_exp x + 52) = of_int (2 ^ 52) * ulp x"
  by (simp add: ulp_def power_int_add)

text \<open>No representable number is nearer to \<open>x\<close> than \<open>rnd x\<close>.\<close>

lemma rnd_nearest:
  assumes "representable z"
  shows "\<bar>rnd x - x\<bar> \<le> \<bar>z - x\<bar>"
proof (cases "x = 0")
  case False
  from representable_cases [OF assms False] show ?thesis
  proof cases
    case (1 k)
    then show ?thesis using rnd_nearest_multiple [of x k] by simp
  next
    case 2
    let ?b = "2 powi (ulp_exp x + 52) :: real"
    have "\<bar>rnd x - x\<bar> \<le> \<bar>?b - x\<bar>" "\<bar>rnd x - x\<bar> \<le> \<bar>- ?b - x\<bar>"
      unfolding binade_bound_multiple
      using rnd_nearest_multiple [of x "2 ^ 52"] rnd_nearest_multiple [of x "- (2 ^ 52)"] by simp_all
    with 2 show ?thesis by (cases "0 < x") (auto simp: abs_if split: if_splits)
  qed
qed simp

lemma rnd_representable_id [simp]: "representable x \<Longrightarrow> rnd x = x"
  using rnd_nearest [of x x] by simp

lemma representable_of_int:
  assumes "\<bar>n\<bar> \<le> 2 ^ 53"
  shows "representable (of_int n)"
proof -
  have "(of_int n :: real) = of_int n * 2 powi 0 \<and> \<bar>n\<bar> \<le> 2 ^ 53 \<and> - 1074 \<le> (0 :: int)"
    using assms by simp
  then show ?thesis unfolding representable_def by blast
qed

lemma representable_rnd: "representable (rnd x)"
proof (cases "x = 0")
  case True
  then show ?thesis using representable_of_int [of 0] by simp
next
  case False
  let ?k = "round_even (x / ulp x)"
  have "\<bar>x\<bar> < 2 ^ 53 * ulp x" using binade_ceiling [OF False] by (simp add: ulp_def power_int_add)
  then have "\<bar>x\<bar> / ulp x < 2 ^ 53" by (simp only: pos_divide_less_eq [OF ulp_pos])
  moreover have "\<bar>x / ulp x\<bar> = \<bar>x\<bar> / ulp x"
    by (simp only: abs_divide abs_of_pos [OF ulp_pos])
  ultimately have "\<bar>x / ulp x\<bar> < 2 ^ 53" by (simp only:)
  with round_even_near [of "x / ulp x"] have "\<bar>real_of_int ?k\<bar> < 2 ^ 53 + 1" by linarith
  then have "real_of_int \<bar>?k\<bar> < of_int (2 ^ 53 + 1)" by simp
  then have "\<bar>?k\<bar> \<le> 2 ^ 53" by (simp only: of_int_less_iff)
  moreover have "rnd x = of_int ?k * 2 powi ulp_exp x" using False by (simp add: rnd_def ulp_def)
  moreover have "- 1074 \<le> ulp_exp x" by (simp add: ulp_exp_def)
  ultimately show ?thesis unfolding representable_def by blast
qed

lemma rnd_mono:
  assumes "x \<le> y"
  shows "rnd x \<le> rnd y"
proof (cases "x = y")
  case False
  show ?thesis
  proof (rule ccontr)
    assume "\<not> rnd x \<le> rnd y"
    moreover have "\<bar>rnd x - x\<bar> \<le> \<bar>rnd y - x\<bar>" "\<bar>rnd y - y\<bar> \<le> \<bar>rnd x - y\<bar>"
      by (intro rnd_nearest representable_rnd)+
    ultimately show False using assms False by (auto simp: abs_if split: if_splits)
  qed
qed simp

lemma rnd_nonneg: "0 \<le> x \<Longrightarrow> 0 \<le> rnd x"
  using rnd_mono [of 0 x] by simp

section \<open>The type\<close>

datatype f64 = Fin real | PInf | NInf | NaN

definition to_f64 :: "real \<Rightarrow> f64" where
  "to_f64 x =
     (let r = rnd x in if 2 ^ 1024 \<le> r then PInf else if r \<le> - (2 ^ 1024) then NInf else Fin r)"

fun f_add :: "f64 \<Rightarrow> f64 \<Rightarrow> f64" where
  "f_add (Fin a) (Fin b) = to_f64 (a + b)"
| "f_add PInf NInf = NaN"
| "f_add NInf PInf = NaN"
| "f_add NaN b = NaN"
| "f_add a NaN = NaN"
| "f_add PInf b = PInf"
| "f_add NInf b = NInf"
| "f_add a PInf = PInf"
| "f_add a NInf = NInf"

fun f_neg :: "f64 \<Rightarrow> f64" where
  "f_neg (Fin a) = Fin (- a)"
| "f_neg PInf = NInf"
| "f_neg NInf = PInf"
| "f_neg NaN = NaN"

definition f_sub :: "f64 \<Rightarrow> f64 \<Rightarrow> f64" where
  "f_sub a b = f_add a (f_neg b)"

definition f_inf :: "bool \<Rightarrow> f64" where
  "f_inf pos = (if pos then PInf else NInf)"

fun f_mul :: "f64 \<Rightarrow> f64 \<Rightarrow> f64" where
  "f_mul (Fin a) (Fin b) = to_f64 (a * b)"
| "f_mul NaN b = NaN"
| "f_mul a NaN = NaN"
| "f_mul (Fin a) PInf = (if a = 0 then NaN else f_inf (0 < a))"
| "f_mul (Fin a) NInf = (if a = 0 then NaN else f_inf (a < 0))"
| "f_mul PInf (Fin b) = (if b = 0 then NaN else f_inf (0 < b))"
| "f_mul NInf (Fin b) = (if b = 0 then NaN else f_inf (b < 0))"
| "f_mul PInf PInf = PInf"
| "f_mul PInf NInf = NInf"
| "f_mul NInf PInf = NInf"
| "f_mul NInf NInf = PInf"

text \<open>Comparisons with NaN are false.\<close>

fun f_less :: "f64 \<Rightarrow> f64 \<Rightarrow> bool" where
  "f_less (Fin a) (Fin b) = (a < b)"
| "f_less (Fin a) PInf = True"
| "f_less NInf (Fin b) = True"
| "f_less NInf PInf = True"
| "f_less a b = False"

definition f_eq :: "f64 \<Rightarrow> f64 \<Rightarrow> bool" where
  "f_eq a b = (a = b \<and> a \<noteq> NaN)"

fun f_finite :: "f64 \<Rightarrow> bool" where
  "f_finite (Fin a) = True"
| "f_finite a = False"

text \<open>\<open>f64::min\<close>: the other operand when one is NaN.\<close>

definition f_min :: "f64 \<Rightarrow> f64 \<Rightarrow> f64" where
  "f_min a b = (if a = NaN then b else if b = NaN then a else if f_less b a then b else a)"

text \<open>\<open>as i64\<close> truncates toward zero and saturates; NaN is 0.\<close>

definition i64_min :: i64 where
  "i64_min = - 9223372036854775808"

definition trunc :: "real \<Rightarrow> int" where
  "trunc a = (if 0 \<le> a then \<lfloor>a\<rfloor> else \<lceil>a\<rceil>)"

fun f_as_i64 :: "f64 \<Rightarrow> i64" where
  "f_as_i64 (Fin a) = max i64_min (min i64_max (trunc a))"
| "f_as_i64 PInf = i64_max"
| "f_as_i64 NInf = i64_min"
| "f_as_i64 NaN = 0"

text \<open>Arithmetic on values that are exact: no rounding and no overflow.\<close>

definition whole :: "real \<Rightarrow> bool" where
  "whole a \<longleftrightarrow> (\<exists>n :: int. a = of_int n \<and> \<bar>n\<bar> \<le> 2 ^ 53)"

lemma to_f64_whole: "whole a \<Longrightarrow> to_f64 a = Fin a"
proof -
  assume "whole a"
  then obtain n :: int where a: "a = of_int n" and n: "\<bar>n\<bar> \<le> 2 ^ 53" unfolding whole_def by blast
  then have r: "rnd a = a" by (simp add: representable_of_int)
  have "real_of_int \<bar>n\<bar> \<le> of_int (2 ^ 53)" using n by (simp only: of_int_le_iff)
  then have "\<bar>a\<bar> \<le> 2 ^ 53" by (simp add: a)
  moreover have "(2 :: real) ^ 53 < 2 ^ 1024" by (rule power_strict_increasing) simp_all
  ultimately show ?thesis by (simp add: to_f64_def r Let_def abs_le_iff)
qed

lemma whole_of_int: "\<bar>n\<bar> \<le> 2 ^ 53 \<Longrightarrow> whole (of_int n)"
  unfolding whole_def by blast

section \<open>Evaluating a rounding\<close>

text \<open>The binade of a positive number and the nearest multiple of its unit determine the result.\<close>

lemma log_powi: "log 2 (2 powi k) = real_of_int k"
proof -
  have "(2 :: real) powi k = 2 powr of_int k" by (rule powr_real_of_int' [symmetric]) simp_all
  then show ?thesis by simp
qed

lemma rnd_eval:
  assumes "2 powi (e + 52) \<le> x" and "x < 2 powi (e + 53)" and "- 1074 \<le> e"
    and "\<bar>x / 2 powi e - of_int m\<bar> < 1 / 2"
  shows "rnd x = of_int m * 2 powi e"
proof -
  have pos: "0 < x" using assms(1) by (rule less_le_trans [rotated]) simp
  have "\<lfloor>log 2 x\<rfloor> = e + 52"
  proof (rule floor_unique)
    have "log 2 (2 powi (e + 52)) \<le> log 2 x" using assms(1) pos by simp
    moreover have "log 2 (2 powi (e + 52)) = of_int (e + 52)" by (rule log_powi)
    ultimately show "of_int (e + 52) \<le> log 2 x" by simp
    have "log 2 x < log 2 (2 powi (e + 53))" using assms(2) pos by simp
    moreover have "log 2 (2 powi (e + 53)) = of_int (e + 53)" by (rule log_powi)
    ultimately show "log 2 x < of_int (e + 52) + 1" by simp
  qed
  with pos assms(3) have u: "ulp x = 2 powi e" by (simp add: ulp_def ulp_exp_def)
  have "round_even (x / 2 powi e) = m"
  proof -
    have "\<bar>real_of_int (round_even (x / 2 powi e)) - of_int m\<bar> < 1"
      using round_even_near [of "x / 2 powi e"] assms(4) by linarith
    then have "\<bar>round_even (x / 2 powi e) - m\<bar> < 1" by linarith
    then show ?thesis by simp
  qed
  with pos u show ?thesis by (simp add: rnd_def mult.commute)
qed

lemma rnd_eval_fraction:
  assumes "2 ^ 52 \<le> x * 2 ^ k" and "x * 2 ^ k < 2 ^ 53" and "k \<le> 1074"
    and "\<bar>x * 2 ^ k - of_int m\<bar> < 1 / 2"
  shows "rnd x = of_int m / 2 ^ k"
proof -
  have u: "(2 :: real) powi (- int k) = 1 / 2 ^ k" by (simp add: power_int_minus divide_inverse)
  have a: "(2 :: real) powi (- int k + 52) = 2 ^ 52 / 2 ^ k"
    and b: "(2 :: real) powi (- int k + 53) = 2 ^ 53 / 2 ^ k"
    by (subst power_int_add; simp add: u)+
  have "rnd x = of_int m * 2 powi (- int k)"
  proof (rule rnd_eval)
    show "2 powi (- int k + 52) \<le> x" unfolding a using assms(1) by (simp only: pos_divide_le_eq zero_less_power zero_less_numeral)
    show "x < 2 powi (- int k + 53)" unfolding b using assms(2) by (simp only: pos_less_divide_eq zero_less_power zero_less_numeral)
    show "- 1074 \<le> - int k" using assms(3) by simp
    show "\<bar>x / 2 powi - int k - of_int m\<bar> < 1 / 2" unfolding u using assms(4) by simp
  qed
  then show ?thesis unfolding u by simp
qed

end
