(* ===== verification/Metrics.thy ===== *)
theory Metrics
  imports Float64
begin

text \<open>
  Model of \<^verbatim>\<open>src/node/metrics.rs\<close>: what a node's exporter reports, and the checks on the
  parts of the report that are not plain numbers. The counters that must survive a restart are
  one enumeration, shared with the offsets.
\<close>

section \<open>The report\<close>

datatype counter =
    UptimeSeconds | PacketsReceived | PacketsForwarded | CoverLoopGenerated | CoverDropGenerated
  | SphinxErrors | ReplayDuplicate | CumulativeAuthorizedRevenueUsd | CumulativeCostUsd
  | CumulativeMaximumCostUsd | ExitPayloadsDispatched | ExitEcho | ExitHttp | ExitRpc
  | ExitBroadcast | ExitEthereum | ExitTraffic | ProfitableCount | UnprofitableCount
  | EthTransactionsSubmitted | EgressForwarded | EgressExited

definition all_counters :: "counter list" where
  "all_counters =
     [UptimeSeconds, PacketsReceived, PacketsForwarded, CoverLoopGenerated, CoverDropGenerated,
      SphinxErrors, ReplayDuplicate, CumulativeAuthorizedRevenueUsd, CumulativeCostUsd,
      CumulativeMaximumCostUsd, ExitPayloadsDispatched, ExitEcho, ExitHttp, ExitRpc, ExitBroadcast,
      ExitEthereum, ExitTraffic, ProfitableCount, UnprofitableCount, EthTransactionsSubmitted,
      EgressForwarded, EgressExited]"

lemma all_counters_UNIV: "set all_counters = UNIV"
proof -
  have "c \<in> set all_counters" for c by (cases c) (simp_all add: all_counters_def)
  then show ?thesis by blast
qed

instantiation counter :: enum
begin

definition enum_counter :: "counter list" where
  "enum_counter = all_counters"

definition enum_all_counter :: "(counter \<Rightarrow> bool) \<Rightarrow> bool" where
  "enum_all_counter P = list_all P all_counters"

definition enum_ex_counter :: "(counter \<Rightarrow> bool) \<Rightarrow> bool" where
  "enum_ex_counter P = list_ex P all_counters"

instance
  by standard
    (simp_all add: enum_counter_def enum_all_counter_def enum_ex_counter_def all_counters_UNIV
      list_all_iff list_ex_iff, simp add: all_counters_def)

end

type_synonym cumulative = "counter \<Rightarrow> f64"

record structured_metrics =
  sm_counters :: cumulative
  sm_active_peers :: f64
  sm_node_start_time :: f64
  sm_health_status :: f64
  sm_worker_queue_depth :: f64
  sm_mix_queue_depth :: f64
  sm_egress_queue_depth :: f64
  sm_cover_loop_degraded :: bool
  sm_cover_drop_degraded :: bool
  sm_latency_p50 :: f64
  sm_latency_p95 :: f64
  sm_latency_p99 :: f64
  sm_build_version :: string
  sm_capabilities :: "string list option"
  sm_ingress_response_buffer :: f64
  sm_eth_pending :: f64

section \<open>Fields with their own decoding\<close>

text \<open>A JSON value, integers apart from floats as \<open>serde_json\<close> keeps them.\<close>

datatype json =
    JNull
  | JBool bool
  | JInt int
  | JFloat f64
  | JString string
  | JArray "json list"
  | JObject "(string \<times> json) list"

definition bool_from_number_or_bool :: "json \<Rightarrow> bool res" where
  "bool_from_number_or_bool v =
     (case v of
        JBool b \<Rightarrow> Inr b
      | JInt i \<Rightarrow> Inr (1 \<le> i)
      | JFloat f \<Rightarrow> Inr (f_less (Fin 1) f \<or> f_eq f (Fin 1))
      | _ \<Rightarrow> Inl ''invalid type, expected a boolean or numeric value'')"

definition max_capabilities :: nat where
  "max_capabilities = 32"

definition max_capability_len :: nat where
  "max_capability_len = 64"

definition is_ascii_alphanumeric :: "char \<Rightarrow> bool" where
  "is_ascii_alphanumeric c =
     (let n = (of_char c :: nat) in 48 \<le> n \<and> n \<le> 57 \<or> 65 \<le> n \<and> n \<le> 90 \<or> 97 \<le> n \<and> n \<le> 122)"

definition is_capability_name :: "string \<Rightarrow> bool" where
  "is_capability_name name \<longleftrightarrow>
     name \<noteq> [] \<and> length name \<le> max_capability_len \<and>
     list_all (\<lambda>c. is_ascii_alphanumeric c \<or> c = CHR ''_'' \<or> c = CHR ''-'' \<or> c = CHR ''.'') name"

fun capability_names :: "json list \<Rightarrow> string list option" where
  "capability_names [] = Some []"
| "capability_names (entry # entries) =
     (case entry of
        JString name \<Rightarrow>
          if is_capability_name name
          then map_option (\<lambda>names. name # names) (capability_names entries) else None
      | _ \<Rightarrow> None)"

definition capabilities_from_json :: "json \<Rightarrow> string list option" where
  "capabilities_from_json v =
     (case v of
        JArray entries \<Rightarrow>
          if max_capabilities < length entries then None
          else map_option (\<lambda>names. remdups_adj (sort names)) (capability_names entries)
      | _ \<Rightarrow> None)"

definition max_build_version_len :: nat where
  "max_build_version_len = 128"

definition is_ascii_graphic :: "char \<Rightarrow> bool" where
  "is_ascii_graphic c = (33 \<le> (of_char c :: nat) \<and> (of_char c :: nat) \<le> 126)"

definition clean_version :: "string \<Rightarrow> string" where
  "clean_version raw = take max_build_version_len (filter is_ascii_graphic raw)"

definition fill_build_version :: "string option \<Rightarrow> structured_metrics \<Rightarrow> structured_metrics" where
  "fill_build_version header m =
     (let from_body = clean_version (sm_build_version m)
      in m\<lparr>sm_build_version :=
             (if from_body = [] then (case header of Some h \<Rightarrow> clean_version h | None \<Rightarrow> [])
              else from_body)\<rparr>)"

section \<open>What is accepted\<close>

lemma strict_remdups_adj: "sorted xs \<Longrightarrow> sorted_wrt (<) (remdups_adj xs)"
  by (induction xs rule: remdups_adj.induct) (auto intro: le_neq_trans dest: order_antisym)

lemma capability_names_Some:
  "capability_names entries = Some names \<Longrightarrow>
     entries = map JString names \<and> list_all is_capability_name names"
  by (induction entries arbitrary: names) (auto split: json.splits if_splits)

lemma capability_names_map:
  "list_all is_capability_name names \<Longrightarrow> capability_names (map JString names) = Some names"
  by (induction names) auto

lemma clean_version_clean: "list_all is_ascii_graphic (clean_version raw)"
  by (auto simp: clean_version_def list_all_iff dest: in_set_takeD)

text \<open>
  A capability report is accepted exactly when it is an array of at most 32 well-formed
  names, and what is kept is that set of names in increasing order without repeats, so at most
  32 short tokens reach clients whatever a node sends.
\<close>

theorem capabilities_accepted_iff:
  "capabilities_from_json v = Some names \<longleftrightarrow>
     (\<exists>reported. v = JArray (map JString reported) \<and> length reported \<le> 32 \<and>
        list_all is_capability_name reported \<and> sorted_wrt (<) names \<and> set names = set reported)"
proof
  assume "capabilities_from_json v = Some names"
  then obtain entries reported where v: "v = JArray entries" and n: "length entries \<le> 32"
    and r: "capability_names entries = Some reported" and names: "names = remdups_adj (sort reported)"
    by (auto simp: capabilities_from_json_def max_capabilities_def split: json.splits if_splits)
  have "sorted_wrt (<) names"
    unfolding names by (simp add: strict_remdups_adj)
  then show "\<exists>reported. v = JArray (map JString reported) \<and> length reported \<le> 32 \<and>
        list_all is_capability_name reported \<and> sorted_wrt (<) names \<and> set names = set reported"
    using v n names capability_names_Some [OF r] by (intro exI [of _ reported]) auto
next
  assume "\<exists>reported. v = JArray (map JString reported) \<and> length reported \<le> 32 \<and>
        list_all is_capability_name reported \<and> sorted_wrt (<) names \<and> set names = set reported"
  then obtain reported where v: "v = JArray (map JString reported)" and n: "length reported \<le> 32"
    and ok: "list_all is_capability_name reported" and s: "sorted_wrt (<) names"
    and set: "set names = set reported" by blast
  have "sorted_wrt (<) (remdups_adj (sort reported))"
    by (simp add: strict_remdups_adj)
  then have "remdups_adj (sort reported) = names"
    using s set by (intro strict_sorted_equal) simp_all
  then show "capabilities_from_json v = Some names"
    by (simp add: capabilities_from_json_def v max_capabilities_def n [unfolded not_less [symmetric]] capability_names_map [OF ok])
qed

end
