(* ===== verification/Offsets.thy ===== *)
theory Offsets
  imports Metrics
begin

text \<open>
  Model of \<^verbatim>\<open>src/node/offsets.rs\<close>: lifetime totals over node restarts. A node's counters
  are accepted within an allowance that refills at a rate ceiling; on a restart the accepted
  counters are banked. \<open>Instant\<close>s are nanoseconds.
\<close>

section \<open>Totals\<close>

definition packets_per_sec :: f64 where "packets_per_sec = Fin 1000"
definition submissions_per_sec :: f64 where "submissions_per_sec = Fin 10"
definition usd_per_sec :: f64 where "usd_per_sec = Fin 1"
definition uptime_per_sec :: f64 where "uptime_per_sec = Fin 2"

definition first_reading_window :: nat where
  "first_reading_window = 60 * 1000000000"

definition min_reading_window :: nat where
  "min_reading_window = 1000000000"

definition max_reading_window :: nat where
  "max_reading_window = 60 * 1000000000"

definition as_secs :: "nat \<Rightarrow> nat" where
  "as_secs d = d div 1000000000"

definition secs_f64 :: "nat \<Rightarrow> f64" where
  "secs_f64 d = to_f64 (real (as_secs d))"

definition rate_ceiling :: cumulative where
  "rate_ceiling c =
     (case c of
        UptimeSeconds \<Rightarrow> uptime_per_sec
      | CumulativeAuthorizedRevenueUsd \<Rightarrow> usd_per_sec
      | CumulativeCostUsd \<Rightarrow> usd_per_sec
      | CumulativeMaximumCostUsd \<Rightarrow> usd_per_sec
      | ExitEthereum \<Rightarrow> submissions_per_sec
      | ProfitableCount \<Rightarrow> submissions_per_sec
      | UnprofitableCount \<Rightarrow> submissions_per_sec
      | EthTransactionsSubmitted \<Rightarrow> submissions_per_sec
      | _ \<Rightarrow> packets_per_sec)"

definition zero_totals :: cumulative where
  "zero_totals c = Fin 0"

definition snapshot :: "structured_metrics \<Rightarrow> cumulative" where
  "snapshot m = sm_counters m"

definition accumulate :: "cumulative \<Rightarrow> cumulative \<Rightarrow> cumulative" where
  "accumulate base other c = f_add (base c) (other c)"

definition write_into :: "cumulative \<Rightarrow> structured_metrics \<Rightarrow> structured_metrics" where
  "write_into totals m = m\<lparr>sm_counters := totals\<rparr>"

definition is_zero :: "cumulative \<Rightarrow> bool" where
  "is_zero totals \<longleftrightarrow> list_all (\<lambda>c. f_eq (totals c) (Fin 0)) all_counters"

text \<open>One counter: the new accepted value, what is left of the allowance, and whether the report
  was not taken as is.\<close>

definition advance_counter :: "f64 \<Rightarrow> f64 \<Rightarrow> f64 \<Rightarrow> f64 \<Rightarrow> f64 \<Rightarrow> f64 \<times> f64 \<times> bool" where
  "advance_counter accepted reported allowance refill capacity =
     (let filled = f_min (f_add allowance refill) capacity
      in if \<not> f_finite reported \<or> f_less reported accepted then (accepted, filled, True)
         else let step = f_sub reported accepted
              in if f_less filled step then (f_add accepted filled, Fin 0, True)
                 else (reported, f_sub filled step, False))"

definition advance_one :: "cumulative \<Rightarrow> cumulative \<Rightarrow> cumulative \<Rightarrow> f64 \<Rightarrow> counter \<Rightarrow> f64 \<times> f64 \<times> bool" where
  "advance_one accepted reported allowance window_secs c =
     advance_counter (accepted c) (reported c) (allowance c)
       (f_mul (rate_ceiling c) window_secs)
       (f_mul (rate_ceiling c) (secs_f64 max_reading_window))"

definition advance_toward ::
  "cumulative \<Rightarrow> cumulative \<Rightarrow> cumulative \<Rightarrow> f64 \<Rightarrow> cumulative \<times> cumulative \<times> bool" where
  "advance_toward accepted reported allowance window_secs =
     (let r = advance_one accepted reported allowance window_secs
      in (\<lambda>c. fst (r c), \<lambda>c. fst (snd (r c)), list_ex (\<lambda>c. snd (snd (r c))) all_counters))"

fun snake_to_camel_from :: "bool \<Rightarrow> string \<Rightarrow> string" where
  "snake_to_camel_from upper [] = []"
| "snake_to_camel_from upper (c # cs) =
     (if c = CHR ''_'' then snake_to_camel_from True cs
      else if upper
      then (if 97 \<le> (of_char c :: nat) \<and> (of_char c :: nat) \<le> 122
            then char_of ((of_char c :: nat) - 32) else c) # snake_to_camel_from False cs
      else c # snake_to_camel_from upper cs)"

definition snake_to_camel :: "string \<Rightarrow> string" where
  "snake_to_camel key = snake_to_camel_from False key"

section \<open>Per-node bookkeeping\<close>

record node_offset =
  no_last_node_start_time :: i64
  no_banked :: cumulative
  no_last_raw :: cumulative
  no_dirty :: bool
  no_last_observed_at :: "nat option"
  no_allowance :: cumulative
  no_adjusting :: bool

definition default_offset :: node_offset where
  "default_offset =
     \<lparr>no_last_node_start_time = 0, no_banked = zero_totals, no_last_raw = zero_totals,
      no_dirty = False, no_last_observed_at = None, no_allowance = zero_totals, no_adjusting = False\<rparr>"

definition network_totals :: "node_offset list \<Rightarrow> cumulative" where
  "network_totals offsets =
     foldl (\<lambda>base off. accumulate (accumulate base (no_banked off)) (no_last_raw off)) zero_totals offsets"

text \<open>The parts of \<open>observe\<close> in their order: restart detection, banking, incarnation tracking,
  the credited window, and the counters.\<close>

definition detect_restart :: "node_offset \<Rightarrow> structured_metrics \<Rightarrow> bool" where
  "detect_restart off m =
     (let start = f_as_i64 (sm_node_start_time m)
      in if 0 < start \<and> 0 < no_last_node_start_time off
         then start \<noteq> no_last_node_start_time off
         else no_last_node_start_time off \<noteq> 0 \<and>
              f_less (sm_counters m UptimeSeconds) (no_last_raw off UptimeSeconds))"

definition bank :: "node_offset \<Rightarrow> node_offset" where
  "bank off = off\<lparr>no_banked := accumulate (no_banked off) (no_last_raw off), no_last_raw := zero_totals,
              no_dirty := True\<rparr>"

definition track_incarnation :: "i64 \<Rightarrow> node_offset \<Rightarrow> node_offset" where
  "track_incarnation start off =
     (if 0 < start \<and> no_last_node_start_time off \<noteq> start
      then off\<lparr>no_last_node_start_time := start, no_dirty := True\<rparr>
      else if start \<le> 0 \<and> no_last_node_start_time off = 0
      then off\<lparr>no_last_node_start_time := - 1, no_dirty := True\<rparr>
      else off)"

definition reading_window :: "node_offset \<Rightarrow> nat \<Rightarrow> nat" where
  "reading_window off now =
     max min_reading_window (min max_reading_window
       (case no_last_observed_at off of None \<Rightarrow> first_reading_window | Some prev \<Rightarrow> now - prev))"

record observation =
  ob_restarted :: bool
  ob_adjusted :: bool

definition observe :: "structured_metrics \<Rightarrow> nat \<Rightarrow> node_offset \<Rightarrow> node_offset \<times> observation" where
  "observe m now off =
     (let restarted = detect_restart off m;
          o1 = (if restarted then bank off else off);
          o2 = track_incarnation (f_as_i64 (sm_node_start_time m)) o1;
          window = reading_window o2 now;
          o3 = o2\<lparr>no_last_observed_at := Some now\<rparr>
      in (case advance_toward (no_last_raw o3) (snapshot m) (no_allowance o3) (secs_f64 window) of
            (accepted, allowance, adjusted) \<Rightarrow>
              (o3\<lparr>no_last_raw := accepted, no_allowance := allowance\<rparr>,
               \<lparr>ob_restarted = restarted, ob_adjusted = adjusted\<rparr>)))"

definition lifetime :: "node_offset \<Rightarrow> cumulative" where
  "lifetime off = accumulate (no_banked off) (no_last_raw off)"

definition apply_offset :: "node_offset \<Rightarrow> structured_metrics \<Rightarrow> structured_metrics" where
  "apply_offset off m = write_into (lifetime off) m"

section \<open>Values that a counter can hold\<close>

definition f64_ok :: "f64 \<Rightarrow> bool" where
  "f64_ok v \<longleftrightarrow> (case v of Fin a \<Rightarrow> representable a | _ \<Rightarrow> True)"

definition f_le :: "f64 \<Rightarrow> f64 \<Rightarrow> bool" where
  "f_le a b \<longleftrightarrow> f_less a b \<or> f_eq a b"

definition nonneg :: "f64 \<Rightarrow> bool" where
  "nonneg v \<longleftrightarrow> v = PInf \<or> (\<exists>a. v = Fin a \<and> 0 \<le> a \<and> representable a)"

lemma nonneg_cases:
  assumes "nonneg v"
  obtains "v = PInf" | a where "v = Fin a" "0 \<le> a" "representable a"
  using assms unfolding nonneg_def by blast

lemma f_le_simps [simp]:
  "f_le (Fin a) (Fin b) \<longleftrightarrow> a \<le> b" "f_le (Fin a) PInf" "f_le PInf PInf" "\<not> f_le PInf (Fin a)"
  by (auto simp: f_le_def f_eq_def)

lemma to_f64_nonneg: "0 \<le> x \<Longrightarrow> to_f64 x = PInf \<or> to_f64 x = Fin (rnd x)"
  using rnd_nonneg [of x] by (simp add: to_f64_def Let_def)

lemma nonneg_to_f64: "0 \<le> x \<Longrightarrow> nonneg (to_f64 x)"
  using to_f64_nonneg [of x] rnd_nonneg [of x] representable_rnd [of x] unfolding nonneg_def by auto

lemma to_f64_mono: "0 \<le> x \<Longrightarrow> x \<le> y \<Longrightarrow> f_le (to_f64 x) (to_f64 y)"
  using rnd_mono [of x y] rnd_nonneg [of x] to_f64_nonneg [of x] to_f64_nonneg [of y]
  by (auto simp: to_f64_def Let_def split: if_splits)

lemma to_f64_le_PInf: "0 \<le> x \<Longrightarrow> f_le (to_f64 x) PInf"
  using to_f64_nonneg [of x] by auto

lemma nonneg_add:
  assumes "nonneg v" and "nonneg w"
  shows "nonneg (f_add v w)" and "f_le v (f_add v w)"
proof -
  show "nonneg (f_add v w)"
    using assms by (elim nonneg_cases) (simp_all add: nonneg_to_f64, simp_all add: nonneg_def)
  show "f_le v (f_add v w)"
    using assms
  proof (elim nonneg_cases)
    fix a b assume *: "v = Fin a" "0 \<le> a" "representable a" "w = Fin b" "0 \<le> b"
    have "a \<le> rnd (a + b)" using rnd_mono [of a "a + b"] * by simp
    then show ?thesis using to_f64_nonneg [of "a + b"] * by auto
  qed simp_all
qed

lemma nonneg_add_mono:
  assumes "nonneg v" and "nonneg w" and "nonneg w'" and "f_le w w'"
  shows "f_le (f_add v w) (f_add v w')"
  using assms
  by (elim nonneg_cases) (simp_all add: to_f64_mono, simp_all add: to_f64_le_PInf)

lemma f_le_trans: "nonneg a \<Longrightarrow> nonneg b \<Longrightarrow> nonneg c \<Longrightarrow> f_le a b \<Longrightarrow> f_le b c \<Longrightarrow> f_le a c"
  by (elim nonneg_cases) auto

section \<open>One counter\<close>

text \<open>What a counter's allowance can hold under a capacity.\<close>

definition budget :: "f64 \<Rightarrow> real \<Rightarrow> bool" where
  "budget v k \<longleftrightarrow> (\<exists>a. v = Fin a \<and> 0 \<le> a \<and> a \<le> k \<and> representable a)"

lemma filled_within:
  assumes "budget allowance k" and "0 \<le> r" and "representable k"
  shows "budget (f_min (f_add allowance (Fin r)) (Fin k)) k"
proof -
  obtain a where a: "allowance = Fin a" "0 \<le> a" "a \<le> k" using assms(1) unfolding budget_def by blast
  then show ?thesis
    using to_f64_nonneg [of "a + r"] rnd_nonneg [of "a + r"] representable_rnd [of "a + r"] assms(2,3)
    by (auto simp: budget_def f_min_def)
qed

lemma spend_within:
  assumes "budget filled k" and "0 \<le> x" and "\<not> f_less filled (to_f64 x)" and "k < 2 ^ 1024"
  shows "budget (f_sub filled (to_f64 x)) k"
proof -
  obtain a where a: "filled = Fin a" "0 \<le> a" "a \<le> k" "representable a"
    using assms(1) unfolding budget_def by blast
  from to_f64_nonneg [OF assms(2)] have s: "to_f64 x = Fin (rnd x)" and le: "rnd x \<le> a"
    using assms(3) a(1) by auto
  have b: "0 \<le> rnd (a - rnd x)" "rnd (a - rnd x) \<le> a"
    using le rnd_nonneg [OF assms(2)] rnd_nonneg [of "a - rnd x"] rnd_mono [of "a - rnd x" a] a(4)
    by simp_all
  with a(3) assms(4) have "to_f64 (a - rnd x) = Fin (rnd (a - rnd x))"
    using le by (simp add: to_f64_def Let_def)
  with a s b representable_rnd [of "a - rnd x"] show ?thesis
    by (simp add: budget_def f_sub_def)
qed

lemma advance_counter_ok:
  assumes "nonneg accepted" and "f64_ok reported" and "budget allowance k" and "0 \<le> r"
    and "representable k" and "k < 2 ^ 1024"
    and run: "advance_counter accepted reported allowance (Fin r) (Fin k) = (accepted', allowance', adj)"
  shows "nonneg accepted'" and "f_le accepted accepted'" and "budget allowance' k"
proof -
  let ?filled = "f_min (f_add allowance (Fin r)) (Fin k)"
  have fill: "budget ?filled k" by (rule filled_within [OF assms(3-5)])
  then have nf: "nonneg ?filled" and k: "0 \<le> k" by (auto simp: budget_def nonneg_def)
  have zero: "budget (Fin 0) k" using k representable_of_int [of 0] by (simp add: budget_def)
  have refl: "f_le accepted accepted" using assms(1) by (elim nonneg_cases) simp_all
  have split: "(\<not> f_finite reported \<or> f_less reported accepted) \<or>
      (\<exists>p q. reported = Fin p \<and> accepted = Fin q \<and> q \<le> p)"
    using assms(1) by (cases reported; elim nonneg_cases) auto
  consider (held) "\<not> f_finite reported \<or> f_less reported accepted"
    | (live) p q where "reported = Fin p" "accepted = Fin q" "q \<le> p"
    using split by blast
  then have "nonneg accepted' \<and> f_le accepted accepted' \<and> budget allowance' k"
  proof cases
    case held
    with run fill assms(1) refl show ?thesis by (auto simp: advance_counter_def Let_def)
  next
    case live
    have step: "f_sub reported accepted = to_f64 (p - q)" by (simp add: live f_sub_def)
    have not_held: "\<not> (\<not> f_finite reported \<or> f_less reported accepted)" using live by simp
    show ?thesis
    proof (cases "f_less ?filled (to_f64 (p - q))")
      case True
      with run step not_held nonneg_add [OF assms(1) nf] zero show ?thesis
        by (auto simp: advance_counter_def Let_def)
    next
      case False
      have "0 \<le> p" using assms(1) live by (auto simp: nonneg_def)
      then have "nonneg reported" using assms(2) live by (auto simp: nonneg_def f64_ok_def)
      with False run step not_held live spend_within [OF fill _ False assms(6)] show ?thesis
        by (auto simp: advance_counter_def Let_def)
    qed
  qed
  then show "nonneg accepted'" and "f_le accepted accepted'" and "budget allowance' k" by auto
qed

text \<open>The rate ceiling of a counter, and its capacity, as exact numbers.\<close>

definition ceiling_nat :: "counter \<Rightarrow> nat" where
  "ceiling_nat c =
     (if c = UptimeSeconds then 2
      else if c \<in> {CumulativeAuthorizedRevenueUsd, CumulativeCostUsd, CumulativeMaximumCostUsd} then 1
      else if c \<in> {ExitEthereum, ProfitableCount, UnprofitableCount, EthTransactionsSubmitted} then 10
      else 1000)"

lemma rate_ceiling_nat: "rate_ceiling c = Fin (real (ceiling_nat c))"
  by (cases c) (simp_all add: rate_ceiling_def ceiling_nat_def packets_per_sec_def
      submissions_per_sec_def usd_per_sec_def uptime_per_sec_def)

lemma ceiling_nat_le: "ceiling_nat c \<le> 1000"
  by (simp add: ceiling_nat_def)

lemma whole_nat: "n \<le> 2 ^ 53 \<Longrightarrow> whole (real n)"
proof -
  assume "n \<le> 2 ^ 53"
  then have "\<bar>int n\<bar> \<le> 2 ^ 53" by simp
  then show ?thesis using whole_of_int [of "int n"] by simp
qed

lemma refill_exact:
  assumes "as_secs d \<le> 60"
  shows "f_mul (rate_ceiling c) (secs_f64 d) = Fin (real (ceiling_nat c * as_secs d))"
proof -
  have "ceiling_nat c * as_secs d \<le> 1000 * 60" by (intro mult_le_mono ceiling_nat_le assms)
  then have "whole (real (ceiling_nat c * as_secs d))" by (intro whole_nat) simp
  moreover have "whole (real (as_secs d))" using assms by (intro whole_nat) simp
  ultimately show ?thesis
    by (simp add: secs_f64_def rate_ceiling_nat to_f64_whole flip: of_nat_mult)
qed

definition capacity :: "counter \<Rightarrow> real" where
  "capacity c = real (ceiling_nat c * 60)"

lemma capacity_exact: "f_mul (rate_ceiling c) (secs_f64 max_reading_window) = Fin (capacity c)"
  using refill_exact [of max_reading_window c] by (simp add: as_secs_def max_reading_window_def capacity_def)

lemma capacity_ok: "representable (capacity c)" "capacity c < 2 ^ 1024" "0 \<le> capacity c" "capacity c \<le> 60000"
proof -
  have le: "ceiling_nat c * 60 \<le> 60000" using ceiling_nat_le [of c] by linarith
  have "capacity c = of_int (int (ceiling_nat c * 60))" by (simp add: capacity_def)
  moreover have "\<bar>int (ceiling_nat c * 60)\<bar> \<le> 2 ^ 53" using le by simp
  ultimately show "representable (capacity c)" by (simp only: representable_of_int)
  have "(2 :: real) ^ 16 \<le> 2 ^ 1024" by (rule power_increasing) simp_all
  moreover have "capacity c < 2 ^ 16" using le by (simp add: capacity_def)
  ultimately show "capacity c < 2 ^ 1024" by linarith
  show "0 \<le> capacity c" "capacity c \<le> 60000" using le by (simp_all add: capacity_def)
qed

lemma window_secs: "as_secs (reading_window off now) \<le> 60" "1 \<le> as_secs (reading_window off now)"
proof -
  have "reading_window off now \<le> 60 * 1000000000" "1000000000 \<le> reading_window off now"
    by (simp_all add: reading_window_def min_reading_window_def max_reading_window_def)
  from div_le_mono [OF this(1), of 1000000000] div_le_mono [OF this(2), of 1000000000]
  show "as_secs (reading_window off now) \<le> 60" "1 \<le> as_secs (reading_window off now)"
    by (simp_all add: as_secs_def)
qed

lemma advance_one_eq:
  assumes "as_secs d \<le> 60"
  shows "advance_one accepted reported allowance (secs_f64 d) c =
    advance_counter (accepted c) (reported c) (allowance c)
      (Fin (real (ceiling_nat c * as_secs d))) (Fin (capacity c))"
  by (simp only: advance_one_def refill_exact [OF assms] capacity_exact)

section \<open>Readings\<close>

definition offset_ok :: "node_offset \<Rightarrow> bool" where
  "offset_ok off \<longleftrightarrow>
     (\<forall>c. nonneg (no_banked off c) \<and> nonneg (no_last_raw off c) \<and>
          budget (no_allowance off c) (capacity c))"

text \<open>The counters as they are when the reading is folded in, after a possible restart.\<close>

definition rebased :: "node_offset \<Rightarrow> structured_metrics \<Rightarrow> node_offset" where
  "rebased off m =
     track_incarnation (f_as_i64 (sm_node_start_time m)) (if detect_restart off m then bank off else off)"

lemma track_simps [simp]:
  "no_banked (track_incarnation st off) = no_banked off"
  "no_last_raw (track_incarnation st off) = no_last_raw off"
  "no_allowance (track_incarnation st off) = no_allowance off"
  "no_last_observed_at (track_incarnation st off) = no_last_observed_at off"
  by (simp_all add: track_incarnation_def)

lemma bank_simps [simp]:
  "no_banked (bank off) = lifetime off" "no_last_raw (bank off) = zero_totals"
  "no_allowance (bank off) = no_allowance off" "no_last_observed_at (bank off) = no_last_observed_at off"
  by (simp_all add: bank_def lifetime_def)

lemma observe_eq:
  "observe m now off =
    (let base = rebased off m;
         r = advance_one (no_last_raw base) (sm_counters m) (no_allowance base)
               (secs_f64 (reading_window base now))
     in (base\<lparr>no_last_observed_at := Some now, no_last_raw := (\<lambda>c. fst (r c)),
               no_allowance := (\<lambda>c. fst (snd (r c)))\<rparr>,
         \<lparr>ob_restarted = detect_restart off m,
          ob_adjusted = list_ex (\<lambda>c. snd (snd (r c))) all_counters\<rparr>))"
  by (simp add: observe_def rebased_def advance_toward_def snapshot_def Let_def)

lemma rebased_simps:
  "no_allowance (rebased off m) = no_allowance off"
  "reading_window (rebased off m) now = reading_window off now"
  "detect_restart off m \<Longrightarrow> no_banked (rebased off m) = lifetime off"
  "detect_restart off m \<Longrightarrow> no_last_raw (rebased off m) = zero_totals"
  "\<not> detect_restart off m \<Longrightarrow> no_banked (rebased off m) = no_banked off"
  "\<not> detect_restart off m \<Longrightarrow> no_last_raw (rebased off m) = no_last_raw off"
  by (simp_all add: rebased_def reading_window_def)

text \<open>What one reading does to each counter.\<close>

lemma observe_counter:
  "\<exists>adj. advance_counter (no_last_raw (rebased off m) c) (sm_counters m c) (no_allowance off c)
      (Fin (real (ceiling_nat c * as_secs (reading_window off now)))) (Fin (capacity c)) =
    (no_last_raw (fst (observe m now off)) c, no_allowance (fst (observe m now off)) c, adj)"
  by (simp add: observe_eq Let_def rebased_simps(1,2) advance_one_eq [OF window_secs(1)])
    (metis prod.collapse)

lemma observe_banked: "no_banked (fst (observe m now off)) = no_banked (rebased off m)"
  by (simp add: observe_eq Let_def)

definition reading_ok :: "structured_metrics \<Rightarrow> bool" where
  "reading_ok m \<longleftrightarrow> (\<forall>c. f64_ok (sm_counters m c))"

lemma nonneg_zero [simp]: "nonneg (Fin 0)"
  using representable_of_int [of 0] by (simp add: nonneg_def)

lemma rebased_ok:
  assumes "offset_ok off"
  shows "nonneg (no_banked (rebased off m) c)" and "nonneg (no_last_raw (rebased off m) c)"
    and "f_le (lifetime off c) (lifetime (rebased off m) c)"
proof -
  have b: "nonneg (no_banked off c)" and l: "nonneg (no_last_raw off c)"
    using assms by (auto simp: offset_ok_def)
  have life: "nonneg (lifetime off c)" using nonneg_add(1) [OF b l] by (simp add: lifetime_def accumulate_def)
  show "nonneg (no_banked (rebased off m) c)" "nonneg (no_last_raw (rebased off m) c)"
    using b l life by (cases "detect_restart off m"; simp add: rebased_simps zero_totals_def)+
  show "f_le (lifetime off c) (lifetime (rebased off m) c)"
  proof (cases "detect_restart off m")
    case True
    then show ?thesis
      using nonneg_add(2) [OF life nonneg_zero]
      by (simp add: lifetime_def [of "rebased off m"] rebased_simps accumulate_def zero_totals_def)
  next
    case False
    then show ?thesis
      using life by (simp add: lifetime_def rebased_simps accumulate_def) (auto elim: nonneg_cases)
  qed
qed

lemma observe_ok:
  assumes "offset_ok off" and "reading_ok m"
  shows "offset_ok (fst (observe m now off))"
    and "f_le (lifetime off c) (lifetime (fst (observe m now off)) c)"
proof -
  let ?off = "fst (observe m now off)" and ?base = "rebased off m"
  have step: "nonneg (no_last_raw ?off c) \<and> f_le (no_last_raw ?base c) (no_last_raw ?off c) \<and>
      budget (no_allowance ?off c) (capacity c)" for c
  proof -
    obtain adj where a: "advance_counter (no_last_raw ?base c) (sm_counters m c) (no_allowance off c)
        (Fin (real (ceiling_nat c * as_secs (reading_window off now)))) (Fin (capacity c)) =
        (no_last_raw ?off c, no_allowance ?off c, adj)"
      using observe_counter by blast
    have "f64_ok (sm_counters m c)" and "budget (no_allowance off c) (capacity c)"
      using assms by (auto simp: reading_ok_def offset_ok_def)
    from advance_counter_ok [OF rebased_ok(2) [OF assms(1)] this _ capacity_ok(1,2) a]
    show ?thesis by simp
  qed
  show "offset_ok ?off"
    using step rebased_ok(1) [OF assms(1)] by (simp add: offset_ok_def observe_banked)
  have "f_le (lifetime ?base c) (lifetime ?off c)"
    unfolding lifetime_def accumulate_def observe_banked
    using rebased_ok(1,2) [OF assms(1), of m c] step [of c] by (intro nonneg_add_mono) auto
  moreover have "nonneg (lifetime off c)" "nonneg (lifetime ?base c)" "nonneg (lifetime ?off c)"
    using assms(1) rebased_ok(1,2) [OF assms(1), of m c] step [of c]
    by (auto simp: lifetime_def accumulate_def offset_ok_def observe_banked intro: nonneg_add(1))
  ultimately show "f_le (lifetime off c) (lifetime ?off c)"
    using rebased_ok(3) [OF assms(1)] f_le_trans by blast
qed

section \<open>Sequences of readings\<close>

fun observe_all :: "(structured_metrics \<times> nat) list \<Rightarrow> node_offset \<Rightarrow> node_offset" where
  "observe_all [] off = off"
| "observe_all ((m, now) # rs) off = observe_all rs (fst (observe m now off))"

lemma observe_all_ok:
  "offset_ok off \<Longrightarrow> \<forall>r \<in> set rs. reading_ok (fst r) \<Longrightarrow>
     offset_ok (observe_all rs off) \<and> f_le (lifetime off c) (lifetime (observe_all rs off) c)"
proof (induction rs arbitrary: off)
  case Nil
  then have "nonneg (lifetime off c)"
    by (auto simp: lifetime_def accumulate_def offset_ok_def intro: nonneg_add(1))
  with Nil show ?case by (auto elim: nonneg_cases)
next
  case (Cons r rs)
  obtain m t where r: "r = (m, t)" by (cases r)
  let ?off = "fst (observe m t off)"
  have m: "reading_ok m" using Cons.prems(2) r by auto
  have ok: "offset_ok ?off" and le: "f_le (lifetime off c) (lifetime ?off c)"
    using observe_ok [OF Cons.prems(1) m] by blast+
  have rest: "offset_ok (observe_all rs ?off) \<and> f_le (lifetime ?off c) (lifetime (observe_all rs ?off) c)"
    using Cons.prems(2) by (intro Cons.IH ok) auto
  have nn: "nonneg (lifetime o' c)" if "offset_ok o'" for o'
    using that by (auto simp: lifetime_def accumulate_def offset_ok_def intro: nonneg_add(1))
  have "f_le (lifetime off c) (lifetime (observe_all rs ?off) c)"
    using f_le_trans [OF nn nn nn le] Cons.prems(1) ok rest by blast
  with rest show ?case by (simp add: r)
qed

text \<open>Whole numbers below the exact range of \<open>f64\<close>.\<close>

abbreviation Num :: "nat \<Rightarrow> f64" where
  "Num n \<equiv> Fin (real n)"

lemma Num_add: "a + b \<le> 2 ^ 53 \<Longrightarrow> f_add (Num a) (Num b) = Num (a + b)"
  using to_f64_whole [OF whole_nat] by (simp flip: of_nat_add)

lemma Num_sub: "b \<le> a \<Longrightarrow> a \<le> 2 ^ 53 \<Longrightarrow> f_sub (Num a) (Num b) = Num (a - b)"
proof -
  assume le: "b \<le> a" and "a \<le> 2 ^ 53"
  then have "whole (real (a - b))" by (intro whole_nat) simp
  then show ?thesis using le by (simp add: f_sub_def to_f64_whole of_nat_diff)
qed

lemma f_min_Num: "f_min (Num a) (Num b) = Num (min a b)"
  by (auto simp: f_min_def min_def)

lemma advance_counter_exact:
  assumes "l + a + r \<le> 2 ^ 53"
    and "f_finite rep \<Longrightarrow> \<exists>n :: int. rep = Fin (of_int n) \<and> n \<le> 2 ^ 53"
  shows "\<exists>l' a' adj. advance_counter (Num l) rep (Num a) (Num r) (Num k) = (Num l', Num a', adj) \<and>
    l \<le> l' \<and> l' + a' = l + min (a + r) k"
proof -
  let ?f = "min (a + r) k"
  have filled: "f_min (f_add (Num a) (Num r)) (Num k) = Num ?f"
    using assms(1) by (simp only: Num_add f_min_Num)
  show ?thesis
  proof (cases "\<not> f_finite rep \<or> f_less rep (Num l)")
    case True
    then show ?thesis unfolding advance_counter_def filled Let_def by auto
  next
    case False
    then obtain n where rep: "rep = Fin (of_int n)" and n: "n \<le> 2 ^ 53" using assms(2) by blast
    from False rep have "int l \<le> n" by (simp add: not_less)
    then obtain p where p: "n = int p" "l \<le> p" by (metis nonneg_int_cases of_nat_0_le_iff
        of_nat_le_iff order_trans)
    then have rep: "rep = Num p" and pl: "p \<le> 2 ^ 53" using rep n by simp_all
    have step: "f_sub (Num p) (Num l) = Num (p - l)" using p pl by (intro Num_sub)
    show ?thesis
    proof (cases "?f < p - l")
      case True
      have "f_add (Num l) (Num ?f) = Num (l + ?f)" using assms(1) by (intro Num_add) simp
      with True False rep show ?thesis
        unfolding advance_counter_def filled Let_def rep step by auto
    next
      case le: False
      have "f_sub (Num ?f) (Num (p - l)) = Num (?f - (p - l))" using le assms(1) by (intro Num_sub) linarith+
      moreover have "\<not> f_less (Num ?f) (Num (p - l))"
        using le by (simp only: f_less.simps of_nat_less_iff not_False_eq_True)
      ultimately have "advance_counter (Num l) rep (Num a) (Num r) (Num k) =
          (Num p, Num (?f - (p - l)), False)"
        using False unfolding advance_counter_def filled Let_def rep step by (simp only: if_False)
      moreover have "p + (?f - (p - l)) = l + ?f" using le p by simp
      ultimately show ?thesis using p(2) by blast
    qed
  qed
qed

definition exact_counter :: "node_offset \<Rightarrow> counter \<Rightarrow> nat \<Rightarrow> nat \<Rightarrow> nat \<Rightarrow> bool" where
  "exact_counter off c b l a \<longleftrightarrow>
     no_banked off c = Num b \<and> no_last_raw off c = Num l \<and> no_allowance off c = Num a"

definition whole_reading :: "structured_metrics \<Rightarrow> counter \<Rightarrow> bool" where
  "whole_reading m c \<longleftrightarrow>
     (f_finite (sm_counters m c) \<longrightarrow> (\<exists>n :: int. sm_counters m c = Fin (of_int n) \<and> n \<le> 2 ^ 53))"

lemma observe_exact:
  assumes "exact_counter off c b l a" and "whole_reading m c"
    and "b + l + a + ceiling_nat c * as_secs (reading_window off now) \<le> 2 ^ 53"
  shows "\<exists>b' l' a'. exact_counter (fst (observe m now off)) c b' l' a' \<and> b + l \<le> b' + l' \<and>
    b' + l' + a' \<le> b + l + a + ceiling_nat c * as_secs (reading_window off now)"
proof -
  let ?r = "ceiling_nat c * as_secs (reading_window off now)"
  have "\<exists>b0 l0. no_banked (rebased off m) c = Num b0 \<and> no_last_raw (rebased off m) c = Num l0 \<and>
      b0 + l0 = b + l"
  proof (cases "detect_restart off m")
    case True
    have "f_add (Num b) (Num l) = Num (b + l)" using assms(3) by (intro Num_add) simp
    with True assms(1) show ?thesis
      by (intro exI [of _ "b + l"] exI [of _ 0]) (simp add: rebased_simps lifetime_def
          accumulate_def exact_counter_def zero_totals_def)
  next
    case False
    with assms(1) show ?thesis by (auto simp: rebased_simps exact_counter_def)
  qed
  then obtain b0 l0 where base: "no_banked (rebased off m) c = Num b0"
      "no_last_raw (rebased off m) c = Num l0" and sum: "b0 + l0 = b + l" by blast
  obtain l' a' adj where step: "advance_counter (Num l0) (sm_counters m c) (Num a) (Num ?r)
      (Num (ceiling_nat c * 60)) = (Num l', Num a', adj)" and "l0 \<le> l'"
      and "l' + a' = l0 + min (a + ?r) (ceiling_nat c * 60)"
    using advance_counter_exact [of l0 a ?r "sm_counters m c" "ceiling_nat c * 60"] assms(2,3) sum
    unfolding whole_reading_def by force
  moreover have "no_last_raw (fst (observe m now off)) c = Num l' \<and>
      no_allowance (fst (observe m now off)) c = Num a'"
    using observe_counter [of off m c now] step assms(1)
    by (auto simp: base exact_counter_def capacity_def)
  ultimately show ?thesis
    using base(1) sum by (intro exI [of _ b0] exI [of _ l'] exI [of _ a'])
      (auto simp: exact_counter_def observe_banked)
qed

text \<open>Readings a second or more apart, and the time they span.\<close>

fun spaced :: "nat \<Rightarrow> nat list \<Rightarrow> bool" where
  "spaced t [] = True"
| "spaced t (u # us) = (t + 1000000000 \<le> u \<and> spaced u us)"

lemma window_elapsed:
  "no_last_observed_at off = Some t \<Longrightarrow> t + 1000000000 \<le> u \<Longrightarrow>
     as_secs (reading_window off u) \<le> as_secs (u - t)"
  unfolding as_secs_def by (intro div_le_mono) (auto simp: reading_window_def min_reading_window_def)

lemma observed_at: "no_last_observed_at (fst (observe m t off)) = Some t"
  by (simp add: observe_eq Let_def)

lemma spaced_last: "spaced t us \<Longrightarrow> t \<le> last (t # us)"
  by (induction us arbitrary: t) (auto, fastforce)

lemma as_secs_add: "as_secs a + as_secs b \<le> as_secs (a + b)"
proof -
  have "as_secs a * 1000000000 + as_secs b * 1000000000 \<le> a + b"
    unfolding as_secs_def by (intro add_mono div_times_less_eq_dividend)
  then have "(as_secs a + as_secs b) * 1000000000 \<le> a + b" by (simp add: add_mult_distrib)
  then have "(as_secs a + as_secs b) * 1000000000 div 1000000000 \<le> (a + b) div 1000000000"
    by (rule div_le_mono)
  then show ?thesis by (simp add: as_secs_def)
qed

lemma observe_all_exact:
  assumes "exact_counter off c b l a" and "no_last_observed_at off = Some t"
    and "spaced t (map snd rs)" and "\<forall>r \<in> set rs. whole_reading (fst r) c"
    and "b + l + a + ceiling_nat c * as_secs (last (t # map snd rs) - t) \<le> 2 ^ 53"
  shows "\<exists>b' l' a'. exact_counter (observe_all rs off) c b' l' a' \<and> b + l \<le> b' + l' \<and>
    b' + l' + a' \<le> b + l + a + ceiling_nat c * as_secs (last (t # map snd rs) - t)"
  using assms
proof (induction rs arbitrary: off b l a t)
  case Nil
  then show ?case by (intro exI [of _ b] exI [of _ l] exI [of _ a]) simp
next
  case (Cons r rs)
  obtain m u where r: "r = (m, u)" by (cases r)
  let ?off = "fst (observe m u off)" and ?till = "last (u # map snd rs)"
  have tu: "t + 1000000000 \<le> u" and sp: "spaced u (map snd rs)" using Cons.prems(3) by (simp_all add: r)
  have "u \<le> ?till" using spaced_last [OF sp] .
  have "ceiling_nat c * as_secs (u - t) + ceiling_nat c * as_secs (?till - u)
      = ceiling_nat c * (as_secs (u - t) + as_secs (?till - u))"
    by (simp add: distrib_left)
  also have "\<dots> \<le> ceiling_nat c * as_secs (u - t + (?till - u))"
    by (intro mult_le_mono2 as_secs_add)
  also have "u - t + (?till - u) = ?till - t" using tu \<open>u \<le> ?till\<close> by simp
  finally have split: "ceiling_nat c * as_secs (u - t) + ceiling_nat c * as_secs (?till - u)
      \<le> ceiling_nat c * as_secs (?till - t)" .
  have w: "ceiling_nat c * as_secs (reading_window off u) \<le> ceiling_nat c * as_secs (u - t)"
    using window_elapsed [OF Cons.prems(2) tu] by simp
  have last: "last (t # map snd (r # rs)) = ?till" by (simp add: r)
  note bound = Cons.prems(5) [unfolded last]
  have wm: "whole_reading m c" using Cons.prems(4) by (simp add: r)
  have "b + l + a + ceiling_nat c * as_secs (reading_window off u) \<le> 2 ^ 53"
    using bound split w by linarith
  from observe_exact [OF Cons.prems(1) wm this] obtain b1 l1 a1 where e1: "exact_counter ?off c b1 l1 a1" and g1: "b + l \<le> b1 + l1"
      and s1: "b1 + l1 + a1 \<le> b + l + a + ceiling_nat c * as_secs (reading_window off u)"
    by blast
  have "\<exists>b' l' a'. exact_counter (observe_all rs ?off) c b' l' a' \<and> b1 + l1 \<le> b' + l' \<and>
      b' + l' + a' \<le> b1 + l1 + a1 + ceiling_nat c * as_secs (?till - u)"
  proof (intro Cons.IH e1 observed_at sp)
    show "\<forall>r \<in> set rs. whole_reading (fst r) c" using Cons.prems(4) by simp
    show "b1 + l1 + a1 + ceiling_nat c * as_secs (?till - u) \<le> 2 ^ 53"
      using s1 w split bound by linarith
  qed
  then obtain b' l' a' where "exact_counter (observe_all rs ?off) c b' l' a'" and "b1 + l1 \<le> b' + l'"
      and "b' + l' + a' \<le> b1 + l1 + a1 + ceiling_nat c * as_secs (?till - u)" by blast
  moreover have "b1 + l1 + a1 + ceiling_nat c * as_secs (?till - u)
      \<le> b + l + a + ceiling_nat c * as_secs (?till - t)"
    using s1 w split by linarith
  ultimately show ?case
    unfolding last using g1 by (intro exI [of _ b'] exI [of _ l'] exI [of _ a']) (simp add: r)
qed

section \<open>Properties\<close>

text \<open>
  C10: lifetime figures never go backwards. Whatever a node reports, in any sequence of readings
  at any times, with any restarts among them and values that are not numbers, the lifetime total
  shown for each counter after the sequence is at least the one shown before it, and the
  bookkeeping stays well-formed.
\<close>

theorem lifetime_never_decreases:
  assumes "offset_ok off" and "\<forall>r \<in> set rs. reading_ok (fst r)"
  shows "offset_ok (observe_all rs off) \<and>
    f_le (sm_counters (apply_offset off m) c) (sm_counters (apply_offset (observe_all rs off) m) c)"
  using observe_all_ok [OF assms] by (simp add: apply_offset_def write_into_def)

definition quiet_reading :: "cumulative \<Rightarrow> f64 \<Rightarrow> structured_metrics" where
  "quiet_reading counters start =
     \<lparr>sm_counters = counters, sm_active_peers = Fin 0, sm_node_start_time = start,
      sm_health_status = Fin 1, sm_worker_queue_depth = Fin 0, sm_mix_queue_depth = Fin 0,
      sm_egress_queue_depth = Fin 0, sm_cover_loop_degraded = False, sm_cover_drop_degraded = False,
      sm_latency_p50 = Fin 0, sm_latency_p95 = Fin 0, sm_latency_p99 = Fin 0,
      sm_build_version = [], sm_capabilities = None, sm_ingress_response_buffer = Fin 0,
      sm_eth_pending = Fin 0\<rparr>"

lemma default_offset_ok: "offset_ok default_offset"
  using representable_of_int [of 0] capacity_ok(3)
  by (simp add: offset_ok_def default_offset_def zero_totals_def budget_def)

lemma reading_ok_examples:
  "reading_ok (quiet_reading (\<lambda>c. Fin 100) (Fin 1000))" "reading_ok (quiet_reading (\<lambda>c. NaN) (Fin 2000))"
  using representable_of_int [of 100] by (simp_all add: reading_ok_def quiet_reading_def f64_ok_def)

theorem lifetime_never_decreases_witness:
  "f_le (sm_counters (apply_offset default_offset (quiet_reading (\<lambda>c. Fin 1) NaN)) ExitEcho)
     (sm_counters (apply_offset (observe_all
        [(quiet_reading (\<lambda>c. Fin 100) (Fin 1000), 0),
         (quiet_reading (\<lambda>c. NaN) (Fin 2000), 5000000000)] default_offset) (quiet_reading (\<lambda>c. Fin 1) NaN)) ExitEcho)"
proof -
  have "\<forall>r \<in> set [(quiet_reading (\<lambda>c. Fin 100) (Fin 1000), 0),
         (quiet_reading (\<lambda>c. NaN) (Fin 2000), 5000000000 :: nat)]. reading_ok (fst r)"
    using reading_ok_examples by simp
  from lifetime_never_decreases [OF default_offset_ok this] show ?thesis by blast
qed



end
