(* ===== verification/Db.thy ===== *)
theory Db
  imports Settled Offsets
begin

text \<open>
  Model of \<^verbatim>\<open>src/db.rs\<close> over the tables of \<^verbatim>\<open>migrations/\<close>. A table with a primary
  key is an association list with distinct keys; every SQL statement is a function of the
  tables. Whether a statement reaches the database, and whether one that reports an error was
  carried out nevertheless (a connection lost after the commit), is decided by the environment.
  A query without \<^verbatim>\<open>ORDER BY\<close> returns the rows in the order of the list.
\<close>

section \<open>Environment and tables\<close>

datatype verdict = Done | Failed string bool

record 'w sysenv = "'w env" +
  e_db :: "string \<Rightarrow> 'w \<Rightarrow> verdict \<times> 'w"
  e_now_ms :: "'w \<Rightarrow> i64 \<times> 'w"
  e_instant :: "'w \<Rightarrow> nat \<times> 'w"
  e_cancelled :: "'w \<Rightarrow> bool \<times> 'w"
  e_geo :: "(string \<Rightarrow> (coordinate \<times> coordinate) option) option"
  e_allow_private :: bool
  e_totals_json :: "cumulative \<Rightarrow> string"
  e_totals_parse :: "string \<Rightarrow> cumulative option"
  e_jsonb_text :: "string \<Rightarrow> string res"

record reputation_row =
  rr_total_checks :: int
  rr_passed_checks :: int
  rr_last_check_ms :: i64
  rr_streak :: int
  rr_score :: f64

record offset_row =
  mo_last_node_start_time :: i64
  mo_offsets :: string
  mo_last_raw :: string
  mo_updated_at_ms :: i64

record settlement_row =
  sr_block_number :: i64
  sr_block_timestamp :: i64
  sr_entry_point :: string
  sr_execution_id :: string
  sr_payment_id :: string
  sr_exit_address :: string
  sr_fee_asset :: string
  sr_exit_fee :: nat
  sr_network_fee :: nat
  sr_action_target :: string
  sr_action_success :: bool

record claim_row =
  cr_block_number :: i64
  cr_block_timestamp :: i64
  cr_reward_pool :: string
  cr_exit_address :: string
  cr_recipient :: string
  cr_asset :: string
  cr_amount :: nat

type_synonym log_key = "i64 \<times> string \<times> i64"

record tables =
  t_nodes :: "(string \<times> node_row) list"
  t_reputation :: "(string \<times> reputation_row) list"
  t_state :: "(string \<times> i64) list"
  t_offsets :: "(string \<times> offset_row) list"
  t_checkpoints :: "((i64 \<times> string) \<times> i64 \<times> i64) list"
  t_settlements :: "(log_key \<times> settlement_row) list"
  t_claims :: "(log_key \<times> claim_row) list"
  t_settlement_checkpoints :: "((i64 \<times> string) \<times> i64 \<times> i64) list"

definition empty_tables :: tables where
  "empty_tables =
     \<lparr>t_nodes = [], t_reputation = [], t_state = [], t_offsets = [], t_checkpoints = [],
      t_settlements = [], t_claims = [], t_settlement_checkpoints = []\<rparr>"

record 'w dbst = "'w net" +
  d_tables :: tables

text \<open>One statement: what it computes from the tables, or the error it raises.\<close>

type_synonym 'a sql = "tables \<Rightarrow> ('a \<times> tables) res"

definition run_sql ::
  "('w, 'e) sysenv_scheme \<Rightarrow> string \<Rightarrow> 'a sql \<Rightarrow> (('w, 'z) dbst_scheme, 'a) task" where
  "run_sql env name stmt s =
     (case e_db env name (n_world s) of
        (v, w) \<Rightarrow>
          (case stmt (d_tables s) of
             Inl e \<Rightarrow> Some (Inl e, s\<lparr>n_world := w\<rparr>)
           | Inr (a, t) \<Rightarrow>
               (case v of
                  Done \<Rightarrow> Some (Inr a, s\<lparr>n_world := w, d_tables := t\<rparr>)
                | Failed e applied \<Rightarrow>
                    Some (Inl e, s\<lparr>n_world := w,
                                   d_tables := (if applied then t else d_tables s)\<rparr>))))"

definition query :: "(tables \<Rightarrow> 'a) \<Rightarrow> 'a sql" where
  "query f t = Inr (f t, t)"

definition now_ms :: "('w, 'e) sysenv_scheme \<Rightarrow> (('w, 'z) dbst_scheme, i64) task" where
  "now_ms env s = (case e_now_ms env (n_world s) of (t, w) \<Rightarrow> Some (Inr t, s\<lparr>n_world := w\<rparr>))"

text \<open>\<^verbatim>\<open>INTEGER\<close> and \<^verbatim>\<open>BIGINT\<close> arithmetic raises an error out of range.\<close>

definition int4 :: "int \<Rightarrow> int res" where
  "int4 n = (if - (2 ^ 31) \<le> n \<and> n < 2 ^ 31 then Inr n else Inl ''integer out of range'')"

definition is_int8 :: "int \<Rightarrow> bool" where
  "is_int8 n \<longleftrightarrow> - (2 ^ 63) \<le> n \<and> n < 2 ^ 63"

definition registered_row :: "node_row \<Rightarrow> bool" where
  "registered_row r \<longleftrightarrow> nr_status r \<noteq> ''deregistered''"

section \<open>Nodes\<close>

definition ping :: "('w, 'e) sysenv_scheme \<Rightarrow> (('w, 'z) dbst_scheme, unit) task" where
  "ping env = run_sql env ''ping'' (query (\<lambda>t. ()))"

definition load_registry_nodes ::
  "('w, 'e) sysenv_scheme \<Rightarrow> string \<Rightarrow> (('w, 'z) dbst_scheme, (string \<times> node_state) list) task" where
  "load_registry_nodes env registry =
     task_bind (run_sql env ''load_registry_nodes'' (query (\<lambda>t.
         filter (\<lambda>r. registered_row r \<and> nr_registry_address r = to_lowercase registry)
           (map snd (t_nodes t))))) (\<lambda>rows.
     task_return (collect_map (\<lambda>n. (ns_address n, n))
       (map (node_of_row env (e_allow_private env)) rows)))"

definition upsert_node :: "('w, 'e) sysenv_scheme \<Rightarrow> node_state \<Rightarrow> (('w, 'z) dbst_scheme, unit) task" where
  "upsert_node env n =
     run_sql env ''upsert_node'' (\<lambda>t.
       Inr ((), t\<lparr>t_nodes := AList.update (ns_address n) (row_of_node n) (t_nodes t)\<rparr>))"

definition update_node_status ::
  "('w, 'e) sysenv_scheme \<Rightarrow> string \<Rightarrow> node_status \<Rightarrow> (('w, 'z) dbst_scheme, unit) task" where
  "update_node_status env addr st =
     run_sql env ''update_node_status'' (\<lambda>t.
       Inr ((), t\<lparr>t_nodes := map_rows (\<lambda>a r. if a = addr then r\<lparr>nr_status := status_str st\<rparr> else r)
                    (t_nodes t)\<rparr>))"

definition deregister_node ::
  "('w, 'e) sysenv_scheme \<Rightarrow> string \<Rightarrow> (('w, 'z) dbst_scheme, unit) task" where
  "deregister_node env addr =
     run_sql env ''deregister_node'' (\<lambda>t.
       Inr ((), t\<lparr>t_nodes := map_rows (\<lambda>a r. if a = addr then r\<lparr>nr_status := ''deregistered''\<rparr> else r)
                    (t_nodes t)\<rparr>))"

definition outside :: "string list \<Rightarrow> string \<Rightarrow> node_row \<Rightarrow> bool" where
  "outside keep a r \<longleftrightarrow> registered_row r \<and> to_lowercase a \<notin> set (map to_lowercase keep)"

definition deregister_nodes_except ::
  "('w, 'e) sysenv_scheme \<Rightarrow> string list \<Rightarrow> (('w, 'z) dbst_scheme, string list) task" where
  "deregister_nodes_except env keep =
     run_sql env ''deregister_nodes_except'' (\<lambda>t.
       Inr (map fst (filter (\<lambda>(a, r). outside keep a r) (t_nodes t)),
            t\<lparr>t_nodes := map_rows (\<lambda>a r. if outside keep a r then r\<lparr>nr_status := ''deregistered''\<rparr> else r)
                 (t_nodes t)\<rparr>))"

definition load_registry_member_addresses ::
  "('w, 'e) sysenv_scheme \<Rightarrow> u64 \<Rightarrow> string \<Rightarrow> (('w, 'z) dbst_scheme, string list) task" where
  "load_registry_member_addresses env cid registry =
     run_sql env ''load_registry_member_addresses'' (query (\<lambda>t.
       map fst (filter (\<lambda>(a, r). registered_row r \<and> nr_chain_id r = i64_of_u64 cid \<and>
                                 nr_registry_address r = to_lowercase registry) (t_nodes t))))"

definition load_all_uptime_targets ::
  "('w, 'e) sysenv_scheme \<Rightarrow> (('w, 'z) dbst_scheme, (string \<times> string) list) task" where
  "load_all_uptime_targets env =
     run_sql env ''load_all_uptime_targets'' (query (\<lambda>t.
       map (\<lambda>(a, r). (a, nr_admin_url r))
         (filter (\<lambda>(a, r). nr_admin_url r \<noteq> [] \<and> registered_row r) (t_nodes t))))"

section \<open>Reputation\<close>

definition ema_alpha :: f64 where
  "ema_alpha = to_f64 (1 / 100)"

definition ema :: "f64 \<Rightarrow> f64 \<Rightarrow> f64" where
  "ema sample score = f_add (f_mul ema_alpha sample) (f_mul (f_sub (Fin 1) ema_alpha) score)"

definition upsert_reputation_row ::
  "string \<Rightarrow> bool \<Rightarrow> i64 \<Rightarrow> unit sql" where
  "upsert_reputation_row addr reachable now t =
     (let passed = (if reachable then 1 else 0);
          sample = (if reachable then Fin 100 else Fin 0)
      in case map_of (t_reputation t) addr of
           None \<Rightarrow> Inr ((), t\<lparr>t_reputation := AList.update addr
              \<lparr>rr_total_checks = 1, rr_passed_checks = passed, rr_last_check_ms = now,
               rr_streak = passed, rr_score = sample\<rparr> (t_reputation t)\<rparr>)
         | Some r \<Rightarrow>
             (case (int4 (rr_total_checks r + 1), int4 (rr_passed_checks r + passed),
                    if reachable then int4 (rr_streak r + 1) else Inr 0) of
                (Inr checks, Inr passes, Inr streak) \<Rightarrow>
                  Inr ((), t\<lparr>t_reputation := AList.update addr
                     \<lparr>rr_total_checks = checks, rr_passed_checks = passes, rr_last_check_ms = now,
                      rr_streak = streak, rr_score = ema sample (rr_score r)\<rparr> (t_reputation t)\<rparr>)
              | _ \<Rightarrow> Inl ''integer out of range''))"

definition upsert_reputation ::
  "('w, 'e) sysenv_scheme \<Rightarrow> string \<Rightarrow> bool \<Rightarrow> (('w, 'z) dbst_scheme, unit) task" where
  "upsert_reputation env addr reachable =
     task_bind (now_ms env) (\<lambda>now.
     run_sql env ''upsert_reputation'' (upsert_reputation_row addr reachable now))"

definition stale_row :: "tables \<Rightarrow> i64 \<Rightarrow> string \<Rightarrow> reputation_row \<Rightarrow> bool" where
  "stale_row t cutoff a r \<longleftrightarrow>
     (case map_of (t_nodes t) a of Some n \<Rightarrow> registered_row n | None \<Rightarrow> False) \<and>
     rr_last_check_ms r < cutoff \<and> 0 < rr_last_check_ms r \<and> f_less (Fin 1) (rr_score r)"

definition decay_rows :: "i64 \<Rightarrow> nat sql" where
  "decay_rows cutoff t =
     Inr (length (filter (\<lambda>(a, r). stale_row t cutoff a r) (t_reputation t)),
          t\<lparr>t_reputation := map_rows (\<lambda>a r. if stale_row t cutoff a r
               then r\<lparr>rr_score := f_mul (rr_score r) (to_f64 (95 / 100))\<rparr> else r) (t_reputation t)\<rparr>)"

definition decay_stale_scores ::
  "('w, 'e) sysenv_scheme \<Rightarrow> int \<Rightarrow> (('w, 'z) dbst_scheme, nat) task" where
  "decay_stale_scores env stale_hours =
     task_bind (now_ms env) (\<lambda>now.
     run_sql env ''decay_stale_scores'' (decay_rows (now - stale_hours * 3600000)))"

record node_reputation =
  nrp_address :: string
  nrp_total_checks :: int
  nrp_passed_checks :: int
  nrp_streak :: int
  nrp_score :: f64
  nrp_status :: string

text \<open>\<^verbatim>\<open>ORDER BY score DESC, address\<close>; NaN sorts above every number.\<close>

definition pg_less :: "f64 \<Rightarrow> f64 \<Rightarrow> bool" where
  "pg_less a b \<longleftrightarrow> b = NaN \<and> a \<noteq> NaN \<or> f_less a b"

definition ranks_before :: "node_reputation \<Rightarrow> node_reputation \<Rightarrow> bool" where
  "ranks_before a b \<longleftrightarrow>
     pg_less (nrp_score b) (nrp_score a) \<or>
     \<not> pg_less (nrp_score a) (nrp_score b) \<and> nrp_address a \<le> nrp_address b"

fun rank_insert :: "node_reputation \<Rightarrow> node_reputation list \<Rightarrow> node_reputation list" where
  "rank_insert a [] = [a]"
| "rank_insert a (b # bs) = (if ranks_before a b then a # b # bs else b # rank_insert a bs)"

definition reputation_of :: "tables \<Rightarrow> string \<Rightarrow> node_row \<Rightarrow> node_reputation" where
  "reputation_of t a n =
     (case map_of (t_reputation t) a of
        None \<Rightarrow> \<lparr>nrp_address = a, nrp_total_checks = 0, nrp_passed_checks = 0, nrp_streak = 0,
                 nrp_score = Fin 100, nrp_status = nr_status n\<rparr>
      | Some r \<Rightarrow> \<lparr>nrp_address = a, nrp_total_checks = rr_total_checks r,
                  nrp_passed_checks = rr_passed_checks r, nrp_streak = rr_streak r,
                  nrp_score = rr_score r, nrp_status = nr_status n\<rparr>)"

definition get_reputation_ranking ::
  "('w, 'e) sysenv_scheme \<Rightarrow> (('w, 'z) dbst_scheme, node_reputation list) task" where
  "get_reputation_ranking env =
     run_sql env ''get_reputation_ranking'' (query (\<lambda>t.
       foldr rank_insert
         (map (\<lambda>(a, n). reputation_of t a n) (filter (\<lambda>(a, n). registered_row n) (t_nodes t))) []))"

definition load_liveness_observed_at ::
  "('w, 'e) sysenv_scheme \<Rightarrow> (('w, 'z) dbst_scheme, (string \<times> u64) list) task" where
  "load_liveness_observed_at env =
     task_bind (run_sql env ''load_liveness_observed_at'' (query (\<lambda>t.
         map (\<lambda>(a, r). (a, rr_last_check_ms r)) (t_reputation t)))) (\<lambda>rows.
     task_return (collect_map
       (\<lambda>(a, ms). (a, (case u64_of_i64 ms of Some m \<Rightarrow> m | None \<Rightarrow> 0) div 1000)) rows))"

text \<open>The estimate of the network's beginning: written once, then only read.\<close>

definition genesis_key :: string where
  "genesis_key = ''network_genesis_ms''"

definition genesis_evidence :: "int \<Rightarrow> tables \<Rightarrow> i64 list res" where
  "genesis_evidence interval t =
     (let rows = filter (\<lambda>r. 0 < rr_total_checks r \<and> 0 < rr_last_check_ms r) (map snd (t_reputation t));
          es = map (\<lambda>r. rr_last_check_ms r - rr_total_checks r * interval) rows
      in if list_all (\<lambda>r. is_int8 (rr_total_checks r * interval)) rows \<and> list_all is_int8 es
         then Inr es else Inl ''bigint out of range'')"

definition insert_genesis :: "int \<Rightarrow> unit sql" where
  "insert_genesis interval t =
     (case genesis_evidence interval t of
        Inl e \<Rightarrow> Inl e
      | Inr [] \<Rightarrow> Inr ((), t)
      | Inr (e # es) \<Rightarrow>
          (case map_of (t_state t) genesis_key of
             Some _ \<Rightarrow> Inr ((), t)
           | None \<Rightarrow> Inr ((), t\<lparr>t_state := AList.update genesis_key (fold min es e) (t_state t)\<rparr>)))"

definition ensure_network_genesis ::
  "('w, 'e) sysenv_scheme \<Rightarrow> int \<Rightarrow> (('w, 'z) dbst_scheme, i64 option) task" where
  "ensure_network_genesis env interval =
     task_bind (run_sql env ''insert_genesis'' (insert_genesis interval)) (\<lambda>_.
     run_sql env ''select_genesis'' (query (\<lambda>t. map_of (t_state t) genesis_key)))"

section \<open>Metric offsets\<close>

text \<open>A row whose banked totals do not parse is skipped; unreadable last readings count as zero.\<close>

definition offset_of_row :: "('w, 'e) sysenv_scheme \<Rightarrow> offset_row \<Rightarrow> node_offset option" where
  "offset_of_row env r =
     (case e_totals_parse env (mo_offsets r) of
        None \<Rightarrow> None
      | Some banked \<Rightarrow>
          Some (default_offset
            \<lparr>no_last_node_start_time := mo_last_node_start_time r, no_banked := banked,
             no_last_raw := (case e_totals_parse env (mo_last_raw r) of
                               Some raw \<Rightarrow> raw | None \<Rightarrow> zero_totals)\<rparr>))"

definition load_metric_offsets ::
  "('w, 'e) sysenv_scheme \<Rightarrow> (('w, 'z) dbst_scheme, (string \<times> node_offset) list) task" where
  "load_metric_offsets env =
     task_bind (run_sql env ''load_metric_offsets'' (query t_offsets)) (\<lambda>rows.
     task_return (collect_map (\<lambda>x. x)
       (List.map_filter (\<lambda>(a, r). map_option (\<lambda>off. (a, off)) (offset_of_row env r)) rows)))"

definition save_metric_offset ::
  "('w, 'e) sysenv_scheme \<Rightarrow> string \<Rightarrow> node_offset \<Rightarrow> i64 \<Rightarrow> (('w, 'z) dbst_scheme, unit) task" where
  "save_metric_offset env addr off now =
     run_sql env ''save_metric_offset'' (\<lambda>t.
       case (e_jsonb_text env (e_totals_json env (no_banked off)),
             e_jsonb_text env (e_totals_json env (no_last_raw off))) of
         (Inr banked, Inr raw) \<Rightarrow>
           Inr ((), t\<lparr>t_offsets := AList.update addr
              \<lparr>mo_last_node_start_time = no_last_node_start_time off, mo_offsets = banked,
               mo_last_raw = raw, mo_updated_at_ms = now\<rparr> (t_offsets t)\<rparr>)
       | (Inl e, _) \<Rightarrow> Inl e
       | (_, Inl e) \<Rightarrow> Inl e)"

section \<open>Checkpoints\<close>

definition get_checkpoint ::
  "('w, 'e) sysenv_scheme \<Rightarrow> u64 \<Rightarrow> string \<Rightarrow> (('w, 'z) dbst_scheme, u64 option) task" where
  "get_checkpoint env cid registry =
     task_bind (run_sql env ''get_checkpoint'' (query (\<lambda>t.
         map_of (t_checkpoints t) (i64_of_u64 cid, to_lowercase registry)))) (\<lambda>row.
     task_return (case row of None \<Rightarrow> None | Some (block, _) \<Rightarrow> u64_of_i64 block))"

definition set_checkpoint ::
  "('w, 'e) sysenv_scheme \<Rightarrow> u64 \<Rightarrow> string \<Rightarrow> u64 \<Rightarrow> (('w, 'z) dbst_scheme, unit) task" where
  "set_checkpoint env cid registry block =
     task_bind (now_ms env) (\<lambda>now.
     run_sql env ''set_checkpoint'' (\<lambda>t.
       Inr ((), t\<lparr>t_checkpoints := AList.update (i64_of_u64 cid, to_lowercase registry)
                    (i64_of_u64 block, now) (t_checkpoints t)\<rparr>)))"

definition get_settlement_checkpoint ::
  "('w, 'e) sysenv_scheme \<Rightarrow> u64 \<Rightarrow> string \<Rightarrow> (('w, 'z) dbst_scheme, u64 option) task" where
  "get_settlement_checkpoint env cid source =
     task_bind (run_sql env ''get_settlement_checkpoint'' (query (\<lambda>t.
         map_of (t_settlement_checkpoints t) (i64_of_u64 cid, source)))) (\<lambda>row.
     task_return (case row of None \<Rightarrow> None | Some (block, _) \<Rightarrow> u64_of_i64 block))"

definition set_settlement_checkpoint ::
  "('w, 'e) sysenv_scheme \<Rightarrow> u64 \<Rightarrow> string \<Rightarrow> u64 \<Rightarrow> (('w, 'z) dbst_scheme, unit) task" where
  "set_settlement_checkpoint env cid source block =
     task_bind (now_ms env) (\<lambda>now.
     run_sql env ''set_settlement_checkpoint'' (\<lambda>t.
       Inr ((), t\<lparr>t_settlement_checkpoints := AList.update (i64_of_u64 cid, source)
                    (i64_of_u64 block, now) (t_settlement_checkpoints t)\<rparr>)))"

section \<open>Settlements and claims\<close>

text \<open>A token amount: decimal text that becomes a \<^verbatim>\<open>NUMERIC(78,0)\<close>.\<close>

definition numeric78 :: "string \<Rightarrow> nat res" where
  "numeric78 text =
     (case parse_unsigned (10 ^ 78) text of
        Some n \<Rightarrow> Inr n
      | None \<Rightarrow> Inl ''invalid input syntax for type numeric'')"

definition insert_settlement_row ::
  "'x ext_scheme \<Rightarrow> u64 \<Rightarrow> address \<Rightarrow> paid_settlement \<Rightarrow> bool sql" where
  "insert_settlement_row x cid entry_point p t =
     (case (numeric78 (ps_exit_fee p), numeric78 (ps_network_fee p)) of
        (Inr exit_fee, Inr network_fee) \<Rightarrow>
          (let k = (i64_of_u64 cid, ps_tx_hash p, i64_of_u64 (ps_log_index p))
           in case map_of (t_settlements t) k of
                Some _ \<Rightarrow> Inr (False, t)
              | None \<Rightarrow> Inr (True, t\<lparr>t_settlements := AList.update k
                  \<lparr>sr_block_number = i64_of_u64 (ps_block_number p),
                   sr_block_timestamp = i64_of_u64 (ps_block_timestamp p),
                   sr_entry_point = key_of_address x entry_point,
                   sr_execution_id = ps_execution_id p, sr_payment_id = ps_payment_id p,
                   sr_exit_address = ps_exit_address p, sr_fee_asset = ps_fee_asset p,
                   sr_exit_fee = exit_fee, sr_network_fee = network_fee,
                   sr_action_target = ps_action_target p, sr_action_success = ps_action_success p\<rparr>
                  (t_settlements t)\<rparr>))
      | (Inl e, _) \<Rightarrow> Inl e
      | (_, Inl e) \<Rightarrow> Inl e)"

definition insert_paid_settlement ::
  "('w, 'e) sysenv_scheme \<Rightarrow> u64 \<Rightarrow> address \<Rightarrow> paid_settlement \<Rightarrow> (('w, 'z) dbst_scheme, bool) task" where
  "insert_paid_settlement env cid entry_point p =
     run_sql env ''insert_paid_settlement'' (insert_settlement_row env cid entry_point p)"

definition insert_claim_row ::
  "'x ext_scheme \<Rightarrow> u64 \<Rightarrow> address \<Rightarrow> exit_credit_claim \<Rightarrow> bool sql" where
  "insert_claim_row x cid reward_pool c t =
     (case numeric78 (xc_amount c) of
        Inl e \<Rightarrow> Inl e
      | Inr amount \<Rightarrow>
          (let k = (i64_of_u64 cid, xc_tx_hash c, i64_of_u64 (xc_log_index c))
           in case map_of (t_claims t) k of
                Some _ \<Rightarrow> Inr (False, t)
              | None \<Rightarrow> Inr (True, t\<lparr>t_claims := AList.update k
                  \<lparr>cr_block_number = i64_of_u64 (xc_block_number c),
                   cr_block_timestamp = i64_of_u64 (xc_block_timestamp c),
                   cr_reward_pool = key_of_address x reward_pool,
                   cr_exit_address = xc_exit_address c, cr_recipient = xc_recipient c,
                   cr_asset = xc_asset c, cr_amount = amount\<rparr> (t_claims t)\<rparr>)))"

definition insert_exit_credit_claim ::
  "('w, 'e) sysenv_scheme \<Rightarrow> u64 \<Rightarrow> address \<Rightarrow> exit_credit_claim \<Rightarrow> (('w, 'z) dbst_scheme, bool) task" where
  "insert_exit_credit_claim env cid reward_pool c =
     run_sql env ''insert_exit_credit_claim'' (insert_claim_row env cid reward_pool c)"

text \<open>\<^verbatim>\<open>GROUP BY\<close>: one row per key.\<close>

definition settlement_rows_of :: "'x ext_scheme \<Rightarrow> u64 \<Rightarrow> address \<Rightarrow> tables \<Rightarrow> settlement_row list" where
  "settlement_rows_of x cid entry_point t =
     map snd (filter (\<lambda>((c, _, _), r). c = i64_of_u64 cid \<and> sr_entry_point r = key_of_address x entry_point)
       (t_settlements t))"

definition settlement_totals ::
  "settlement_row list \<Rightarrow> settled_totals_row list" where
  "settlement_totals rows =
     map (\<lambda>(exit, asset).
        let group = filter (\<lambda>r. sr_exit_address r = exit \<and> sr_fee_asset r = asset) rows
        in \<lparr>st_exit_address = exit, st_fee_asset = asset, st_executions = int (length group),
            st_exit_fees = nat_str (sum_list (map sr_exit_fee group)),
            st_network_fees = nat_str (sum_list (map sr_network_fee group))\<rparr>)
       (remdups (map (\<lambda>r. (sr_exit_address r, sr_fee_asset r)) rows))"

definition paid_settlement_totals ::
  "('w, 'e) sysenv_scheme \<Rightarrow> u64 \<Rightarrow> address \<Rightarrow> (('w, 'z) dbst_scheme, settled_totals_row list) task" where
  "paid_settlement_totals env cid entry_point =
     run_sql env ''paid_settlement_totals''
       (query (\<lambda>t. settlement_totals (settlement_rows_of env cid entry_point t)))"

definition claim_rows_of :: "'x ext_scheme \<Rightarrow> u64 \<Rightarrow> address \<Rightarrow> tables \<Rightarrow> claim_row list" where
  "claim_rows_of x cid reward_pool t =
     map snd (filter (\<lambda>((c, _, _), r). c = i64_of_u64 cid \<and> cr_reward_pool r = key_of_address x reward_pool)
       (t_claims t))"

definition claim_totals :: "claim_row list \<Rightarrow> claimed_totals_row list" where
  "claim_totals rows =
     map (\<lambda>(exit, asset).
        \<lparr>ct_exit_address = exit, ct_asset = asset,
         ct_claimed = nat_str (sum_list (map cr_amount
           (filter (\<lambda>r. cr_exit_address r = exit \<and> cr_asset r = asset) rows)))\<rparr>)
       (remdups (map (\<lambda>r. (cr_exit_address r, cr_asset r)) rows))"

definition exit_credit_claim_totals ::
  "('w, 'e) sysenv_scheme \<Rightarrow> u64 \<Rightarrow> address \<Rightarrow> (('w, 'z) dbst_scheme, claimed_totals_row list) task" where
  "exit_credit_claim_totals env cid reward_pool =
     run_sql env ''exit_credit_claim_totals''
       (query (\<lambda>t. claim_totals (claim_rows_of env cid reward_pool t)))"

text \<open>\<^verbatim>\<open>ORDER BY block_number DESC, log_index DESC LIMIT n\<close>.\<close>

definition newest :: "(log_key \<times> 'r \<Rightarrow> i64) \<Rightarrow> nat \<Rightarrow> (log_key \<times> 'r) list \<Rightarrow> (log_key \<times> 'r) list" where
  "newest block_of limit rows =
     take limit (sort_key (\<lambda>row. (- block_of row, - snd (snd (fst row)))) rows)"

definition settlement_of_row :: "log_key \<times> settlement_row \<Rightarrow> paid_settlement" where
  "settlement_of_row row =
     (case row of ((c, tx, index), r) \<Rightarrow>
        \<lparr>ps_tx_hash = tx, ps_log_index = u64_or_zero index,
         ps_block_number = u64_or_zero (sr_block_number r),
         ps_block_timestamp = u64_or_zero (sr_block_timestamp r),
         ps_execution_id = sr_execution_id r, ps_payment_id = sr_payment_id r,
         ps_exit_address = sr_exit_address r, ps_fee_asset = sr_fee_asset r,
         ps_exit_fee = nat_str (sr_exit_fee r), ps_network_fee = nat_str (sr_network_fee r),
         ps_action_target = sr_action_target r, ps_action_success = sr_action_success r\<rparr>)"

definition recent_paid_settlements ::
  "('w, 'e) sysenv_scheme \<Rightarrow> u64 \<Rightarrow> string \<Rightarrow> nat \<Rightarrow> (('w, 'z) dbst_scheme, paid_settlement list) task" where
  "recent_paid_settlements env cid entry_point limit =
     run_sql env ''recent_paid_settlements'' (query (\<lambda>t.
       map settlement_of_row (newest (\<lambda>(k, r). sr_block_number r) limit
         (filter (\<lambda>((c, _, _), r). c = i64_of_u64 cid \<and> sr_entry_point r = to_lowercase entry_point)
           (t_settlements t)))))"

definition claim_of_row :: "log_key \<times> claim_row \<Rightarrow> exit_credit_claim" where
  "claim_of_row row =
     (case row of ((c, tx, index), r) \<Rightarrow>
        \<lparr>xc_tx_hash = tx, xc_log_index = u64_or_zero index,
         xc_block_number = u64_or_zero (cr_block_number r),
         xc_block_timestamp = u64_or_zero (cr_block_timestamp r),
         xc_exit_address = cr_exit_address r, xc_recipient = cr_recipient r,
         xc_asset = cr_asset r, xc_amount = nat_str (cr_amount r)\<rparr>)"

definition recent_exit_credit_claims ::
  "('w, 'e) sysenv_scheme \<Rightarrow> u64 \<Rightarrow> string \<Rightarrow> nat \<Rightarrow> (('w, 'z) dbst_scheme, exit_credit_claim list) task" where
  "recent_exit_credit_claims env cid reward_pool limit =
     run_sql env ''recent_exit_credit_claims'' (query (\<lambda>t.
       map claim_of_row (newest (\<lambda>(k, r). cr_block_number r) limit
         (filter (\<lambda>((c, _, _), r). c = i64_of_u64 cid \<and> cr_reward_pool r = to_lowercase reward_pool)
           (t_claims t)))))"

section \<open>What a statement keeps\<close>

lemma run_sql_Some: "\<exists>r s'. run_sql env name stmt s = Some (r, s')"
  by (simp add: run_sql_def split: prod.splits sum.splits verdict.splits)

lemma run_sql_Inr_iff:
  "run_sql env name stmt s = Some (Inr a, s') \<longleftrightarrow>
     (\<exists>w t. e_db env name (n_world s) = (Done, w) \<and> stmt (d_tables s) = Inr (a, t) \<and>
            s' = s\<lparr>n_world := w, d_tables := t\<rparr>)"
  by (auto simp: run_sql_def split: prod.splits sum.splits verdict.splits)

lemma query_Inr_iff [simp]: "query f t = Inr (a, t') \<longleftrightarrow> a = f t \<and> t' = t"
  by (auto simp: query_def)

lemma now_ms_Inr_iff:
  "now_ms env s = Some (Inr n, s') \<longleftrightarrow> (\<exists>w. e_now_ms env (n_world s) = (n, w) \<and> s' = s\<lparr>n_world := w\<rparr>)"
  by (auto simp: now_ms_def split: prod.splits)

text \<open>A database operation changes the tables and the world, nothing else; a relation on the
  tables that its statement respects holds whether or not the operation reports an error.\<close>

definition db_only :: "('w, 'z) dbst_scheme \<Rightarrow> ('w, 'z) dbst_scheme \<Rightarrow> bool" where
  "db_only s s' \<longleftrightarrow> (\<exists>w t. s' = s\<lparr>n_world := w, d_tables := t\<rparr>)"

definition on_tables :: "(tables \<Rightarrow> tables \<Rightarrow> bool) \<Rightarrow> ('w, 'z) dbst_scheme \<Rightarrow> ('w, 'z) dbst_scheme \<Rightarrow> bool" where
  "on_tables R s s' \<longleftrightarrow> db_only s s' \<and> R (d_tables s) (d_tables s')"

lemma db_onlyI [simp]:
  "db_only s (s\<lparr>n_world := w, d_tables := t\<rparr>)" "db_only s (s\<lparr>n_world := w\<rparr>)"
proof -
  show all: "db_only s (s\<lparr>n_world := w, d_tables := t\<rparr>)" for t unfolding db_only_def by blast
  from all [of "d_tables s"] show "db_only s (s\<lparr>n_world := w\<rparr>)" by simp
qed

lemma db_only_refl: "db_only s s"
  unfolding db_only_def by (rule exI [of _ "n_world s"], rule exI [of _ "d_tables s"]) simp

lemma db_only_trans: "db_only s s1 \<Longrightarrow> db_only s1 s2 \<Longrightarrow> db_only s s2"
  unfolding db_only_def by fastforce

lemma on_tables_refl: "reflp R \<Longrightarrow> reflp (on_tables R)"
  by (auto simp: on_tables_def db_only_refl reflp_def)

lemma on_tables_trans: "transp R \<Longrightarrow> transp (on_tables R)"
  unfolding on_tables_def transp_def using db_only_trans by blast

lemma run_sql_keeps:
  assumes "\<And>t a t'. stmt t = Inr (a, t') \<Longrightarrow> R t t'" and "reflp R"
  shows "keeps (on_tables R) (run_sql env name stmt)"
proof (rule keepsI)
  fix s r s'
  assume run: "run_sql env name stmt s = Some (r, s')"
  obtain v w where db: "e_db env name (n_world s) = (v, w)" by (cases "e_db env name (n_world s)")
  have same: "R (d_tables s) (d_tables s)" using assms(2) by (rule reflpD)
  show "on_tables R s s'"
  proof (cases "stmt (d_tables s)")
    case (Inl e)
    with run db same show ?thesis by (auto simp: run_sql_def on_tables_def)
  next
    case (Inr p)
    then obtain a t where p: "stmt (d_tables s) = Inr (a, t)" by (cases p) auto
    have "s\<lparr>n_world := w\<rparr> = s\<lparr>n_world := w, d_tables := d_tables s\<rparr>" by simp
    with run db p same assms(1) [OF p] show ?thesis
      by (auto simp: run_sql_def on_tables_def split: verdict.splits)
  qed
qed

lemma query_keeps: "reflp R \<Longrightarrow> keeps (on_tables R) (run_sql env name (query f))"
  by (rule run_sql_keeps) (auto dest: reflpD)

lemma now_ms_keeps: "reflp R \<Longrightarrow> keeps (on_tables R) (now_ms env)"
  by (auto intro!: keepsI simp: now_ms_def on_tables_def dest: reflpD split: prod.splits)

section \<open>A database for the examples\<close>

text \<open>Statements always succeed, the clocks stand still, nothing is shut down.\<close>

definition demo_sys :: "unit sysenv" where
  "demo_sys = env.extend demo_env
     (sysenv.fields (\<lambda>_ w. (Done, w)) (\<lambda>w. (1700000000000, w)) (\<lambda>w. (1000000000000, w))
        (\<lambda>w. (False, w)) None False (\<lambda>_. ''{}'') (\<lambda>_. Some zero_totals) Inr)"

definition demo_row :: node_row where
  "demo_row =
     \<lparr>nr_address = ''0xaa'', nr_id = ''nox-aa'', nr_admin_port = 9001, nr_ingress_port = 9002,
      nr_p2p_addr = ''/ip4/8.8.8.8/tcp/9000'', nr_sphinx_key = ''11'', nr_admin_url = [],
      nr_ingress_url = [], nr_metadata_url = [], nr_status = ''online'', nr_role = 2, nr_layer = 2,
      nr_latitude = 0, nr_longitude = 0, nr_frozen = False, nr_registry_address = ''0xbb'',
      nr_chain_id = 421614\<rparr>"

definition demo_db :: "unit dbst" where
  "demo_db = net.extend demo_net (dbst.fields empty_tables)"

lemma demo_sys_sel [simp]:
  "e_db demo_sys name w = (Done, w)" "e_now_ms demo_sys w = (1700000000000, w)"
  "e_instant demo_sys w = (1000000000000, w)" "e_cancelled demo_sys w = (False, w)"
  by (simp_all add: demo_sys_def env.defs sysenv.defs)

lemma demo_db_sel [simp]: "d_tables demo_db = empty_tables"
  by (simp add: demo_db_def net.defs dbst.defs)

lemma demo_lower [simp]:
  "to_lowercase ''0xAA'' = ''0xaa''" "to_lowercase ''0xaa'' = ''0xaa''" "to_lowercase ''0xbb'' = ''0xbb''"
  by code_simp+

lemma run_sql_demo [simp]:
  "run_sql demo_sys name stmt s =
     (case stmt (d_tables s) of Inl e \<Rightarrow> Some (Inl e, s)
      | Inr (a, t) \<Rightarrow> Some (Inr a, s\<lparr>d_tables := t\<rparr>))"
  by (simp add: run_sql_def split: sum.split)

lemma now_ms_demo [simp]: "now_ms demo_sys s = Some (Inr 1700000000000, s)"
  by (simp add: now_ms_def)

end
