(* ===== verification/Reputation.thy ===== *)
theory Reputation
  imports Db
begin

text \<open>
  The reputation table: the moving average stays a score between 0 and 100 in the double
  arithmetic the database uses, and the counters of a node agree with each other.
\<close>

section \<open>The constants of the moving average\<close>

lemma alpha_value: "rnd (1 / 100) = 5764607523034235 / 576460752303423488"
  using rnd_eval_fraction [of "1 / 100" 59 5764607523034235] by simp

lemma alpha_full: "rnd (576460752303423500 / 576460752303423488) = 1"
  using rnd_eval_fraction [of "576460752303423500 / 576460752303423488" 52 4503599627370496] by simp

lemma beta_value: "rnd (570696144780389253 / 576460752303423488) = 4458563631096791 / 4503599627370496"
  using rnd_eval_fraction [of "570696144780389253 / 576460752303423488" 53 8917127262193582] by simp

lemma beta_full: "rnd (445856363109679100 / 4503599627370496) = 99"
  using rnd_eval_fraction [of "445856363109679100 / 4503599627370496" 46 6966505673588736] by simp

section \<open>Scores\<close>

lemma to_f64_score:
  assumes "0 \<le> x" and "x \<le> 100"
  shows "to_f64 x = Fin (rnd x)" and "0 \<le> rnd x" and "rnd x \<le> 100"
proof -
  have hundred: "rnd 100 = 100" using representable_of_int [of 100] by simp
  show n: "0 \<le> rnd x" using assms(1) by (rule rnd_nonneg)
  show u: "rnd x \<le> 100" using rnd_mono [OF assms(2)] hundred by simp
  have "(100 :: real) < 2 ^ 1024"
    by (rule less_trans [of _ "2 ^ 7"]) (simp, rule power_strict_increasing, simp_all)
  with n u show "to_f64 x = Fin (rnd x)" by (simp add: to_f64_def Let_def)
qed

definition score_ok :: "f64 \<Rightarrow> bool" where
  "score_ok v \<longleftrightarrow> (\<exists>a. v = Fin a \<and> 0 \<le> a \<and> a \<le> 100 \<and> representable a)"

lemma score_ok_to_f64: "0 \<le> x \<Longrightarrow> x \<le> 100 \<Longrightarrow> score_ok (to_f64 x)"
  using to_f64_score [of x] representable_rnd [of x] by (auto simp: score_ok_def)

lemma ema_values:
  assumes "0 \<le> a" and "a \<le> 100"
  shows "ema (Fin 100) (Fin a) = to_f64 (1 + rnd (4458563631096791 / 4503599627370496 * a))"
    and "ema (Fin 0) (Fin a) = to_f64 (rnd (4458563631096791 / 4503599627370496 * a))"
    and "rnd (4458563631096791 / 4503599627370496 * a) \<le> 99"
proof -
  let ?b = "4458563631096791 / 4503599627370496 :: real"
  have le: "?b * a \<le> 445856363109679100 / 4503599627370496" "0 \<le> ?b * a" using assms by simp_all
  then have "?b * a \<le> 100" by simp
  have b: "to_f64 (?b * a) = Fin (rnd (?b * a))"
    by (rule to_f64_score) fact+
  have alpha: "ema_alpha = Fin (5764607523034235 / 576460752303423488)"
    using to_f64_score(1) [of "1 / 100"] alpha_value by (simp add: ema_alpha_def)
  have beta: "f_sub (Fin 1) ema_alpha = Fin ?b"
    using to_f64_score(1) [of "570696144780389253 / 576460752303423488"] beta_value
    by (simp add: alpha f_sub_def)
  have full: "f_mul ema_alpha (Fin 100) = Fin 1"
    using to_f64_score(1) [of "576460752303423500 / 576460752303423488"] alpha_full
    by (simp add: alpha to_f64_def Let_def)
  have none: "f_mul ema_alpha (Fin 0) = Fin 0" by (simp add: alpha to_f64_score)
  show "ema (Fin 100) (Fin a) = to_f64 (1 + rnd (?b * a))"
    unfolding ema_def full beta f_mul.simps b by simp
  show "ema (Fin 0) (Fin a) = to_f64 (rnd (?b * a))" unfolding ema_def none beta f_mul.simps b by simp
  show "rnd (?b * a) \<le> 99" using rnd_mono [OF le(1)] beta_full by simp
qed

lemma ema_ok:
  assumes "score_ok v"
  shows "score_ok (ema (Fin 100) v)" and "score_ok (ema (Fin 0) v)"
proof -
  obtain a where v: "v = Fin a" and a: "0 \<le> a" "a \<le> 100" using assms unfolding score_ok_def by blast
  have n: "0 \<le> rnd (4458563631096791 / 4503599627370496 * a)" using a by (intro rnd_nonneg) simp
  note e = ema_values [OF a]
  show "score_ok (ema (Fin 100) v)" unfolding v e(1) using n e(3) by (intro score_ok_to_f64) simp_all
  show "score_ok (ema (Fin 0) v)" unfolding v e(2) using n e(3) by (intro score_ok_to_f64) simp_all
qed

lemma decay_ok:
  assumes "score_ok v"
  shows "score_ok (f_mul v (to_f64 (95 / 100)))"
proof -
  obtain a where v: "v = Fin a" and a: "0 \<le> a" "a \<le> 100" using assms unfolding score_ok_def by blast
  have one: "rnd 1 = 1" using representable_of_int [of 1] by simp
  have c: "to_f64 (95 / 100) = Fin (rnd (95 / 100))" "0 \<le> rnd (95 / 100)"
    by (rule to_f64_score; simp)+
  have "rnd (95 / 100) \<le> 1" using rnd_mono [of "95 / 100" 1] one by simp
  with a c(2) have "a * rnd (95 / 100) \<le> 100" by (meson mult_left_le order_trans)
  with a c show ?thesis unfolding v by (simp add: score_ok_to_f64)
qed

section \<open>The table\<close>

definition reputation_ok :: "tables \<Rightarrow> bool" where
  "reputation_ok t \<longleftrightarrow>
     (\<forall>(a, r) \<in> set (t_reputation t). score_ok (rr_score r) \<and> 0 \<le> rr_streak r \<and>
        rr_streak r \<le> rr_passed_checks r \<and> rr_passed_checks r \<le> rr_total_checks r \<and>
        0 < rr_total_checks r)"

lemma set_update_subset: "set (AList.update k v m) \<subseteq> insert (k, v) (set m)"
  by (induction m) auto

lemma upsert_reputation_row_ok:
  assumes "upsert_reputation_row addr reachable now t = Inr (u, t')" and "reputation_ok t"
  shows "reputation_ok t'"
proof (cases "map_of (t_reputation t) addr")
  case None
  have "score_ok (Fin 0)" "score_ok (Fin 100)"
    using representable_of_int [of 0] representable_of_int [of 100] by (simp_all add: score_ok_def)
  with None assms show ?thesis
    using set_update_subset [of addr _ "t_reputation t"]
    by (fastforce simp: upsert_reputation_row_def reputation_ok_def split: if_splits)
next
  case (Some r)
  then have "(addr, r) \<in> set (t_reputation t)" by (rule map_of_SomeD)
  with assms(2) have r: "score_ok (rr_score r)" "0 \<le> rr_streak r" "rr_streak r \<le> rr_passed_checks r"
      "rr_passed_checks r \<le> rr_total_checks r" "0 < rr_total_checks r"
    by (auto simp: reputation_ok_def)
  with Some assms ema_ok [OF r(1)] show ?thesis
    using set_update_subset [of addr _ "t_reputation t"]
    by (fastforce simp: upsert_reputation_row_def reputation_ok_def int4_def Let_def split: if_splits)
qed

lemma decay_rows_ok:
  assumes "decay_rows cutoff t = Inr (n, t')" and "reputation_ok t"
  shows "reputation_ok t'"
  using assms decay_ok by (fastforce simp: decay_rows_def reputation_ok_def map_rows_def)

lemma reputation_ops_keep:
  "keeps (on_tables (\<lambda>t t'. reputation_ok t \<longrightarrow> reputation_ok t')) (upsert_reputation env a b)"
  "keeps (on_tables (\<lambda>t t'. reputation_ok t \<longrightarrow> reputation_ok t')) (decay_stale_scores env h)"
proof -
  let ?R = "\<lambda>t t'. reputation_ok t \<longrightarrow> reputation_ok t'"
  have rt: "reflp ?R" "transp ?R" by (auto simp: reflp_def transp_def)
  show "keeps (on_tables ?R) (upsert_reputation env a b)"
    unfolding upsert_reputation_def
    by (intro keeps_bind on_tables_trans rt now_ms_keeps run_sql_keeps) (auto dest: upsert_reputation_row_ok)
  show "keeps (on_tables ?R) (decay_stale_scores env h)"
    unfolding decay_stale_scores_def
    by (intro keeps_bind on_tables_trans rt now_ms_keeps run_sql_keeps) (auto dest: decay_rows_ok)
qed

section \<open>Properties\<close>

text \<open>The uptime loop's writes, in any order; an error is logged and the loop goes on.\<close>

datatype reputation_op = Check string bool | Decay int

fun reputation_step ::
  "('w, 'e) sysenv_scheme \<Rightarrow> reputation_op \<Rightarrow> ('w, 'z) dbst_scheme \<Rightarrow> ('w, 'z) dbst_scheme" where
  "reputation_step env (Check a b) s =
     (case upsert_reputation env a b s of Some (r, s') \<Rightarrow> s' | None \<Rightarrow> s)"
| "reputation_step env (Decay h) s =
     (case decay_stale_scores env h s of Some (r, s') \<Rightarrow> s' | None \<Rightarrow> s)"

lemma reputation_steps_ok:
  "reputation_ok (d_tables s) \<Longrightarrow> reputation_ok (d_tables (fold (reputation_step env) ops s))"
proof (induction ops arbitrary: s)
  case (Cons op ops)
  have "reputation_ok (d_tables (reputation_step env op s))"
    using Cons.prems
    by (cases op) (auto split: option.split dest!: keepsD [OF reputation_ops_keep(1)]
        keepsD [OF reputation_ops_keep(2)] simp: on_tables_def)
  with Cons.IH show ?case by simp
qed simp

text \<open>
  C37: reputation scores stay scores. Starting from an empty table, after any sequence of uptime
  results and decay runs, with database errors anywhere among them, every score is a number
  between 0 and 100 in the database's double arithmetic, and a node's streak, passed checks and
  total checks are in order.
\<close>

theorem reputation_stays_in_range:
  assumes "t_reputation (d_tables s) = []"
    and "(a, r) \<in> set (t_reputation (d_tables (fold (reputation_step env) ops s)))"
  shows "(\<exists>v. rr_score r = Fin v \<and> 0 \<le> v \<and> v \<le> 100) \<and> 0 \<le> rr_streak r \<and>
    rr_streak r \<le> rr_passed_checks r \<and> rr_passed_checks r \<le> rr_total_checks r"
proof -
  have "reputation_ok (d_tables s)" using assms(1) by (simp add: reputation_ok_def)
  from reputation_steps_ok [OF this, of env ops] assms(2) show ?thesis
    unfolding reputation_ok_def score_ok_def by fastforce
qed

theorem reputation_stays_in_range_witness:
  "\<exists>v. ema (Fin 0) (Fin 100) = Fin v \<and> 0 \<le> v \<and> v \<le> 100"
proof -
  let ?r = "\<lparr>rr_total_checks = 2, rr_passed_checks = 1, rr_last_check_ms = 1700000000000,
             rr_streak = 0, rr_score = ema (Fin 0) (Fin 100)\<rparr>"
  have start: "t_reputation (d_tables demo_db) = []" by (simp add: empty_tables_def)
  have "(''0xaa'', ?r) \<in> set (t_reputation (d_tables
      (fold (reputation_step demo_sys) [Check ''0xaa'' True, Check ''0xaa'' False] demo_db)))"
    by (simp add: upsert_reputation_def upsert_reputation_row_def task_bind_def empty_tables_def
        int4_def Let_def)
  from reputation_stays_in_range [OF start this] show ?thesis by simp
qed

end
