(* ===== verification/DbLaws.thy ===== *)
theory DbLaws
  imports Reputation
begin

text \<open>
  What the tables promise to the rest of the program, as interfaces that the operations of
  \<open>Db\<close> implement: a checkpoint store is a map from keys to blocks, and a table of logs keeps
  each log once. Each interface is interpreted on the two tables that have it. Then what the totals,
  the pruning of nodes and the network's beginning say after such statements.
\<close>

section \<open>Checkpoint stores\<close>

definition storable :: "u64 \<Rightarrow> u64" where
  "storable b = word_of_int (i64_of_u64 b)"

lemma storable_id [simp]: "uint b \<le> i64_max \<Longrightarrow> storable b = b"
  by (simp add: storable_def i64_of_u64_def)

lemma i64_of_u64_nonneg [simp]: "0 \<le> i64_of_u64 b"
  by (simp add: i64_of_u64_def i64_max_def)

text \<open>A write whose outcome the caller ignores.\<close>

definition ignoring :: "('s, 'a) task \<Rightarrow> 's \<Rightarrow> 's" where
  "ignoring m s = (case m s of Some (r, s') \<Rightarrow> s' | None \<Rightarrow> s)"

locale checkpoint_store =
  fixes get :: "'k \<Rightarrow> ('s, u64 option) task"
    and put :: "'k \<Rightarrow> u64 \<Rightarrow> ('s, unit) task"
    and content :: "'s \<Rightarrow> 'n \<Rightarrow> u64 option"
    and norm :: "'k \<Rightarrow> 'n"
  assumes get_reads: "get k s = Some (Inr r, s1) \<Longrightarrow> r = content s (norm k)"
    and put_writes: "put k b s = Some (Inr (), s1) \<Longrightarrow> content s1 = (content s)(norm k \<mapsto> storable b)"
    and put_fails: "put k b s = Some (Inl e, s1) \<Longrightarrow>
          content s1 = content s \<or> content s1 = (content s)(norm k \<mapsto> storable b)"
begin

lemma put_other:
  assumes "norm k' \<noteq> norm k"
  shows "content (ignoring (put k' b) s) (norm k) = content s (norm k)"
proof (cases "put k' b s")
  case (Some p)
  then obtain r s1 where p: "put k' b s = Some (r, s1)" by (cases p) auto
  then show ?thesis
    using assms by (cases r) (auto simp: ignoring_def dest: put_writes put_fails)
qed (simp add: ignoring_def)

lemma puts_other:
  assumes "\<forall>(k', b) \<in> set others. norm k' \<noteq> norm k"
  shows "content (fold (\<lambda>(k', b). ignoring (put k' b)) others s) (norm k) = content s (norm k)"
  using assms
proof (induction others arbitrary: s)
  case (Cons kb others)
  obtain k' b where kb: "kb = (k', b)" by (cases kb)
  with Cons.prems have "norm k' \<noteq> norm k" by simp
  with Cons kb put_other [of k' k b s] show ?case by simp
qed simp

lemma put_then_get:
  assumes "put k b s = Some (Inr (), s1)" and "uint b \<le> i64_max"
    and "\<forall>(k', b') \<in> set others. norm k' \<noteq> norm k"
    and "get k (fold (\<lambda>(k', b'). ignoring (put k' b')) others s1) = Some (Inr r, s2)"
  shows "r = Some b"
  using get_reads [OF assms(4)] puts_other [OF assms(3), of s1] put_writes [OF assms(1)] assms(2)
  by simp

text \<open>A key's block never moves back while only later blocks are put.\<close>

lemma put_advances:
  assumes "put k b s = Some (r, s1)" and "\<forall>b'. content s (norm k) = Some b' \<longrightarrow> b' \<le> storable b"
    and "content s (norm k) = Some b0"
  shows "\<exists>b1. content s1 (norm k) = Some b1 \<and> b0 \<le> b1"
  using assms by (cases r) (auto dest!: put_writes put_fails)

end

text \<open>The tables as maps.\<close>

definition checkpoints_of :: "((i64 \<times> string) \<times> i64 \<times> i64) list \<Rightarrow> i64 \<times> string \<Rightarrow> u64 option" where
  "checkpoints_of m k = (case map_of m k of None \<Rightarrow> None | Some (block, _) \<Rightarrow> u64_of_i64 block)"

lemma checkpoints_of_update:
  "checkpoints_of (AList.update k (i64_of_u64 b, now) m) = (checkpoints_of m)(k \<mapsto> storable b)"
  by (auto simp: checkpoints_of_def table_simps fun_eq_iff storable_def u64_of_i64_def)

lemma run_sql_write_Inl:
  assumes "run_sql env name (\<lambda>t. Inr ((), f t)) s = Some (Inl e, s')"
  shows "d_tables s' = d_tables s \<or> d_tables s' = f (d_tables s)"
  using assms by (auto simp: run_sql_def split: prod.splits sum.splits verdict.splits if_splits)

interpretation registry: checkpoint_store
    "\<lambda>(c, r). get_checkpoint env c r" "\<lambda>(c, r). set_checkpoint env c r"
    "\<lambda>s :: ('w, 'z) dbst_scheme. checkpoints_of (t_checkpoints (d_tables s))"
    "\<lambda>(c, r). (i64_of_u64 c, to_lowercase r)"
  for env :: "('w, 'e) sysenv_scheme"
proof unfold_locales
  fix k r and s s1 :: "('w, 'z) dbst_scheme"
  assume "(case k of (c, x) \<Rightarrow> get_checkpoint env c x) s = Some (Inr r, s1)"
  then show "r = checkpoints_of (t_checkpoints (d_tables s)) (case k of (c, x) \<Rightarrow> (i64_of_u64 c, to_lowercase x))"
    by (cases k) (auto simp: get_checkpoint_def task_bind_Inr_iff run_sql_Inr_iff checkpoints_of_def)
next
  fix k b and s s1 :: "('w, 'z) dbst_scheme"
  assume "(case k of (c, x) \<Rightarrow> set_checkpoint env c x) b s = Some (Inr (), s1)"
  then show "checkpoints_of (t_checkpoints (d_tables s1)) = (checkpoints_of (t_checkpoints (d_tables s)))
      (case k of (c, x) \<Rightarrow> (i64_of_u64 c, to_lowercase x) \<mapsto> storable b)"
    by (cases k) (auto simp: set_checkpoint_def task_bind_Inr_iff run_sql_Inr_iff now_ms_Inr_iff checkpoints_of_update)
next
  fix k b e and s s1 :: "('w, 'z) dbst_scheme"
  assume "(case k of (c, x) \<Rightarrow> set_checkpoint env c x) b s = Some (Inl e, s1)"
  then show "checkpoints_of (t_checkpoints (d_tables s1)) = checkpoints_of (t_checkpoints (d_tables s)) \<or>
      checkpoints_of (t_checkpoints (d_tables s1)) = (checkpoints_of (t_checkpoints (d_tables s)))
      (case k of (c, x) \<Rightarrow> (i64_of_u64 c, to_lowercase x) \<mapsto> storable b)"
    by (cases k) (auto simp: set_checkpoint_def task_bind_Inl_iff now_ms_Inr_iff checkpoints_of_update
        now_ms_def dest!: run_sql_write_Inl split: prod.splits)
qed

interpretation settlements: checkpoint_store
    "\<lambda>(c, r). get_settlement_checkpoint env c r" "\<lambda>(c, r). set_settlement_checkpoint env c r"
    "\<lambda>s :: ('w, 'z) dbst_scheme. checkpoints_of (t_settlement_checkpoints (d_tables s))"
    "\<lambda>(c, r). (i64_of_u64 c, r)"
  for env :: "('w, 'e) sysenv_scheme"
proof unfold_locales
  fix k r and s s1 :: "('w, 'z) dbst_scheme"
  assume "(case k of (c, x) \<Rightarrow> get_settlement_checkpoint env c x) s = Some (Inr r, s1)"
  then show "r = checkpoints_of (t_settlement_checkpoints (d_tables s)) (case k of (c, x) \<Rightarrow> (i64_of_u64 c, x))"
    by (cases k) (auto simp: get_settlement_checkpoint_def task_bind_Inr_iff run_sql_Inr_iff checkpoints_of_def)
next
  fix k b and s s1 :: "('w, 'z) dbst_scheme"
  assume "(case k of (c, x) \<Rightarrow> set_settlement_checkpoint env c x) b s = Some (Inr (), s1)"
  then show "checkpoints_of (t_settlement_checkpoints (d_tables s1)) =
      (checkpoints_of (t_settlement_checkpoints (d_tables s)))(case k of (c, x) \<Rightarrow> (i64_of_u64 c, x) \<mapsto> storable b)"
    by (cases k) (auto simp: set_settlement_checkpoint_def task_bind_Inr_iff run_sql_Inr_iff now_ms_Inr_iff
        checkpoints_of_update)
next
  fix k b e and s s1 :: "('w, 'z) dbst_scheme"
  assume "(case k of (c, x) \<Rightarrow> set_settlement_checkpoint env c x) b s = Some (Inl e, s1)"
  then show "checkpoints_of (t_settlement_checkpoints (d_tables s1)) =
        checkpoints_of (t_settlement_checkpoints (d_tables s)) \<or>
      checkpoints_of (t_settlement_checkpoints (d_tables s1)) =
      (checkpoints_of (t_settlement_checkpoints (d_tables s)))(case k of (c, x) \<Rightarrow> (i64_of_u64 c, x) \<mapsto> storable b)"
    by (cases k) (auto simp: set_settlement_checkpoint_def task_bind_Inl_iff now_ms_Inr_iff
        checkpoints_of_update now_ms_def dest!: run_sql_write_Inl split: prod.splits)
qed

section \<open>Tables that keep each log once\<close>

locale once_table =
  fixes ins :: "'e \<Rightarrow> bool sql"
    and key :: "'e \<Rightarrow> log_key"
    and keys :: "tables \<Rightarrow> log_key set"
  assumes ins_keys: "ins e t = Inr (new, t') \<Longrightarrow> keys t' = insert (key e) (keys t)"
    and ins_new: "ins e t = Inr (new, t') \<Longrightarrow> new = (key e \<notin> keys t)"
    and ins_again: "ins e t = Inr (new, t') \<Longrightarrow> key e \<in> keys t \<Longrightarrow> t' = t"
begin

lemma stored:
  assumes "run_sql env name (ins e) s = Some (Inr new, s')"
  shows "keys (d_tables s') = insert (key e) (keys (d_tables s)) \<and> new = (key e \<notin> keys (d_tables s))"
proof -
  from assms have "ins e (d_tables s) = Inr (new, d_tables s')" by (auto simp: run_sql_Inr_iff)
  from ins_keys [OF this] ins_new [OF this] show ?thesis by simp
qed

text \<open>A log that is there changes nothing, whatever the database answers.\<close>

lemma again:
  assumes "run_sql env name (ins e) s = Some (r, s')" and "key e \<in> keys (d_tables s)"
  shows "d_tables s' = d_tables s \<and> r \<noteq> Inr True"
proof (cases "ins e (d_tables s)")
  case (Inl err)
  with assms(1) show ?thesis by (auto simp: run_sql_def split: prod.splits)
next
  case (Inr p)
  then obtain new t where i: "ins e (d_tables s) = Inr (new, t)" by (cases p) auto
  from ins_new [OF i] ins_again [OF i] assms(2) have "\<not> new" and "t = d_tables s" by auto
  with i assms(1) show ?thesis by (auto simp: run_sql_def split: prod.splits verdict.splits if_splits)
qed

end

definition settlement_key :: "u64 \<Rightarrow> paid_settlement \<Rightarrow> log_key" where
  "settlement_key cid p = (i64_of_u64 cid, ps_tx_hash p, i64_of_u64 (ps_log_index p))"

definition claim_key :: "u64 \<Rightarrow> exit_credit_claim \<Rightarrow> log_key" where
  "claim_key cid c = (i64_of_u64 cid, xc_tx_hash c, i64_of_u64 (xc_log_index c))"

interpretation paid: once_table
  "insert_settlement_row x cid entry_point" "settlement_key cid" "\<lambda>t. dom (map_of (t_settlements t))"
  for x :: "'x ext_scheme" and cid entry_point
  by unfold_locales
    (auto simp: insert_settlement_row_def settlement_key_def Let_def table_simps
      split: sum.splits option.splits)

interpretation claims: once_table
  "insert_claim_row x cid pool" "claim_key cid" "\<lambda>t. dom (map_of (t_claims t))"
  for x :: "'x ext_scheme" and cid pool
  by unfold_locales
    (auto simp: insert_claim_row_def claim_key_def Let_def table_simps
      split: sum.splits option.splits)

section \<open>Totals\<close>

text \<open>What the totals say of one exit and asset: executions, exit fees, network fees.\<close>

definition settled_of :: "settled_totals_row list \<Rightarrow> string \<Rightarrow> string \<Rightarrow> int \<times> nat \<times> nat" where
  "settled_of tot exit asset =
     (case find (\<lambda>r. st_exit_address r = exit \<and> st_fee_asset r = asset) tot of
        None \<Rightarrow> (0, 0, 0)
      | Some r \<Rightarrow> (st_executions r, digits_val (st_exit_fees r), digits_val (st_network_fees r)))"

lemma find_keyed:
  assumes "\<And>k. P (F k) \<longleftrightarrow> k = key"
  shows "find P (map F keys) = (if key \<in> set keys then Some (F key) else None)"
  using assms by (induction keys) auto

abbreviation settled_by :: "string \<Rightarrow> string \<Rightarrow> settlement_row list \<Rightarrow> settlement_row list" where
  "settled_by exit asset \<equiv> filter (\<lambda>r. sr_exit_address r = exit \<and> sr_fee_asset r = asset)"

lemma settled_of_totals:
  "settled_of (settlement_totals rows) exit asset =
     (let g = settled_by exit asset rows
      in (int (length g), sum_list (map sr_exit_fee g), sum_list (map sr_network_fee g)))"
proof -
  have none: "settled_by exit asset rows = []"
    if "(exit, asset) \<notin> set (map (\<lambda>r. (sr_exit_address r, sr_fee_asset r)) rows)"
    using that by (force simp: filter_empty_conv)
  show ?thesis
    unfolding settled_of_def settlement_totals_def
    by (subst find_keyed [where key = "(exit, asset)"])
      (use none in \<open>auto simp: Let_def digits_val_nat_str\<close>)
qed

lemma settlement_totals_keys:
  "map (\<lambda>r. (st_exit_address r, st_fee_asset r)) (settlement_totals rows) =
     remdups (map (\<lambda>r. (sr_exit_address r, sr_fee_asset r)) rows)"
  by (simp add: settlement_totals_def comp_def split_beta Let_def)

lemma settlement_totals_positive: "r \<in> set (settlement_totals rows) \<Longrightarrow> 0 < st_executions r"
  by (auto simp: settlement_totals_def Let_def filter_empty_conv)

text \<open>A new row adds to its own pair only.\<close>

lemma settled_of_append:
  "settled_of (settlement_totals (rows @ [r])) exit asset =
     (case settled_of (settlement_totals rows) exit asset of (n, a, b) \<Rightarrow>
        if exit = sr_exit_address r \<and> asset = sr_fee_asset r
        then (n + 1, a + sr_exit_fee r, b + sr_network_fee r) else (n, a, b))"
  by (auto simp: settled_of_totals Let_def)

lemma update_appends: "map_of m k = None \<Longrightarrow> AList.update k v m = m @ [(k, v)]"
  by (induction m) (auto split: if_splits)

lemma stored_rows:
  assumes "insert_settlement_row x cid entry_point p t = Inr (new, t')"
  obtains f g r where "numeric78 (ps_exit_fee p) = Inr f" and "numeric78 (ps_network_fee p) = Inr g"
    and "sr_exit_address r = ps_exit_address p" and "sr_fee_asset r = ps_fee_asset p"
    and "sr_exit_fee r = f" and "sr_network_fee r = g"
    and "\<And>c ep. settlement_rows_of x c ep t' = settlement_rows_of x c ep t @
      (if new \<and> i64_of_u64 c = i64_of_u64 cid \<and> key_of_address x ep = key_of_address x entry_point then [r] else [])"
proof -
  from assms obtain f g where n: "numeric78 (ps_exit_fee p) = Inr f" "numeric78 (ps_network_fee p) = Inr g"
    by (auto simp: insert_settlement_row_def split: sum.splits)
  let ?k = "(i64_of_u64 cid, ps_tx_hash p, i64_of_u64 (ps_log_index p))"
  let ?r = "\<lparr>sr_block_number = i64_of_u64 (ps_block_number p),
       sr_block_timestamp = i64_of_u64 (ps_block_timestamp p), sr_entry_point = key_of_address x entry_point,
       sr_execution_id = ps_execution_id p, sr_payment_id = ps_payment_id p,
       sr_exit_address = ps_exit_address p, sr_fee_asset = ps_fee_asset p, sr_exit_fee = f, sr_network_fee = g,
       sr_action_target = ps_action_target p, sr_action_success = ps_action_success p\<rparr>"
  have t': "new \<and> t' = t\<lparr>t_settlements := t_settlements t @ [(?k, ?r)]\<rparr> \<or> \<not> new \<and> t' = t"
    using assms n by (auto simp: insert_settlement_row_def Let_def update_appends split: option.splits)
  have "settlement_rows_of x c ep t' = settlement_rows_of x c ep t @
      (if new \<and> i64_of_u64 c = i64_of_u64 cid \<and> key_of_address x ep = key_of_address x entry_point then [?r] else [])"
    for c ep
    using t' by (auto simp: settlement_rows_of_def)
  then show thesis using n by (intro that [of f g ?r]) simp_all
qed

section \<open>Membership and genesis\<close>

lemma deregister_except_row:
  assumes "deregister_nodes_except env keep s = Some (Inr gone, s')"
  shows "map_of (t_nodes (d_tables s')) a =
      map_option (\<lambda>r. if outside keep a r then r\<lparr>nr_status := ''deregistered''\<rparr> else r)
        (map_of (t_nodes (d_tables s)) a)"
    and "set gone = {a. \<exists>r. (a, r) \<in> set (t_nodes (d_tables s)) \<and> outside keep a r}"
proof -
  from assms show "map_of (t_nodes (d_tables s')) a =
      map_option (\<lambda>r. if outside keep a r then r\<lparr>nr_status := ''deregistered''\<rparr> else r)
        (map_of (t_nodes (d_tables s)) a)"
    by (auto simp: deregister_nodes_except_def run_sql_Inr_iff)
  from assms have "gone = map fst (filter (\<lambda>(a, r). outside keep a r) (t_nodes (d_tables s)))"
    by (auto simp: deregister_nodes_except_def run_sql_Inr_iff)
  then show "set gone = {a. \<exists>r. (a, r) \<in> set (t_nodes (d_tables s)) \<and> outside keep a r}"
    by (auto intro: rev_image_eqI)
qed

text \<open>Only \<open>ensure_network_genesis\<close> writes the key, and never over a stored value.\<close>

lemma insert_genesis_keeps:
  "insert_genesis interval t = Inr (u, t') \<Longrightarrow> map_of (t_state t) genesis_key = Some g \<Longrightarrow> t' = t"
  by (auto simp: insert_genesis_def split: sum.splits list.splits)

lemma genesis_read:
  assumes "ensure_network_genesis env interval s = Some (Inr r, s')"
  shows "r = map_of (t_state (d_tables s')) genesis_key"
    and "map_of (t_state (d_tables s)) genesis_key = Some g \<Longrightarrow> r = Some g"
  using assms
  by (auto simp: ensure_network_genesis_def task_bind_Inr_iff run_sql_Inr_iff dest: insert_genesis_keeps)

lemma reputation_step_state:
  "t_state (d_tables (reputation_step env op s)) = t_state (d_tables s)"
proof -
  let ?R = "\<lambda>t t'. t_state t' = t_state t"
  have rt: "reflp ?R" "transp ?R" by (auto simp: reflp_def transp_def)
  have u: "keeps (on_tables ?R) (upsert_reputation env a b)" for a b
    unfolding upsert_reputation_def
    by (intro keeps_bind on_tables_trans rt now_ms_keeps run_sql_keeps)
      (auto simp: upsert_reputation_row_def Let_def split: option.splits sum.splits if_splits)
  have d: "keeps (on_tables ?R) (decay_stale_scores env h)" for h
    unfolding decay_stale_scores_def
    by (intro keeps_bind on_tables_trans rt now_ms_keeps run_sql_keeps) (auto simp: decay_rows_def)
  show ?thesis
    by (cases op) (auto split: option.split dest!: keepsD [OF u] keepsD [OF d] simp: on_tables_def)
qed

lemma reputation_steps_state:
  "t_state (d_tables (fold (reputation_step env) ops s)) = t_state (d_tables s)"
  by (induction ops arbitrary: s) (simp_all add: reputation_step_state)

lemma genesis_is_min:
  assumes "ensure_network_genesis env interval s = Some (Inr (Some g), s')"
    and "map_of (t_state (d_tables s)) genesis_key = None"
  shows "\<exists>es. genesis_evidence interval (d_tables s) = Inr es \<and> g \<in> set es \<and> (\<forall>e \<in> set es. g \<le> e)"
proof -
  from assms obtain t1 where i: "insert_genesis interval (d_tables s) = Inr ((), t1)"
    and g: "map_of (t_state t1) genesis_key = Some g"
    by (auto simp: ensure_network_genesis_def task_bind_Inr_iff run_sql_Inr_iff)
  have fold_min: "fold min es e \<in> insert e (set es) \<and> (\<forall>x \<in> insert e (set es). fold min es e \<le> x)"
    for es :: "int list" and e
  proof (induction es arbitrary: e)
    case (Cons x es)
    from Cons [of "min x e"] show ?case by (auto simp: min_def split: if_splits)
  qed simp
  from i g assms(2) obtain e es where ev: "genesis_evidence interval (d_tables s) = Inr (e # es)"
    and "g = fold min es e"
    by (auto simp: insert_genesis_def table_simps split: sum.splits list.splits)
  with fold_min [of es e] show ?thesis by auto
qed

section \<open>Properties\<close>

text \<open>
  C34: a registry's checkpoint is its own. A block stored for a chain and registry is what is read
  back for them, whatever blocks are stored meanwhile for other chains or registries and whichever
  of those writes fail, so pointing the indexer at another registry and back resumes where it
  stopped. (Registries that differ only in the case of their text are the same.)
\<close>

theorem checkpoint_isolated:
  fixes s s1 s2 :: "('w, 'z) dbst_scheme"
  assumes "set_checkpoint env cid reg b s = Some (Inr (), s1)" and "uint b \<le> i64_max"
    and "\<forall>((c, r'), b') \<in> set others.
      (i64_of_u64 c, to_lowercase r') \<noteq> (i64_of_u64 cid, to_lowercase reg)"
    and "get_checkpoint env cid reg
      (fold (\<lambda>((c, r'), b'). ignoring (set_checkpoint env c r' b')) others s1) = Some (Inr r, s2)"
  shows "r = Some b"
proof -
  have f: "(\<lambda>(k', b'). ignoring ((case k' of (c, r) \<Rightarrow> set_checkpoint env c r) b'))
      = (\<lambda>((c, r'), b'). ignoring (set_checkpoint env c r' b') :: ('w, 'z) dbst_scheme \<Rightarrow> _)"
    by (auto simp: fun_eq_iff)
  show ?thesis
    using registry.put_then_get [of env "(cid, reg)" b s s1 others r s2, unfolded f] assms
    by (simp add: split_beta)
qed

theorem checkpoint_isolated_witness:
  "\<exists>s1 s2. set_checkpoint demo_sys 421614 ''0xAA'' 77 demo_db = Some (Inr (), s1) \<and>
     get_checkpoint demo_sys 421614 ''0xAA''
       (ignoring (set_checkpoint demo_sys 421614 ''0xbb'' 99) s1) = Some (Inr (Some 77), s2)"
proof -
  obtain s1 where s1: "set_checkpoint demo_sys 421614 ''0xAA'' 77 demo_db = Some (Inr (), s1)"
    by (simp add: set_checkpoint_def task_bind_def)
  have o: "\<forall>((c :: u64, r'), b' :: u64) \<in> set [((421614, ''0xbb''), 99)].
      (i64_of_u64 c, to_lowercase r') \<noteq> (i64_of_u64 421614, to_lowercase ''0xAA'')"
    by simp
  obtain r s2 where g: "get_checkpoint demo_sys 421614 ''0xAA''
       (fold (\<lambda>((c, r'), b'). ignoring (set_checkpoint demo_sys c r' b')) [((421614, ''0xbb''), 99)] s1)
       = Some (Inr r, s2)"
    by (simp add: get_checkpoint_def task_bind_def query_def task_return_def)
  have "r = Some 77" by (rule checkpoint_isolated [OF s1 _ o g]) (simp add: i64_max_def)
  with s1 g show ?thesis by auto
qed

definition demo_settlement :: paid_settlement where
  "demo_settlement =
     \<lparr>ps_tx_hash = ''0x35'', ps_log_index = 17, ps_block_number = 312421630, ps_block_timestamp = 5,
      ps_execution_id = ''0xa4'', ps_payment_id = ''0x28'', ps_exit_address = ''0xe1'',
      ps_fee_asset = ''0xa1'', ps_exit_fee = ''40'', ps_network_fee = ''2'',
      ps_action_target = ''0x6d'', ps_action_success = True\<rparr>"

lemma demo_fees [simp]: "numeric78 ''40'' = Inr 40" "numeric78 ''2'' = Inr 2"
  by (simp_all add: numeric78_def parse_unsigned_def Let_def is_digit_def digits_val_def)

text \<open>
  C35: the totals follow the stored settlements. Storing a settlement that is new adds one execution
  and its two fees to the totals of its exit and fee asset, as they are read for its chain and entry
  point; every other pair, and every other chain and entry point, keeps its totals, and a settlement
  that was stored before changes none. The totals have one row for each pair, each with an execution.
  (Amounts are compared as the numbers their decimal text stands for.)
\<close>

theorem totals_follow_settlements:
  fixes s s1 s2 s3 :: "('w, 'z) dbst_scheme"
  assumes "insert_paid_settlement env cid entry_point p s = Some (Inr new, s1)"
    and "paid_settlement_totals env c ep s = Some (Inr before, s2)"
    and "paid_settlement_totals env c ep s1 = Some (Inr after, s3)"
  shows "(\<exists>f g. numeric78 (ps_exit_fee p) = Inr f \<and> numeric78 (ps_network_fee p) = Inr g \<and>
           (\<forall>exit asset. settled_of after exit asset =
             (case settled_of before exit asset of (n, a, b) \<Rightarrow>
                if new \<and> i64_of_u64 c = i64_of_u64 cid \<and> key_of_address env ep = key_of_address env entry_point \<and>
                   exit = ps_exit_address p \<and> asset = ps_fee_asset p
                then (n + 1, a + f, b + g) else (n, a, b)))) \<and>
         new = (settlement_key cid p \<notin> dom (map_of (t_settlements (d_tables s)))) \<and>
         distinct (map (\<lambda>r. (st_exit_address r, st_fee_asset r)) after) \<and> (\<forall>r \<in> set after. 0 < st_executions r)"
proof -
  from assms(1) have ins: "insert_settlement_row env cid entry_point p (d_tables s) = Inr (new, d_tables s1)"
    by (auto simp: insert_paid_settlement_def run_sql_Inr_iff)
  from assms(2,3) have before: "before = settlement_totals (settlement_rows_of env c ep (d_tables s))"
    and after: "after = settlement_totals (settlement_rows_of env c ep (d_tables s1))"
    by (auto simp: paid_settlement_totals_def run_sql_Inr_iff)
  obtain f g r where n: "numeric78 (ps_exit_fee p) = Inr f" "numeric78 (ps_network_fee p) = Inr g"
    and r: "sr_exit_address r = ps_exit_address p" "sr_fee_asset r = ps_fee_asset p"
      "sr_exit_fee r = f" "sr_network_fee r = g"
    and rows: "settlement_rows_of env c ep (d_tables s1) = settlement_rows_of env c ep (d_tables s) @
      (if new \<and> i64_of_u64 c = i64_of_u64 cid \<and> key_of_address env ep = key_of_address env entry_point then [r] else [])"
    using stored_rows [OF ins] by metis
  have "settled_of after exit asset = (case settled_of before exit asset of (n, a, b) \<Rightarrow>
      if new \<and> i64_of_u64 c = i64_of_u64 cid \<and> key_of_address env ep = key_of_address env entry_point \<and>
         exit = ps_exit_address p \<and> asset = ps_fee_asset p then (n + 1, a + f, b + g) else (n, a, b))" for exit asset
    unfolding before after rows by (auto simp: settled_of_append r split: prod.split)
  moreover have "new = (settlement_key cid p \<notin> dom (map_of (t_settlements (d_tables s))))"
    by (rule paid.ins_new [OF ins])
  moreover have "distinct (map (\<lambda>r. (st_exit_address r, st_fee_asset r)) after)"
    unfolding after settlement_totals_keys by simp
  moreover have "\<forall>r \<in> set after. 0 < st_executions r"
    unfolding after by (blast intro: settlement_totals_positive)
  ultimately show ?thesis using n by (intro conjI) blast+
qed

theorem totals_follow_settlements_witness:
  "\<exists>s1 s3 after. insert_paid_settlement demo_sys 421614 0xbb demo_settlement demo_db = Some (Inr True, s1) \<and>
     paid_settlement_totals demo_sys 421614 0xbb s1 = Some (Inr after, s3) \<and>
     settled_of after ''0xe1'' ''0xa1'' = (1, 40, 2) \<and> settled_of after ''0xe1'' ''0xa2'' = (0, 0, 0)"
proof -
  obtain s1 where s1: "insert_paid_settlement demo_sys 421614 0xbb demo_settlement demo_db = Some (Inr True, s1)"
    by (simp add: insert_paid_settlement_def insert_settlement_row_def demo_settlement_def empty_tables_def Let_def)
  obtain s2 where s2: "paid_settlement_totals demo_sys 421614 0xbb demo_db = Some (Inr [], s2)"
    by (simp add: paid_settlement_totals_def query_def settlement_rows_of_def settlement_totals_def empty_tables_def)
  obtain after s3 where s3: "paid_settlement_totals demo_sys 421614 0xbb s1 = Some (Inr after, s3)"
    by (simp add: paid_settlement_totals_def query_def)
  from totals_follow_settlements [OF s1 s2 s3] have
    "settled_of after ''0xe1'' ''0xa1'' = (1, 40, 2)" and "settled_of after ''0xe1'' ''0xa2'' = (0, 0, 0)"
    by (simp_all add: demo_settlement_def settled_of_def)
  with s1 s3 show ?thesis by blast
qed

text \<open>
  Pruning after a verified sync is exact. Afterwards a row is registered exactly when it was
  registered before and its address is kept, in any case of its letters; only the status column of
  the pruned rows changes, and the reported addresses are the pruned ones.
\<close>

theorem pruning_exact:
  assumes "deregister_nodes_except env keep s = Some (Inr gone, s')"
    and "map_of (t_nodes (d_tables s)) a = Some r"
  shows "\<exists>r'. map_of (t_nodes (d_tables s')) a = Some r' \<and>
    (registered_row r' \<longleftrightarrow> registered_row r \<and> to_lowercase a \<in> set (map to_lowercase keep)) \<and>
    r'\<lparr>nr_status := nr_status r\<rparr> = r \<and>
    (registered_row r \<and> \<not> registered_row r' \<longrightarrow> a \<in> set gone)"
  using deregister_except_row(1) [OF assms(1), of a] deregister_except_row(2) [OF assms(1)] assms(2)
  by (auto simp: outside_def registered_row_def dest: map_of_SomeD)

theorem pruning_exact_witness:
  "\<exists>s' r'. deregister_nodes_except demo_sys [''0xAA'']
      (demo_db\<lparr>d_tables := empty_tables\<lparr>t_nodes := [(''0xaa'', demo_row), (''0xbb'', demo_row)]\<rparr>\<rparr>) =
      Some (Inr [''0xbb''], s') \<and> map_of (t_nodes (d_tables s')) ''0xbb'' = Some r' \<and>
      \<not> registered_row r'"
proof -
  let ?s = "demo_db\<lparr>d_tables := empty_tables\<lparr>t_nodes := [(''0xaa'', demo_row), (''0xbb'', demo_row)]\<rparr>\<rparr>"
  obtain s' where run: "deregister_nodes_except demo_sys [''0xAA''] ?s = Some (Inr [''0xbb''], s')"
    by (simp add: deregister_nodes_except_def outside_def registered_row_def demo_row_def)
  have row: "map_of (t_nodes (d_tables ?s)) ''0xbb'' = Some demo_row" by simp
  from pruning_exact [OF run row] run show ?thesis
    by auto
qed

text \<open>
  C36: the network's beginning is settled once. The value the first call stores is the earliest
  evidence of an uptime check, and every later call returns it, whatever uptime results and decay
  runs come in between.
\<close>

theorem genesis_written_once:
  assumes "map_of (t_state (d_tables s)) genesis_key = None"
    and "ensure_network_genesis env i s = Some (Inr (Some g), s1)"
    and "ensure_network_genesis env i' (fold (reputation_step env) ops s1) = Some (Inr r, s2)"
  shows "r = Some g \<and>
    (\<exists>es. genesis_evidence i (d_tables s) = Inr es \<and> g \<in> set es \<and> (\<forall>e \<in> set es. g \<le> e))"
proof
  have "map_of (t_state (d_tables (fold (reputation_step env) ops s1))) genesis_key = Some g"
    using genesis_read(1) [OF assms(2)] by (simp add: reputation_steps_state)
  with genesis_read(2) [OF assms(3)] show "r = Some g" by blast
  show "\<exists>es. genesis_evidence i (d_tables s) = Inr es \<and> g \<in> set es \<and> (\<forall>e \<in> set es. g \<le> e)"
    by (rule genesis_is_min [OF assms(2,1)])
qed

theorem genesis_written_once_witness:
  "\<exists>s1 s2. ensure_network_genesis demo_sys 60000
      (fold (reputation_step demo_sys) [Check ''0xaa'' True, Check ''0xaa'' True] demo_db) =
      Some (Inr (Some 1699999880000), s1) \<and>
    ensure_network_genesis demo_sys 60000 (fold (reputation_step demo_sys) [Check ''0xaa'' True] s1) =
      Some (Inr (Some 1699999880000), s2)"
proof -
  let ?s = "fold (reputation_step demo_sys) [Check ''0xaa'' True, Check ''0xaa'' True] demo_db"
  have state: "map_of (t_state (d_tables ?s)) genesis_key = None"
    unfolding reputation_steps_state by (simp add: empty_tables_def)
  obtain s1 where s1: "ensure_network_genesis demo_sys 60000 ?s = Some (Inr (Some 1699999880000), s1)"
    by (simp add: ensure_network_genesis_def upsert_reputation_def upsert_reputation_row_def
        task_bind_def empty_tables_def int4_def is_int8_def Let_def insert_genesis_def
        genesis_evidence_def query_def genesis_key_def)
  obtain r s2 where s2: "ensure_network_genesis demo_sys 60000
      (fold (reputation_step demo_sys) [Check ''0xaa'' True] s1) = Some (Inr r, s2)"
    using s1 by (auto simp: ensure_network_genesis_def upsert_reputation_def upsert_reputation_row_def
        task_bind_def empty_tables_def int4_def is_int8_def Let_def insert_genesis_def
        genesis_evidence_def query_def genesis_key_def)
  from genesis_written_once [OF state s1 s2] s1 s2 show ?thesis by auto
qed

end
