(* ===== verification/State.thy ===== *)
theory State
  imports DbLaws
begin

text \<open>
  The shared application state of \<^verbatim>\<open>src/state.rs\<close> and the messages of
  \<^verbatim>\<open>src/broadcast.rs\<close>: one record that extends the client's and the database's, with the
  sync status, the duplicate filter of topology events, and what is sent to live clients.
\<close>

section \<open>Duplicate topology events\<close>

record topo_dedup =
  td_seen :: "string set"
  td_last_clear :: nat

definition topo_dedup_new :: "nat \<Rightarrow> topo_dedup" where
  "topo_dedup_new now = \<lparr>td_seen = {}, td_last_clear = now\<rparr>"

text \<open>True when the key was not seen since the last clear; \<open>now\<close> is in nanoseconds.\<close>

definition dedup_check :: "nat \<Rightarrow> string \<Rightarrow> topo_dedup \<Rightarrow> bool \<times> topo_dedup" where
  "dedup_check now key d =
     (let d1 = (if 30 < as_secs (now - td_last_clear d)
                then d\<lparr>td_seen := {}, td_last_clear := now\<rparr> else d)
      in (key \<notin> td_seen d1, d1\<lparr>td_seen := insert key (td_seen d1)\<rparr>))"

section \<open>Sync status\<close>

datatype sync_phase = Starting | Syncing | Retrying | Live

record sync_status =
  sy_phase :: sync_phase
  sy_chain_id :: "u64 option"
  sy_registry_address :: string
  sy_last_block :: "u64 option"
  sy_scan_block :: "u64 option"
  sy_verified :: "bool option"
  sy_attempts :: u32
  sy_last_error :: "string option"
  sy_last_synced_at_ms :: "i64 option"
  sy_head_block :: "u64 option"

definition default_sync :: "string \<Rightarrow> sync_status" where
  "default_sync registry =
     \<lparr>sy_phase = Starting, sy_chain_id = None, sy_registry_address = registry, sy_last_block = None,
      sy_scan_block = None, sy_verified = None, sy_attempts = 0, sy_last_error = None,
      sy_last_synced_at_ms = None, sy_head_block = None\<rparr>"

datatype sync_unhealthy = NotLive | NeverSynced | Stale | Unverified

definition unhealthy_text :: "sync_unhealthy \<Rightarrow> string" where
  "unhealthy_text u =
     (case u of
        NotLive \<Rightarrow> ''chain sync is not live''
      | NeverSynced \<Rightarrow> ''chain sync has not completed''
      | Stale \<Rightarrow> ''chain sync is stale''
      | Unverified \<Rightarrow> ''membership disagrees with the registry'')"

definition i64_sat_sub :: "i64 \<Rightarrow> i64 \<Rightarrow> i64" where
  "i64_sat_sub a b = max i64_min (min i64_max (a - b))"

definition sync_age_secs :: "sync_status \<Rightarrow> i64 \<Rightarrow> u64 option" where
  "sync_age_secs sync now =
     map_option (\<lambda>t. (case u64_of_i64 (i64_sat_sub now t) of Some d \<Rightarrow> d | None \<Rightarrow> 0) div 1000)
       (sy_last_synced_at_ms sync)"

definition check_health :: "sync_status \<Rightarrow> i64 \<Rightarrow> u64 \<Rightarrow> sync_unhealthy + unit" where
  "check_health sync now max_age =
     (if sy_phase sync \<noteq> Live then Inl NotLive
      else case sync_age_secs sync now of
             None \<Rightarrow> Inl NeverSynced
           | Some age \<Rightarrow>
               if max_age < age then Inl Stale
               else if sy_verified sync = Some False then Inl Unverified
               else Inr ())"

definition database_markers :: "string list" where
  "database_markers =
     [''load checkpoint'', ''load registry members'', ''load settlement'', ''persist '',
      ''deregister stale'']"

definition public_error_summary :: "string \<Rightarrow> string" where
  "public_error_summary e =
     (let lower = to_lowercase e
      in if str_contains ''expected_chain_id'' lower then ''rpc chain id differs from EXPECTED_CHAIN_ID''
         else if str_contains ''disagrees with registry'' lower
         then ''replayed membership disagrees with the registry''
         else if list_ex (\<lambda>m. str_contains m lower) database_markers then ''database error''
         else if str_contains ''unknown layout'' lower
         then ''registry layout not supported by this indexer version''
         else if str_contains ''shutting down'' lower then ''shutting down''
         else (case classify_rpc_error e of
                 RateLimited \<Rightarrow> ''rpc rate limited''
               | RangeTooLarge _ \<Rightarrow> ''rpc block range limit''
               | Transient \<Rightarrow> ''rpc or sync error (see indexer logs)''))"

section \<open>The application state\<close>

text \<open>The messages sent to live clients, before they are rendered as JSON.\<close>

datatype message =
    ClusterMsg "node_state list"
  | EventMsg json
  | MetricsMsg string structured_metrics

record cached_seed =
  cs_block :: u64
  cs_topology_version :: u64
  cs_built_at :: nat
  cs_members :: "pinned_node list"
  cs_fingerprint :: string

record app_config =
  ac_node_topology_poll_secs :: u64
  ac_seed_max_pow_difficulty :: u32
  ac_max_sync_age_secs :: u64

definition max_recent_events :: nat where
  "max_recent_events = 200"

record 'w app = "'w dbst" +
  a_nodes :: "(string \<times> node_state) list"
  a_metrics :: "(string \<times> structured_metrics) list"
  a_pow_difficulties :: "(string \<times> u32) list"
  a_recent_events :: "json list"
  a_topo_dedup :: topo_dedup
  a_sent :: "message list"
  a_metric_offsets :: "(string \<times> node_offset) list"
  a_sync :: sync_status
  a_topology_version :: u64
  a_seed_cache :: "cached_seed option"
  a_probe_now :: bool
  a_network_genesis_ms :: "i64 option"
  a_settlements :: settlement_status

definition send :: "message \<Rightarrow> ('w, 'z) app_scheme \<Rightarrow> ('w, 'z) app_scheme" where
  "send msg s = s\<lparr>a_sent := a_sent s @ [msg]\<rparr>"

definition broadcast_cluster_snapshot :: "('w, 'z) app_scheme \<Rightarrow> ('w, 'z) app_scheme" where
  "broadcast_cluster_snapshot s = send (ClusterMsg (map snd (a_nodes s))) s"

definition broadcast_event :: "json \<Rightarrow> ('w, 'z) app_scheme \<Rightarrow> ('w, 'z) app_scheme" where
  "broadcast_event event s = send (EventMsg event) s"

definition broadcast_metrics ::
  "string \<Rightarrow> structured_metrics \<Rightarrow> ('w, 'z) app_scheme \<Rightarrow> ('w, 'z) app_scheme" where
  "broadcast_metrics addr m s = send (MetricsMsg addr m) s"

definition bump_topology_version :: "('w, 'z) app_scheme \<Rightarrow> ('w, 'z) app_scheme" where
  "bump_topology_version s = s\<lparr>a_topology_version := a_topology_version s + 1\<rparr>"

definition mark_synced ::
  "('w, 'e) sysenv_scheme \<Rightarrow> u64 \<Rightarrow> bool \<Rightarrow> (('w, 'z) app_scheme, unit) task" where
  "mark_synced env block verified =
     task_bind (now_ms env) (\<lambda>now.
     task_modify (\<lambda>s. s\<lparr>a_sync := (a_sync s)
       \<lparr>sy_phase := Live, sy_last_block := Some block, sy_scan_block := Some block,
        sy_verified := Some verified, sy_attempts := 0, sy_last_error := None,
        sy_last_synced_at_ms := Some now, sy_head_block := Some block\<rparr>\<rparr>))"

definition mark_caught_up ::
  "('w, 'e) sysenv_scheme \<Rightarrow> u64 \<Rightarrow> u64 \<Rightarrow> (('w, 'z) app_scheme, unit) task" where
  "mark_caught_up env last_block head =
     task_bind (now_ms env) (\<lambda>now.
     task_modify (\<lambda>s. s\<lparr>a_sync := (a_sync s)
       \<lparr>sy_last_block := Some last_block, sy_scan_block := Some last_block,
        sy_head_block := Some head, sy_last_synced_at_ms := Some now\<rparr>\<rparr>))"

text \<open>A node that counts as registered.\<close>

definition registered_node :: "node_state \<Rightarrow> bool" where
  "registered_node n \<longleftrightarrow> ns_status n \<noteq> Deregistered"

section \<open>How often a key passes the filter\<close>

fun dedup_run :: "string \<Rightarrow> (string \<times> nat) list \<Rightarrow> topo_dedup \<Rightarrow> nat" where
  "dedup_run key [] d = 0"
| "dedup_run key ((k, now) # es) d =
     (case dedup_check now k d of
        (fresh, d1) \<Rightarrow> (if fresh \<and> k = key then 1 else 0) + dedup_run key es d1)"

text \<open>The checks come in time order and within the period.\<close>

fun timed :: "nat \<Rightarrow> nat \<Rightarrow> (string \<times> nat) list \<Rightarrow> bool" where
  "timed lo till [] = True"
| "timed lo till ((k, now) # es) = (lo \<le> now \<and> now \<le> till \<and> timed now till es)"

lemma timed_weaken: "timed b till es \<Longrightarrow> a \<le> b \<Longrightarrow> timed a till es"
  by (cases es) auto

lemma as_secs_mono: "a \<le> b \<Longrightarrow> as_secs a \<le> as_secs b"
  by (simp add: as_secs_def div_le_mono)

lemma seen_key_blocked:
  assumes "timed lo till es" and "as_secs (till - td_last_clear d) \<le> 30" and "key \<in> td_seen d"
  shows "dedup_run key es d = 0"
  using assms
proof (induction key es d arbitrary: lo rule: dedup_run.induct)
  case (2 key k now es d)
  from "2.prems"(1) have now: "now \<le> till" "timed now till es" by simp_all
  have "as_secs (now - td_last_clear d) \<le> as_secs (till - td_last_clear d)"
    using now by (intro as_secs_mono) simp
  with "2.prems"(2) have "\<not> 30 < as_secs (now - td_last_clear d)" by simp
  with "2.prems" "2.IH" now show ?case by (auto simp: dedup_check_def)
qed simp

lemma cleared_once:
  assumes "timed lo till es" and "as_secs (till - td_last_clear d) \<le> 30"
  shows "dedup_run key es d \<le> 1"
  using assms
proof (induction key es d arbitrary: lo rule: dedup_run.induct)
  case (2 key k now es d)
  from "2.prems"(1) have now: "now \<le> till" "timed now till es" by simp_all
  have "as_secs (now - td_last_clear d) \<le> as_secs (till - td_last_clear d)"
    using now by (intro as_secs_mono) simp
  with "2.prems"(2) have "\<not> 30 < as_secs (now - td_last_clear d)" by simp
  then have c: "dedup_check now k d = (k \<notin> td_seen d, d\<lparr>td_seen := insert k (td_seen d)\<rparr>)"
    by (simp add: dedup_check_def)
  show ?case
  proof (cases "k = key")
    case True
    have "dedup_run key es (d\<lparr>td_seen := insert k (td_seen d)\<rparr>) = 0"
      using now(2) "2.prems"(2) True by (intro seen_key_blocked) auto
    then show ?thesis by (simp add: c)
  next
    case False
    with "2.IH" [OF c [symmetric]] now "2.prems"(2) show ?thesis by (auto simp: c)
  qed
qed simp

text \<open>A key that was seen can pass once more in a period of 31 seconds: after a clear.\<close>

lemma seen_then_once:
  assumes "key \<in> td_seen d" and "timed lo till es" and "till < lo + 31000000000"
  shows "dedup_run key es d \<le> 1"
  using assms
proof (induction key es d arbitrary: lo rule: dedup_run.induct)
  case (2 key k now es d)
  from "2.prems" have now: "lo \<le> now" "now \<le> till" "timed now till es"
    and p: "till < now + 31000000000" by simp_all
  show ?case
  proof (cases "30 < as_secs (now - td_last_clear d)")
    case True
    have c: "dedup_check now k d = (True, \<lparr>td_seen = {k}, td_last_clear = now\<rparr>)"
      using True by (simp add: dedup_check_def)
    have w: "as_secs (till - td_last_clear \<lparr>td_seen = {k}, td_last_clear = now\<rparr>) \<le> 30"
      using p by (simp add: as_secs_def)
    show ?thesis
    proof (cases "k = key")
      case True
      have "dedup_run key es \<lparr>td_seen = {k}, td_last_clear = now\<rparr> = 0"
        using True by (intro seen_key_blocked [OF now(3) w]) simp
      then show ?thesis by (simp add: c)
    next
      case False
      with cleared_once [OF now(3) w, of key] show ?thesis by (simp add: c)
    qed
  next
    case False
    then have c: "dedup_check now k d = (k \<notin> td_seen d, d\<lparr>td_seen := insert k (td_seen d)\<rparr>)"
      by (simp add: dedup_check_def)
    with "2.IH" [OF c [symmetric]] now(3) p "2.prems"(1) show ?thesis by (auto simp: c)
  qed
qed simp

lemma period_twice:
  assumes "timed lo till es" and "till < lo + 31000000000"
  shows "dedup_run key es d \<le> 2"
  using assms
proof (induction key es d arbitrary: lo rule: dedup_run.induct)
  case (2 key k now es d)
  from "2.prems" have now: "lo \<le> now" "now \<le> till" "timed now till es"
    and p: "till < now + 31000000000" by simp_all
  show ?case
  proof (cases "30 < as_secs (now - td_last_clear d)")
    case True
    let ?d = "\<lparr>td_seen = {k}, td_last_clear = now\<rparr>"
    have c: "dedup_check now k d = (True, ?d)" using True by (simp add: dedup_check_def)
    have "as_secs (till - td_last_clear ?d) \<le> 30"
      using p by (simp add: as_secs_def)
    with now(3) have "dedup_run key es ?d \<le> 1" by (rule cleared_once)
    then obtain n where n: "dedup_run key es ?d = n" "n \<le> 1" by blast
    show ?thesis unfolding dedup_run.simps c prod.case n(1) using n(2) by simp
  next
    case False
    then have c: "dedup_check now k d = (k \<notin> td_seen d, d\<lparr>td_seen := insert k (td_seen d)\<rparr>)"
      by (simp add: dedup_check_def)
    show ?thesis
    proof (cases "k = key \<and> k \<notin> td_seen d")
      case True
      let ?d = "d\<lparr>td_seen := insert k (td_seen d)\<rparr>"
      have "key \<in> td_seen ?d" using True by simp
      then have "dedup_run key es ?d \<le> 1"
        using now(3) p by (rule seen_then_once)
      then obtain n where n: "dedup_run key es ?d = n" "n \<le> 1" by blast
      show ?thesis unfolding dedup_run.simps c prod.case n(1) using n(2) by simp
    next
      case False
      with "2.IH" [OF c [symmetric]] now(3) p show ?thesis by (auto simp: c)
    qed
  qed
qed simp

section \<open>Health\<close>

lemma sync_age_le_iff:
  assumes "sy_last_synced_at_ms sync = Some t" and "i64_min \<le> now - t" and "now - t \<le> i64_max"
  shows "\<exists>age. sync_age_secs sync now = Some age \<and>
    (age \<le> max_age \<longleftrightarrow> (now - t) div 1000 \<le> uint max_age)"
proof (cases "0 \<le> now - t")
  case True
  let ?d = "word_of_int (now - t) :: u64"
  have "now - t < 2 ^ LENGTH(64)" using assms(3) by (simp add: i64_max_def)
  with True have "uint ?d = now - t" by (simp add: word_of_int_inverse)
  then have u: "uint (?d div 1000) = (now - t) div 1000" by (simp add: uint_div)
  have "sync_age_secs sync now = Some (?d div 1000)"
    using assms True by (simp add: sync_age_secs_def i64_sat_sub_def u64_of_i64_def)
  with u show ?thesis by (auto simp: word_le_def)
next
  case False
  then have "sync_age_secs sync now = Some 0" and "(now - t) div 1000 < 0"
    using assms by (simp_all add: sync_age_secs_def i64_sat_sub_def u64_of_i64_def)
  moreover from this(2) have "(now - t) div 1000 \<le> uint max_age"
    using uint_ge_0 [of max_age] by linarith
  ultimately show ?thesis by simp
qed

section \<open>Properties\<close>

text \<open>
  C38: a membership change that a node keeps reporting is published at most twice in any 31
  seconds, whatever other events are checked in between and whenever the filter was last cleared.
\<close>

theorem event_published_at_most_twice:
  assumes "timed start till es" and "till < start + 31 * 1000000000"
  shows "dedup_run key es d \<le> 2"
  using period_twice [of start till es key d] assms by simp

theorem event_published_at_most_twice_witness:
  "dedup_run ''topo_add:0xaa''
     [(''topo_add:0xaa'', 20000000000), (''topo_add:0xaa'', 30000000000), (''topo_add:0xaa'', 40000000000)]
     (topo_dedup_new 0) \<le> 2"
  by (rule event_published_at_most_twice [of 20000000000 40000000000]) simp_all

text \<open>
  The monitor endpoint calls the sync healthy exactly when it is live, its last full catch-up
  is at most the configured number of seconds ago, and the last membership check did not fail. The
  time difference may be anything a 64-bit clock can hold; a clock that went backwards counts as
  age zero.
\<close>

theorem health_exact:
  assumes "\<forall>t. sy_last_synced_at_ms sync = Some t \<longrightarrow> i64_min \<le> now - t \<and> now - t \<le> i64_max"
  shows "check_health sync now max_age = Inr () \<longleftrightarrow>
    sy_phase sync = Live \<and> sy_verified sync \<noteq> Some False \<and>
    (\<exists>t. sy_last_synced_at_ms sync = Some t \<and> (now - t) div 1000 \<le> uint max_age)"
proof (cases "sy_last_synced_at_ms sync")
  case None
  then show ?thesis by (simp add: check_health_def sync_age_secs_def)
next
  case (Some t)
  with assms sync_age_le_iff [of sync t now max_age] obtain age where
    "sync_age_secs sync now = Some age" "age \<le> max_age \<longleftrightarrow> (now - t) div 1000 \<le> uint max_age" by auto
  with Some show ?thesis by (auto simp: check_health_def not_less)
qed

theorem health_exact_witness:
  "check_health ((default_sync ''0xbb'')\<lparr>sy_phase := Live, sy_last_synced_at_ms := Some 1000,
      sy_verified := Some True\<rparr>) 301000 300 = Inr ()"
  by (subst health_exact) (simp_all add: default_sync_def i64_min_def i64_max_def)

end
