(* ===== verification/Discovery.thy ===== *)
theory Discovery
  imports State
begin

text \<open>
  Model of \<^verbatim>\<open>src/chain/discovery.rs\<close>: the registry sync. It resumes from a checkpoint or
  replays from the deployment block, checks the replayed members against the registry, makes the
  database and the memory match them, and then follows new blocks.
\<close>

section \<open>Plans and replay progress\<close>

definition sync_backoff_base :: duration where "sync_backoff_base = from_secs 2"
definition sync_backoff_cap :: duration where "sync_backoff_cap = from_secs 300"
definition verify_interval :: nat where "verify_interval = 60 * 1000000000"
definition mismatches_before_resync :: nat where "mismatches_before_resync = 2"
definition min_resync_interval :: nat where "min_resync_interval = 600 * 1000000000"
definition full_replay_mismatch_tolerance :: nat where "full_replay_mismatch_tolerance = 2"
definition verify_attempts :: nat where "verify_attempts = 5"
definition same_block_verify_attempts :: nat where "same_block_verify_attempts = 3"
definition progress_log_interval :: nat where "progress_log_interval = 15 * 1000000000"

datatype sync_plan = Full u64 | Resume u64

definition plan_start :: "sync_plan \<Rightarrow> u64" where
  "plan_start p = (case p of Full b \<Rightarrow> b | Resume b \<Rightarrow> b)"

definition is_resume :: "sync_plan \<Rightarrow> bool" where
  "is_resume p = (case p of Full _ \<Rightarrow> False | Resume _ \<Rightarrow> True)"

definition plan_sync :: "u64 option \<Rightarrow> u64 \<Rightarrow> bool \<Rightarrow> sync_plan" where
  "plan_sync checkpoint from_block force_full =
     (case checkpoint of
        Some last_block \<Rightarrow>
          if \<not> force_full \<and> from_block \<le> sat_add last_block 1 then Resume (last_block + 1)
          else Full from_block
      | None \<Rightarrow> Full from_block)"

record replay_progress =
  pr_chain_id :: u64
  pr_plan :: sync_plan
  pr_next_block :: u64
  pr_members :: "address set"

datatype sync_error = RpcError string | Mismatch string

text \<open>The supervisor's own replay progress is part of the state a failed attempt leaves behind.\<close>

record 'w sup = "'w app" +
  v_progress :: "replay_progress option"

definition instant_now :: "('w, 'e) sysenv_scheme \<Rightarrow> (('w, 'z) net_scheme, nat) task" where
  "instant_now env s = (case e_instant env (n_world s) of (t, w) \<Rightarrow> Some (Inr t, s\<lparr>n_world := w\<rparr>))"

definition is_cancelled :: "('w, 'e) sysenv_scheme \<Rightarrow> (('w, 'z) net_scheme, bool) task" where
  "is_cancelled env s = (case e_cancelled env (n_world s) of (b, w) \<Rightarrow> Some (Inr b, s\<lparr>n_world := w\<rparr>))"

text \<open>Addresses of stored members that do not parse are dropped.\<close>

definition parsed_members :: "'x ext_scheme \<Rightarrow> string list \<Rightarrow> address set" where
  "parsed_members x texts = {a. \<exists>t \<in> set texts. x_addr_parse x t = Inr a}"

definition new_progress ::
  "('w, 'e) sysenv_scheme \<Rightarrow> chain_config \<Rightarrow> u64 \<Rightarrow> bool \<Rightarrow> (('w, 'z) dbst_scheme, replay_progress) task" where
  "new_progress env cfg cid force_full =
     task_bind (task_map_err (\<lambda>e. ''load checkpoint: '' @ e)
         (get_checkpoint env cid (cc_registry_hex cfg))) (\<lambda>checkpoint.
     let plan = plan_sync checkpoint (cc_from_block cfg) force_full
     in task_bind
          (case plan of
             Full _ \<Rightarrow> task_return {}
           | Resume _ \<Rightarrow>
               task_bind (task_map_err (\<lambda>e. ''load registry members: '' @ e)
                   (load_registry_member_addresses env cid (cc_registry_hex cfg))) (\<lambda>texts.
               task_return (parsed_members env texts)))
          (\<lambda>members. task_return
             \<lparr>pr_chain_id = cid, pr_plan = plan, pr_next_block = plan_start plan,
              pr_members = members\<rparr>))"

section \<open>Replaying membership\<close>

definition replay_log :: "'x ext_scheme \<Rightarrow> chain_config \<Rightarrow> log \<Rightarrow> address set \<Rightarrow> address set" where
  "replay_log x cfg lg members =
     (case decode_log x cfg lg of
        None \<Rightarrow> members | Some event \<Rightarrow> fst (apply_membership_event event members))"

definition replay_logs :: "'x ext_scheme \<Rightarrow> chain_config \<Rightarrow> log list \<Rightarrow> address set \<Rightarrow> address set" where
  "replay_logs x cfg logs members = fold (replay_log x cfg) logs members"

text \<open>What is done with the logs up to \<open>till\<close>; the new time of the last progress report.\<close>

definition apply_chunk ::
  "('w, 'e) sysenv_scheme \<Rightarrow> chain_config \<Rightarrow> u64 \<Rightarrow> nat \<Rightarrow> log list \<Rightarrow> u64 \<Rightarrow> (('w, 'z) sup_scheme, nat) task" where
  "apply_chunk env cfg target last_log logs till s =
     (case v_progress s of
        None \<Rightarrow> None
      | Some r \<Rightarrow>
          task_bind (instant_now env) (\<lambda>now.
            if progress_log_interval \<le> now - last_log \<or> target < till + 1
            then task_bind (instant_now env) (\<lambda>last_log'.
                 task_bind (task_modify (\<lambda>s. s\<lparr>a_sync := (a_sync s)\<lparr>sy_scan_block := Some till\<rparr>\<rparr>)) (\<lambda>_.
                 task_return last_log'))
            else task_return last_log)
          (s\<lparr>v_progress := Some (r\<lparr>pr_members := replay_logs env cfg logs (pr_members r),
                                    pr_next_block := till + 1\<rparr>)\<rparr>))"

partial_function (option) scan_from ::
  "('w, 'e) sysenv_scheme \<Rightarrow> chain_config \<Rightarrow> u64 \<Rightarrow> nat \<Rightarrow> ('w, 'z) sup_scheme \<Rightarrow>
   (unit res \<times> ('w, 'z) sup_scheme) option" where
  "scan_from env cfg target last_log s =
     (case v_progress s of
        None \<Rightarrow> None
      | Some r \<Rightarrow>
          if target < pr_next_block r then Some (Inr (), s)
          else task_bind (fetch_logs_chunk env cfg (pr_next_block r) target) (\<lambda>logs_end s1.
                 task_bind (apply_chunk env cfg target last_log (fst logs_end) (snd logs_end))
                   (\<lambda>last_log' s2. scan_from env cfg target last_log' s2) s1) s)"

definition scan_membership ::
  "('w, 'e) sysenv_scheme \<Rightarrow> chain_config \<Rightarrow> u64 \<Rightarrow> (('w, 'z) sup_scheme, unit) task" where
  "scan_membership env cfg target =
     task_bind (instant_now env) (\<lambda>start. scan_from env cfg target start)"

section \<open>Making the database and the memory match\<close>

text \<open>
  The profiles of the members in address order. The code keeps up to four requests in flight and
  collects the answers in order; here one follows the other. The first error ends the read.
\<close>

definition member_profile ::
  "('w, 'e) sysenv_scheme \<Rightarrow> chain_config \<Rightarrow> address \<Rightarrow>
   (('w, 'z) net_scheme, address \<times> on_chain_node option) task" where
  "member_profile env cfg a =
     task_bind (retry_rpc env ''relayer profile'' (fetch_node_info env cfg a)) (\<lambda>info.
     task_return (a, info))"

text \<open>The node to store for a profile, with the status it had.\<close>

definition refreshed_node ::
  "('w, 'e) sysenv_scheme \<Rightarrow> chain_config \<Rightarrow> u64 \<Rightarrow> (string \<Rightarrow> node_status option) \<Rightarrow> on_chain_node \<Rightarrow> node_state" where
  "refreshed_node env cfg cid previous info =
     (let n = apply_geo (e_geo env)
                (from_chain_info env (e_allow_private env) info cid (cc_registry_hex cfg))
      in case previous (ns_address n) of
           Some st \<Rightarrow> if st \<noteq> Deregistered then n\<lparr>ns_status := st\<rparr> else n
         | None \<Rightarrow> n)"

fun persist_members ::
  "('w, 'e) sysenv_scheme \<Rightarrow> chain_config \<Rightarrow> u64 \<Rightarrow> (string \<Rightarrow> node_status option) \<Rightarrow>
   (address \<times> on_chain_node option) list \<Rightarrow> (string \<times> node_state) list \<Rightarrow>
   (('w, 'z) dbst_scheme, (string \<times> node_state) list) task" where
  "persist_members env cfg cid previous [] fresh s = Some (Inr fresh, s)"
| "persist_members env cfg cid previous ((a, info) # ps) fresh s =
     (case info of
        None \<Rightarrow> persist_members env cfg cid previous ps fresh s
      | Some i \<Rightarrow>
          (let node = refreshed_node env cfg cid previous i
           in task_bind (task_map_err (\<lambda>e. ''persist node '' @ ns_address node @ '': '' @ e)
                  (upsert_node env node)) (\<lambda>_.
                persist_members env cfg cid previous ps (AList.update (ns_address node) node fresh)) s))"

definition install_members ::
  "(string \<times> node_state) list \<Rightarrow> ('w, 'z) app_scheme \<Rightarrow> ('w, 'z) app_scheme" where
  "install_members fresh s =
     s\<lparr>a_nodes := fresh, a_metrics := filter (\<lambda>(a, m). a \<in> set (map fst fresh)) (a_metrics s)\<rparr>"

definition announce_members :: "('w, 'z) app_scheme \<Rightarrow> ('w, 'z) app_scheme" where
  "announce_members s =
     (let s1 = broadcast_cluster_snapshot (bump_topology_version s) in s1\<lparr>a_probe_now := True\<rparr>)"

definition previous_status :: "('w, 'z) app_scheme \<Rightarrow> string \<Rightarrow> node_status option" where
  "previous_status s =
     map_of (collect_map (\<lambda>(a, n). (to_lowercase a, ns_status n)) (a_nodes s))"

definition reconcile_membership ::
  "('w, 'e) sysenv_scheme \<Rightarrow> chain_config \<Rightarrow> u64 \<Rightarrow> address set \<Rightarrow> u64 \<Rightarrow> bool \<Rightarrow>
   (('w, 'z) app_scheme, unit) task" where
  "reconcile_membership env cfg cid members block verified s =
     task_bind (task_map (member_profile env cfg) (sorted_list_of_set members)) (\<lambda>profiles.
     task_bind (persist_members env cfg cid (previous_status s) profiles []) (\<lambda>fresh.
     task_bind (task_map_err (\<lambda>e. ''deregister stale nodes: '' @ e)
         (deregister_nodes_except env (map fst fresh))) (\<lambda>pruned.
     task_bind (task_map_err (\<lambda>e. ''persist checkpoint: '' @ e)
         (set_checkpoint env cid (cc_registry_hex cfg) block)) (\<lambda>_.
     task_bind (task_modify (install_members fresh)) (\<lambda>_.
     task_bind (mark_synced env block verified) (\<lambda>_.
     task_modify announce_members)))))) s"

section \<open>The initial sync\<close>

text \<open>
  One round of the membership check: target the head, scan up to it, ask the registry. A failed
  question is repeated at a fresh head after a pause, up to the limit.
\<close>

definition verify_round ::
  "('w, 'e) sysenv_scheme \<Rightarrow> chain_config \<Rightarrow> (('w, 'z) sup_scheme, u64 \<times> unit res res) task" where
  "verify_round env cfg =
     task_bind (safe_head env cfg) (\<lambda>head s1.
       case v_progress s1 of
         None \<Rightarrow> None
       | Some r \<Rightarrow>
           (let target = max head (sat_sub (pr_next_block r) 1)
            in task_bind (scan_membership env cfg target) (\<lambda>_ s2.
                 case v_progress s2 of
                   None \<Rightarrow> None
                 | Some r2 \<Rightarrow>
                     task_try (retry_rpc_attempts env ''registry membership check''
                         same_block_verify_attempts
                         (verify_membership env cfg (pr_members r2) target))
                       (\<lambda>check. task_return (target, check)) s2) s1))"

function verify_rounds ::
  "('w, 'e) sysenv_scheme \<Rightarrow> chain_config \<Rightarrow> nat \<Rightarrow> (('w, 'z) sup_scheme, u64 \<times> unit res) task" where
  "verify_rounds env cfg check_attempt s =
     task_bind (verify_round env cfg) (\<lambda>(target, check).
       case check of
         Inr verdict \<Rightarrow> task_return (target, verdict)
       | Inl e \<Rightarrow>
           if verify_attempts \<le> check_attempt + 1
           then task_fail (''registry membership check failed '' @ nat_str (check_attempt + 1)
                  @ '' times: '' @ e)
           else task_bind (backoff_pause env (check_attempt + 1) (from_millis 500) sync_backoff_base)
                  (\<lambda>stop. if stop then task_fail ''shutting down''
                          else verify_rounds env cfg (check_attempt + 1))) s"
  by auto
termination by (relation "measure (\<lambda>(env, cfg, check_attempt, s). verify_attempts - check_attempt)") auto

declare verify_rounds.simps [simp del]

text \<open>\<open>?\<close> on an inner \<open>Result<_, String>\<close>: the error becomes an RPC error. A mismatch ends the sync.\<close>

type_synonym ('s, 'a) sync_task = "'s \<Rightarrow> ((sync_error + 'a) \<times> 's) option"

definition sync_step :: "('s, 'a) task \<Rightarrow> ('a \<Rightarrow> ('s, 'b) sync_task) \<Rightarrow> ('s, 'b) sync_task" where
  "sync_step m f s =
     (case m s of
        None \<Rightarrow> None
      | Some (r, s1) \<Rightarrow> (case r of Inl e \<Rightarrow> Some (Inl (RpcError e), s1) | Inr a \<Rightarrow> f a s1))"

definition ensure_progress ::
  "('w, 'e) sysenv_scheme \<Rightarrow> chain_config \<Rightarrow> u64 \<Rightarrow> bool \<Rightarrow> (('w, 'z) sup_scheme, unit) task" where
  "ensure_progress env cfg cid force_full s =
     (if (case v_progress s of Some p \<Rightarrow> pr_chain_id p = cid | None \<Rightarrow> False) then Some (Inr (), s)
      else task_bind (new_progress env cfg cid force_full) (\<lambda>p.
             task_modify (\<lambda>s. s\<lparr>v_progress := Some p\<rparr>)) s)"

text \<open>
  One pass of the outer loop. Inl: a resumed set disagreed, so the loop goes round once more with a
  full replay; Inr: the sync ended at the block.
\<close>

definition sync_pass ::
  "('w, 'e) sysenv_scheme \<Rightarrow> chain_config \<Rightarrow> u64 \<Rightarrow> bool \<Rightarrow> bool \<Rightarrow>
   (('w, 'z) sup_scheme, unit + u64) sync_task" where
  "sync_pass env cfg cid force_full accept_unverified =
     sync_step (ensure_progress env cfg cid force_full) (\<lambda>_.
     sync_step (verify_rounds env cfg 0) (\<lambda>(target, verdict) s.
       case v_progress s of
         None \<Rightarrow> None
       | Some r \<Rightarrow>
           (case verdict of
              Inr () \<Rightarrow>
                sync_step (reconcile_membership env cfg cid (pr_members r) target True) (\<lambda>_ s1.
                  Some (Inr (Inr target), s1\<lparr>v_progress := None\<rparr>)) s
            | Inl reason \<Rightarrow>
                if is_resume (pr_plan r) then Some (Inr (Inl ()), s\<lparr>v_progress := None\<rparr>)
                else if \<not> accept_unverified then Some (Inl (Mismatch reason), s)
                else sync_step (reconcile_membership env cfg cid (pr_members r) target False) (\<lambda>_ s1.
                       Some (Inr (Inr target), s1\<lparr>v_progress := None\<rparr>)) s)))"

partial_function (option) sync_loop ::
  "('w, 'e) sysenv_scheme \<Rightarrow> chain_config \<Rightarrow> u64 \<Rightarrow> bool \<Rightarrow> bool \<Rightarrow> ('w, 'z) sup_scheme \<Rightarrow>
   ((sync_error + u64) \<times> ('w, 'z) sup_scheme) option" where
  "sync_loop env cfg cid force_full accept_unverified s =
     (case sync_pass env cfg cid force_full accept_unverified s of
        None \<Rightarrow> None
      | Some (r, s1) \<Rightarrow>
          (case r of
             Inl e \<Rightarrow> Some (Inl e, s1)
           | Inr (Inr target) \<Rightarrow> Some (Inr target, s1)
           | Inr (Inl _) \<Rightarrow> sync_loop env cfg cid True accept_unverified s1))"

definition begin_sync :: "u64 \<Rightarrow> ('w, 'z) app_scheme \<Rightarrow> ('w, 'z) app_scheme" where
  "begin_sync cid s =
     s\<lparr>a_sync := (a_sync s)\<lparr>sy_chain_id := Some cid,
         sy_phase := (if sy_phase (a_sync s) \<noteq> Retrying then Syncing else Retrying)\<rparr>\<rparr>"

definition initial_chain_sync ::
  "('w, 'e) sysenv_scheme \<Rightarrow> chain_config \<Rightarrow> bool \<Rightarrow> bool \<Rightarrow> (('w, 'z) sup_scheme, u64) sync_task" where
  "initial_chain_sync env cfg force_full accept_unverified =
     sync_step (chain_id env cfg) (\<lambda>cid s.
       sync_loop env cfg cid force_full accept_unverified (begin_sync cid s))"

section \<open>Live events\<close>

definition remove_chain_node ::
  "('w, 'e) sysenv_scheme \<Rightarrow> address \<Rightarrow> (('w, 'z) app_scheme, unit) task" where
  "remove_chain_node env a =
     (let addr = x_addr_text env a
      in task_try (deregister_node env addr) (\<lambda>r.
           case r of
             Inl e \<Rightarrow> task_return ()
           | Inr _ \<Rightarrow> task_modify (\<lambda>s. broadcast_cluster_snapshot
               (s\<lparr>a_nodes := AList.delete addr (a_nodes s),
                  a_metrics := AList.delete addr (a_metrics s),
                  a_pow_difficulties := AList.delete addr (a_pow_difficulties s)\<rparr>))))"

definition live_chain_id :: "('w, 'z) app_scheme \<Rightarrow> u64" where
  "live_chain_id s = (case sy_chain_id (a_sync s) of Some c \<Rightarrow> c | None \<Rightarrow> 0)"

definition refresh_chain_node ::
  "('w, 'e) sysenv_scheme \<Rightarrow> chain_config \<Rightarrow> address \<Rightarrow> (('w, 'z) app_scheme, unit) task" where
  "refresh_chain_node env cfg a =
     task_try (retry_rpc env ''relayer profile'' (fetch_node_info env cfg a)) (\<lambda>info.
       case info of
         Inl e \<Rightarrow> task_return ()
       | Inr None \<Rightarrow> task_return ()
       | Inr (Some i) \<Rightarrow> (\<lambda>s.
           let node = refreshed_node env cfg (live_chain_id s)
                        (\<lambda>addr. map_option ns_status (map_of (a_nodes s) addr)) i
           in task_try (upsert_node env node) (\<lambda>r.
                case r of
                  Inl e \<Rightarrow> task_return ()
                | Inr _ \<Rightarrow> task_modify (\<lambda>s. broadcast_cluster_snapshot
                    (s\<lparr>a_nodes := AList.update (ns_address node) node (a_nodes s)\<rparr>))) s))"

definition process_chain_event ::
  "('w, 'e) sysenv_scheme \<Rightarrow> chain_config \<Rightarrow> chain_node_event \<Rightarrow> (('w, 'z) app_scheme, bool) task" where
  "process_chain_event env cfg event =
     (case event of
        Registered a \<Rightarrow>
          task_bind (refresh_chain_node env cfg a) (\<lambda>_.
          task_bind (task_modify (\<lambda>s. s\<lparr>a_probe_now := True\<rparr>)) (\<lambda>_. task_return True))
      | ProfileChanged a \<Rightarrow> task_bind (refresh_chain_node env cfg a) (\<lambda>_. task_return True)
      | Removed a \<Rightarrow> task_bind (remove_chain_node env a) (\<lambda>_. task_return True)
      | Unstaked a _ \<Rightarrow> task_bind (remove_chain_node env a) (\<lambda>_. task_return True))"

fun process_logs ::
  "('w, 'e) sysenv_scheme \<Rightarrow> chain_config \<Rightarrow> log list \<Rightarrow> bool \<Rightarrow> (('w, 'z) app_scheme, bool) task" where
  "process_logs env cfg [] changed s = Some (Inr changed, s)"
| "process_logs env cfg (lg # lgs) changed s =
     (case decode_log env cfg lg of
        None \<Rightarrow> process_logs env cfg lgs changed s
      | Some event \<Rightarrow>
          task_bind (process_chain_event env cfg event) (\<lambda>c.
            process_logs env cfg lgs (changed \<or> c)) s)"

section \<open>The live loop\<close>

record event_loop =
  el_last_block :: u64
  el_last_verified :: nat
  el_mismatches :: nat

datatype loop_exit = Shutdown | Resync string

definition should_force_resync :: "nat \<Rightarrow> nat \<Rightarrow> nat \<Rightarrow> bool" where
  "should_force_resync mismatches now resync_not_before \<longleftrightarrow>
     mismatches_before_resync \<le> mismatches \<and> resync_not_before \<le> now"

text \<open>The logs of one chunk applied, and the checkpoint moved; a failed write is only logged.\<close>

definition live_chunk ::
  "('w, 'e) sysenv_scheme \<Rightarrow> chain_config \<Rightarrow> log list \<Rightarrow> u64 \<Rightarrow> bool \<Rightarrow> (('w, 'z) app_scheme, bool) task" where
  "live_chunk env cfg logs till changed =
     task_bind (process_logs env cfg logs changed) (\<lambda>changed' s.
       task_try (set_checkpoint env (live_chain_id s) (cc_registry_hex cfg) till) (\<lambda>_.
       task_bind (task_modify (\<lambda>s. s\<lparr>a_sync := (a_sync s)\<lparr>sy_last_block := Some till\<rparr>\<rparr>)) (\<lambda>_.
       task_return changed')) s)"

text \<open>Blocks up to the target; the result: the last block applied, whether anything changed, and
  whether shutdown ended the loop.\<close>

partial_function (option) catch_up ::
  "('w, 'e) sysenv_scheme \<Rightarrow> chain_config \<Rightarrow> u64 \<Rightarrow> u64 \<Rightarrow> bool \<Rightarrow> ('w, 'z) app_scheme \<Rightarrow>
   ((u64 \<times> bool \<times> bool) res \<times> ('w, 'z) app_scheme) option" where
  "catch_up env cfg target last_block changed s =
     (if target \<le> last_block then Some (Inr (last_block, changed, False), s)
      else task_try (fetch_logs_chunk env cfg (last_block + 1) target) (\<lambda>r s1.
        case r of
          Inr logs_end \<Rightarrow>
            task_bind (live_chunk env cfg (fst logs_end) (snd logs_end) changed)
              (\<lambda>changed' s2. catch_up env cfg target (snd logs_end) changed' s2) s1
        | Inl e \<Rightarrow>
            task_bind (is_cancelled env) (\<lambda>stop s2. Some (Inr (last_block, changed, stop), s2)) s1) s)"

definition live_members :: "'x ext_scheme \<Rightarrow> ('w, 'z) app_scheme \<Rightarrow> address set" where
  "live_members x s =
     {a. \<exists>n \<in> set (map snd (a_nodes s)). registered_node n \<and> x_addr_parse x (ns_address n) = Inr a}"

definition note_verified :: "bool \<Rightarrow> ('w, 'z) app_scheme \<Rightarrow> ('w, 'z) app_scheme" where
  "note_verified v s = s\<lparr>a_sync := (a_sync s)\<lparr>sy_verified := Some v\<rparr>\<rparr>"

definition note_check ::
  "('w, 'e) sysenv_scheme \<Rightarrow> nat \<Rightarrow> event_loop \<Rightarrow> unit res res \<Rightarrow>
   (('w, 'z) app_scheme, event_loop \<times> loop_exit option) task" where
  "note_check env resync_not_before l r =
     (case r of
        Inr (Inr u) \<Rightarrow>
          task_bind (task_modify (note_verified True)) (\<lambda>_.
          task_return (l\<lparr>el_mismatches := 0\<rparr>, None))
      | Inr (Inl reason) \<Rightarrow>
          (let l1 = l\<lparr>el_mismatches := el_mismatches l + 1\<rparr>
           in task_bind (task_modify (note_verified False)) (\<lambda>_.
              task_bind (instant_now env) (\<lambda>now.
              task_return (l1, if should_force_resync (el_mismatches l1) now resync_not_before
                               then Some (Resync reason) else None))))
      | Inl e \<Rightarrow> task_return (l, None))"

definition live_check ::
  "('w, 'e) sysenv_scheme \<Rightarrow> chain_config \<Rightarrow> nat \<Rightarrow> event_loop \<Rightarrow>
   (('w, 'z) app_scheme, event_loop \<times> loop_exit option) task" where
  "live_check env cfg resync_not_before l =
     task_bind (instant_now env) (\<lambda>now s.
       task_try (verify_membership env cfg (live_members env s) (el_last_block l))
         (note_check env resync_not_before (l\<lparr>el_last_verified := now\<rparr>)) s)"

definition after_catch_up ::
  "('w, 'e) sysenv_scheme \<Rightarrow> u64 \<Rightarrow> u64 \<Rightarrow> bool \<Rightarrow> (('w, 'z) app_scheme, unit) task" where
  "after_catch_up env last_block target changed =
     task_bind (if target \<le> last_block then mark_caught_up env last_block target else task_return ()) (\<lambda>_.
     if changed then task_modify bump_topology_version else task_return ())"

text \<open>One tick of the poll interval.\<close>

definition event_tick ::
  "('w, 'e) sysenv_scheme \<Rightarrow> chain_config \<Rightarrow> nat \<Rightarrow> event_loop \<Rightarrow>
   (('w, 'z) app_scheme, event_loop \<times> loop_exit option) task" where
  "event_tick env cfg resync_not_before l =
     task_try (safe_head env cfg) (\<lambda>head.
       case head of
         Inl e \<Rightarrow> task_return (l, None)
       | Inr target \<Rightarrow>
           task_bind (catch_up env cfg target (el_last_block l) False) (\<lambda>(last_block, changed, stop).
             let l1 = l\<lparr>el_last_block := last_block\<rparr>
             in if stop then task_return (l1, Some Shutdown)
                else task_bind (after_catch_up env last_block target changed) (\<lambda>_.
                     if changed then live_check env cfg resync_not_before l1
                     else task_bind (instant_now env) (\<lambda>now.
                          if now - el_last_verified l < verify_interval then task_return (l1, None)
                          else live_check env cfg resync_not_before l1))))"

section \<open>The supervisor\<close>

datatype sup_mode = Attempting | Following event_loop nat | Stopped

text \<open>The attempts and mismatches are \<open>u32\<close> in the code, natural numbers here: they are reset when the
  supervisor follows, and one attempt a second would take a century to reach the bound.\<close>

record sup_loop =
  sl_mode :: sup_mode
  sl_attempt :: nat
  sl_force_full :: bool
  sl_full_mismatches :: nat
  sl_last_forced_resync :: "nat option"

definition sup_start :: sup_loop where
  "sup_start = \<lparr>sl_mode = Attempting, sl_attempt = 0, sl_force_full = False,
                sl_full_mismatches = 0, sl_last_forced_resync = None\<rparr>"

type_synonym ('w, 'z) sup_state = "sup_loop \<times> ('w, 'z) sup_scheme"

text \<open>A failed attempt: the status, and a pause unless the process is stopping.\<close>

definition retry_later ::
  "('w, 'e) sysenv_scheme \<Rightarrow> string \<Rightarrow> sup_loop \<Rightarrow> (('w, 'z) sup_scheme, sup_loop) task" where
  "retry_later env e l =
     task_bind (is_cancelled env) (\<lambda>stopping.
       if stopping then task_return (l\<lparr>sl_mode := Stopped\<rparr>)
       else let attempt = sl_attempt l + 1
            in task_bind (task_modify (\<lambda>s. s\<lparr>a_sync := (a_sync s)
                 \<lparr>sy_phase := Retrying, sy_attempts := of_nat attempt, sy_last_error := Some e\<rparr>\<rparr>)) (\<lambda>_.
               task_bind (backoff_pause env attempt sync_backoff_base sync_backoff_cap) (\<lambda>stop.
               task_return (l\<lparr>sl_attempt := attempt,
                              sl_mode := (if stop then Stopped else Attempting)\<rparr>))))"

definition follow ::
  "('w, 'e) sysenv_scheme \<Rightarrow> u64 \<Rightarrow> sup_loop \<Rightarrow> (('w, 'z) sup_scheme, sup_loop) task" where
  "follow env last_block l =
     task_bind (case sl_last_forced_resync l of
                  Some t \<Rightarrow> task_return (t + min_resync_interval)
                | None \<Rightarrow> instant_now env) (\<lambda>not_before.
     task_bind (instant_now env) (\<lambda>now.
     task_return (l\<lparr>sl_attempt := 0, sl_full_mismatches := 0,
       sl_mode := Following \<lparr>el_last_block = last_block, el_last_verified = now, el_mismatches = 0\<rparr>
                    not_before\<rparr>)))"

definition attempt_sync ::
  "('w, 'e) sysenv_scheme \<Rightarrow> chain_config \<Rightarrow> sup_loop \<Rightarrow> (('w, 'z) sup_scheme, sup_loop) task" where
  "attempt_sync env cfg l s =
     (case initial_chain_sync env cfg (sl_force_full l)
             (full_replay_mismatch_tolerance \<le> sl_full_mismatches l) s of
        None \<Rightarrow> None
      | Some (r, s1) \<Rightarrow>
          (case r of
             Inr last_block \<Rightarrow> follow env last_block l s1
           | Inl (Mismatch reason) \<Rightarrow>
               retry_later env (''full replay disagrees with registry: '' @ reason)
                 (l\<lparr>sl_full_mismatches := sl_full_mismatches l + 1, sl_force_full := True\<rparr>)
                 (s1\<lparr>v_progress := None\<rparr>)
           | Inl (RpcError e) \<Rightarrow> retry_later env e l s1))"

definition start_attempt ::
  "('w, 'e) sysenv_scheme \<Rightarrow> chain_config \<Rightarrow> sup_loop \<Rightarrow> (('w, 'z) sup_scheme, sup_loop) task" where
  "start_attempt env cfg l =
     task_bind (is_cancelled env) (\<lambda>stopping.
       if stopping then task_return (l\<lparr>sl_mode := Stopped\<rparr>) else attempt_sync env cfg l)"

text \<open>The next tick of the live loop: the poll interval, unless shutdown comes first.\<close>

definition poll_wait :: "('w, 'e) sysenv_scheme \<Rightarrow> duration \<Rightarrow> (('w, 'z) net_scheme, bool) task" where
  "poll_wait env d s = (case e_pause env d (n_world s) of (stop, w) \<Rightarrow> Some (Inr stop, s\<lparr>n_world := w\<rparr>))"

definition follow_tick ::
  "('w, 'e) sysenv_scheme \<Rightarrow> chain_config \<Rightarrow> event_loop \<Rightarrow> nat \<Rightarrow> sup_loop \<Rightarrow>
   (('w, 'z) sup_scheme, sup_loop) task" where
  "follow_tick env cfg el not_before l =
     task_bind (poll_wait env (cc_poll_interval cfg)) (\<lambda>stop.
       if stop then task_return (l\<lparr>sl_mode := Stopped\<rparr>)
       else task_bind (event_tick env cfg not_before el) (\<lambda>(el', exit).
         case exit of
           None \<Rightarrow> task_return (l\<lparr>sl_mode := Following el' not_before\<rparr>)
         | Some Shutdown \<Rightarrow> task_return (l\<lparr>sl_mode := Stopped\<rparr>)
         | Some (Resync reason) \<Rightarrow>
             task_bind (instant_now env) (\<lambda>now.
             task_bind (task_modify (\<lambda>s. s\<lparr>v_progress := None,
                          a_sync := (a_sync s)\<lparr>sy_phase := Syncing\<rparr>\<rparr>)) (\<lambda>_.
             task_return (l\<lparr>sl_last_forced_resync := Some now, sl_force_full := True,
                            sl_mode := Attempting\<rparr>)))))"

definition sup_task ::
  "('w, 'e) sysenv_scheme \<Rightarrow> chain_config \<Rightarrow> sup_loop \<Rightarrow> (('w, 'z) sup_scheme, sup_loop) task" where
  "sup_task env cfg l =
     (case sl_mode l of
        Stopped \<Rightarrow> task_return l
      | Attempting \<Rightarrow> start_attempt env cfg l
      | Following el not_before \<Rightarrow> follow_tick env cfg el not_before l)"

text \<open>\<open>run_chain_sync\<close> from start to stop, one attempt or one tick per step.\<close>

inductive chain_sync_steps ::
  "('w, 'e) sysenv_scheme \<Rightarrow> chain_config \<Rightarrow> ('w, 'z) sup_state \<Rightarrow> ('w, 'z) sup_state \<Rightarrow> bool"
  for env cfg where
  steps_refl: "chain_sync_steps env cfg c c"
| steps_step: "chain_sync_steps env cfg c (l, s) \<Longrightarrow> sl_mode l \<noteq> Stopped \<Longrightarrow>
    sup_task env cfg l s = Some (Inr l', s') \<Longrightarrow> chain_sync_steps env cfg c (l', s')"

end
