(* ===== verification/Sync.thy ===== *)
theory Sync
  imports Discovery
begin

text \<open>
  What the registry sync guarantees: the replayed set is the fold of trusted logs over one
  contiguous range of blocks, a sync always comes back, memory and database agree after it, and a
  failed sync leaves what is served alone.
\<close>

section \<open>What network and database operations leave alone\<close>

text \<open>
  What a sync must not change before it succeeds: the nodes, their metrics, difficulties and
  lifetime totals, the event buffer with its filter, the messages sent, the topology version and the
  seed cache, the settlements, the genesis, the probe request, the sync status apart from its phase,
  chain id and scan position, and every table but the nodes and the checkpoints.
\<close>

definition unlisted :: "tables \<Rightarrow> tables" where
  "unlisted t = t\<lparr>t_nodes := [], t_checkpoints := []\<rparr>"

definition settled_sync :: "sync_status \<Rightarrow> sync_status" where
  "settled_sync y = y\<lparr>sy_phase := Starting, sy_chain_id := None, sy_scan_block := None\<rparr>"

definition served where
  "served (s :: ('w, 'z) app_scheme) =
     ((a_nodes s, a_metrics s, a_pow_difficulties s, a_metric_offsets s),
      (a_recent_events s, a_topo_dedup s, a_sent s),
      (a_topology_version s, a_seed_cache s, a_settlements s),
      (a_network_genesis_ms s, a_probe_now s, settled_sync (a_sync s)), unlisted (d_tables s))"

text \<open>A database operation that changes no table but the nodes and the checkpoints.\<close>

definition member_db :: "('w, 'z) dbst_scheme \<Rightarrow> ('w, 'z) dbst_scheme \<Rightarrow> bool" where
  "member_db = on_tables (\<lambda>t t'. unlisted t' = unlisted t)"

lemma unlisted_update [simp]:
  "unlisted (t\<lparr>t_nodes := n\<rparr>) = unlisted t" "unlisted (t\<lparr>t_checkpoints := c\<rparr>) = unlisted t"
  by (simp_all add: unlisted_def)

lemma settled_sync_update [simp]:
  "settled_sync (y\<lparr>sy_phase := p\<rparr>) = settled_sync y" "settled_sync (y\<lparr>sy_chain_id := c\<rparr>) = settled_sync y"
  "settled_sync (y\<lparr>sy_scan_block := b\<rparr>) = settled_sync y"
  by (simp_all add: settled_sync_def)

lemma more_served:
  fixes s s' :: "('w, 'z) sup_scheme"
  assumes "net.more s' = net.more s"
  shows "served s' = served s" and "v_progress s' = v_progress s" and "d_tables s' = d_tables s"
    and "a_sync s' = a_sync s"
  using assms by (cases s; cases s'; simp add: served_def)+

lemma app_more_served:
  fixes s s' :: "('w, 'z) app_scheme"
  assumes "net.more s' = net.more s"
  shows "served s' = served s" and "d_tables s' = d_tables s" and "a_sync s' = a_sync s"
    and "app.more s' = app.more s"
  using assms by (cases s; cases s'; simp add: served_def)+

lemma member_db_served:
  fixes s s' :: "('w, 'z) app_scheme"
  assumes "member_db s s'"
  shows "served s' = served s" and "a_sync s' = a_sync s" and "app.more s' = app.more s"
    and "n_chunk s' = n_chunk s" and "n_transport s' = n_transport s" and "n_chain_id s' = n_chain_id s"
  using assms by (auto simp: member_db_def on_tables_def db_only_def served_def)

lemma member_db_progress:
  fixes s s' :: "('w, 'z) sup_scheme"
  shows "member_db s s' \<Longrightarrow> v_progress s' = v_progress s"
  by (auto simp: member_db_def on_tables_def db_only_def)

lemma member_db_only: "member_db s s' \<Longrightarrow> db_only s s'"
  by (simp add: member_db_def on_tables_def)

lemma instant_now_Inr:
  "instant_now env s = Some (r, s') \<longleftrightarrow> (\<exists>t w. e_instant env (n_world s) = (t, w) \<and> r = Inr t \<and> s' = s\<lparr>n_world := w\<rparr>)"
  by (auto simp: instant_now_def split: prod.splits)

section \<open>Replay\<close>

definition registry_filter :: "chain_config \<Rightarrow> log_filter" where
  "registry_filter cfg = \<lparr>lf_addresses = [cc_registry_address cfg], lf_topic0 = []\<rparr>"

text \<open>
  \<open>replayed env cfg m b m' b'\<close>: the set \<open>m'\<close> is \<open>m\<close> with the events of the blocks from \<open>b\<close> up to
  but not including \<open>b'\<close> applied, read in chunks without a gap or an overlap, each trusted.
\<close>

inductive replayed ::
  "('w, 'e) sysenv_scheme \<Rightarrow> chain_config \<Rightarrow> address set \<Rightarrow> u64 \<Rightarrow> address set \<Rightarrow> u64 \<Rightarrow> bool"
  for env cfg where
  replayed_none: "replayed env cfg m b m b"
| replayed_chunk: "replayed env cfg m b m1 b1 \<Longrightarrow> b1 \<le> till \<Longrightarrow> till \<le> to \<Longrightarrow>
    logs_trusted env (registry_filter cfg) b1 to logs till \<Longrightarrow>
    replayed env cfg m b (replay_logs env cfg logs m1) (till + 1)"

lemma replayed_trans:
  "replayed env cfg m1 b1 m2 b2 \<Longrightarrow> replayed env cfg m b m1 b1 \<Longrightarrow> replayed env cfg m b m2 b2"
  by (induction rule: replayed.induct) (auto intro: replayed.intros)

lemma apply_chunk_ok:
  fixes s :: "('w, 'z) sup_scheme"
  assumes "v_progress s = Some r"
  shows "\<exists>t s'. apply_chunk env cfg target last_log logs till s = Some (Inr t, s') \<and>
    v_progress s' = Some (r\<lparr>pr_members := replay_logs env cfg logs (pr_members r), pr_next_block := till + 1\<rparr>) \<and>
    served s' = served s \<and> d_tables s' = d_tables s \<and> n_chunk s' = n_chunk s \<and>
    n_transport s' = n_transport s \<and> n_chain_id s' = n_chain_id s"
  using assms
  by (auto simp: apply_chunk_def task_bind_def instant_now_def task_return_def task_modify_def served_def
      split: prod.split)

definition scan_result ::
  "('w, 'e) sysenv_scheme \<Rightarrow> chain_config \<Rightarrow> u64 \<Rightarrow> ('w, 'z) sup_scheme \<Rightarrow> unit res \<Rightarrow> ('w, 'z) sup_scheme \<Rightarrow> bool" where
  "scan_result env cfg target s res s' \<longleftrightarrow>
     net_ok cfg s' \<and> served s' = served s \<and> d_tables s' = d_tables s \<and> n_chain_id s' = n_chain_id s \<and>
     (\<forall>r. v_progress s = Some r \<longrightarrow>
        (\<exists>r'. v_progress s' = Some r' \<and> pr_plan r' = pr_plan r \<and> pr_chain_id r' = pr_chain_id r \<and>
           replayed env cfg (pr_members r) (pr_next_block r) (pr_members r') (pr_next_block r') \<and>
           (res = Inr () \<longrightarrow> target < pr_next_block r' \<and>
             (pr_next_block r \<le> target \<longrightarrow> pr_next_block r' = target + 1))))"

lemma unat_next: "x \<noteq> - 1 \<Longrightarrow> unat (x + 1 :: u64) = unat x + 1"
proof -
  assume "x \<noteq> - 1"
  then have "unat x \<noteq> unat (- 1 :: u64)" by (simp only: word_unat_eq_iff not_False_eq_True)
  then have "unat x \<noteq> 18446744073709551615" by (simp add: unat_all_ones)
  with unat_u64_le [of x] have "unat x + 1 < 18446744073709551616" by linarith
  then have "unat x + 1 < 2 ^ LENGTH(64)" by simp
  then show ?thesis by (simp add: unat_word_ariths)
qed

lemma scan_from_returns:
  fixes s :: "('w, 'z) sup_scheme"
  assumes "net_ok cfg s" and "v_progress s = Some r" and "target \<noteq> - 1"
  shows "\<exists>res s'. scan_from env cfg target last_log s = Some (res, s') \<and>
    scan_result env cfg target s res s'"
  using assms(1,2)
proof (induction "unat target + 1 - unat (pr_next_block r)" arbitrary: r s last_log rule: less_induct)
  case less
  show ?case
  proof (cases "target < pr_next_block r")
    case True
    with less.prems show ?thesis
      by (subst scan_from.simps) (auto simp: scan_result_def intro: replayed_none)
  next
    case False
    let ?b = "pr_next_block r"
    from False have le: "?b \<le> target" by simp
    from fetch_chunk_returns [OF less.prems(1) le, of env "registry_filter cfg"] obtain fr s1 where
      f: "fetch_logs_chunk env cfg ?b target s = Some (fr, s1)"
      and ok: "fetch_result_ok env cfg (registry_filter cfg) ?b target s fr s1"
      unfolding fetch_logs_chunk_def registry_filter_def by auto
    from ok have more: "net.more s1 = net.more s" and net1: "net_ok cfg s1"
      and cid: "n_chain_id s1 = n_chain_id s"
      using less.prems(1) by (auto simp: fetch_result_ok_def frame_def)
    note same = more_served [OF more]
    show ?thesis
    proof (cases fr)
      case (Inl e)
      with f less.prems False same cid net1 have "scan_from env cfg target last_log s = Some (Inl e, s1)"
        and "scan_result env cfg target s (Inl e) s1"
        by (auto simp: scan_from.simps task_bind_def scan_result_def intro: replayed_none)
      then show ?thesis by blast
    next
      case (Inr p)
      obtain logs till where p: "p = (logs, till)" by (cases p)
      from ok Inr p have till: "?b \<le> till" "till \<le> target"
        and trusted: "logs_trusted env (registry_filter cfg) ?b target logs till"
        by (auto simp: fetch_result_ok_def)
      from same(2) less.prems(2) have pr1: "v_progress s1 = Some r" by simp
      let ?r = "r\<lparr>pr_members := replay_logs env cfg logs (pr_members r), pr_next_block := till + 1\<rparr>"
      from apply_chunk_ok [OF pr1, of env cfg target last_log logs till] obtain t s2 where
        a: "apply_chunk env cfg target last_log logs till s1 = Some (Inr t, s2)"
        and pr2: "v_progress s2 = Some ?r" and same2: "served s2 = served s1" "d_tables s2 = d_tables s1"
          "n_chunk s2 = n_chunk s1" "n_transport s2 = n_transport s1" "n_chain_id s2 = n_chain_id s1"
        by blast
      have net2: "net_ok cfg s2" using net1 same2 by (simp add: net_ok_def)
      have "till \<noteq> - 1" using till(2) assms(3) by (metis word_order.extremum_uniqueI)
      then have suc: "unat (till + 1) = unat till + 1" by (rule unat_next)
      have eq: "scan_from env cfg target last_log s = scan_from env cfg target t s2"
        using f a False less.prems(2) Inr p by (subst scan_from.simps) (simp add: task_bind_def)
      have "unat ?b \<le> unat till" and "unat till \<le> unat target"
        using till by (simp_all add: word_le_nat_alt)
      then have "unat target + 1 - unat (pr_next_block ?r) < unat target + 1 - unat ?b"
        by (simp add: suc)
      from less.hyps [OF this net2 pr2, of t] obtain res s' where
        run: "scan_from env cfg target t s2 = Some (res, s')"
        and sr: "scan_result env cfg target s2 res s'" by blast
      from sr pr2 obtain r' where pr': "v_progress s' = Some r'" "pr_plan r' = pr_plan r"
          "pr_chain_id r' = pr_chain_id r"
        and rep: "replayed env cfg (pr_members ?r) (till + 1) (pr_members r') (pr_next_block r')"
        and fin: "res = Inr () \<Longrightarrow> target < pr_next_block r'"
          "res = Inr () \<Longrightarrow> till + 1 \<le> target \<Longrightarrow> pr_next_block r' = target + 1"
        unfolding scan_result_def by auto
      have "replayed env cfg (pr_members r) ?b (pr_members r') (pr_next_block r')"
        using replayed_trans [OF rep] replayed_chunk [OF replayed_none till trusted] by simp
      moreover have "pr_next_block r' = target + 1" if "res = Inr ()"
      proof (cases "till + 1 \<le> target")
        case True
        with fin(2) that show ?thesis by blast
      next
        case False
        then have "unat target < unat till + 1" by (simp add: word_le_nat_alt suc)
        with till(2) have "till = target" by (simp add: word_le_nat_alt word_unat_eq_iff)
        moreover have "scan_from env cfg target t s2 = Some (Inr (), s2)"
          using pr2 False by (subst scan_from.simps) (simp add: not_le)
        ultimately show ?thesis using run pr2 pr'(1) by auto
      qed
      ultimately have "scan_result env cfg target s res s'"
        using sr pr' fin(1) same same2 cid less.prems(2) unfolding scan_result_def by simp
      with run eq show ?thesis by simp
    qed
  qed
qed

lemma scan_membership_returns:
  fixes s :: "('w, 'z) sup_scheme"
  assumes "net_ok cfg s" and "v_progress s = Some r" and "target \<noteq> - 1"
  shows "\<exists>res s'. scan_membership env cfg target s = Some (res, s') \<and> scan_result env cfg target s res s'"
proof -
  obtain t w where i: "e_instant env (n_world s) = (t, w)" by (cases "e_instant env (n_world s)")
  let ?s = "s\<lparr>n_world := w\<rparr>"
  have "net_ok cfg ?s" "v_progress ?s = Some r" using assms by (simp_all add: net_ok_def)
  from scan_from_returns [OF this assms(3), of env t] obtain res s' where
    "scan_from env cfg target t ?s = Some (res, s')" and sr: "scan_result env cfg target ?s res s'" by blast
  moreover have "scan_result env cfg target s res s'"
    using sr by (simp add: scan_result_def served_def)
  ultimately show ?thesis
    by (auto simp: scan_membership_def task_bind_def instant_now_def i)
qed

section \<open>The membership check\<close>

text \<open>The registry, asked through the endpoints, gave this count and fingerprint for the block.\<close>

definition registry_answered ::
  "('w, 'e) sysenv_scheme \<Rightarrow> chain_config \<Rightarrow> u64 \<Rightarrow> u256 \<Rightarrow> u256 \<Rightarrow> bool" where
  "registry_answered env cfg block cnt fp \<longleftrightarrow>
     (\<exists>i j raw raw'.
        endpoint_gave (e_call env) i (cc_registry_address cfg, x_count_call env, Some block) raw \<and>
        x_count_result env raw = Inr cnt \<and>
        endpoint_gave (e_call env) j (cc_registry_address cfg, x_fingerprint_call env, Some block) raw' \<and>
        x_fingerprint_result env raw' = Inr fp)"

text \<open>The set is the registry's at the block: same number, same fingerprint.\<close>

definition registry_agrees ::
  "('w, 'e) sysenv_scheme \<Rightarrow> chain_config \<Rightarrow> u64 \<Rightarrow> address set \<Rightarrow> bool" where
  "registry_agrees env cfg block members \<longleftrightarrow>
     registry_answered env cfg block (of_nat (card members)) (registry_fingerprint env members)"

text \<open>The registry gave another count or another fingerprint for the block.\<close>

definition registry_denies ::
  "('w, 'e) sysenv_scheme \<Rightarrow> chain_config \<Rightarrow> u64 \<Rightarrow> address set \<Rightarrow> bool" where
  "registry_denies env cfg block members \<longleftrightarrow>
     (\<exists>cnt fp. registry_answered env cfg block cnt fp \<and>
        (cnt \<noteq> of_nat (card members) \<or> fp \<noteq> registry_fingerprint env members))"

lemma rpc_request_served:
  assumes "net_ok cfg s" and "rpc_request cfg meth call p show_error s = Some (Inr v, s')"
  shows "\<exists>i. endpoint_gave call i p v"
proof -
  obtain r t w where req: "request (cc_endpoints cfg) meth (Inr p) call (n_transport s) (n_world s) = (r, t, w)"
    by (cases "request (cc_endpoints cfg) meth (Inr p) call (n_transport s) (n_world s)")
  with assms(2) have r: "r = Inr v" by (auto simp: rpc_request_def split: sum.splits)
  from assms(1) have "cc_endpoints cfg \<noteq> []" by (auto simp: net_ok_def transport_ok_def)
  from request_round [OF this req refl refl] r obtain i where
    "answer (call p) (length (cc_endpoints cfg)) (preferred (n_transport s) mod length (cc_endpoints cfg)) i
       (n_world s) = Served v" by auto
  then show ?thesis unfolding endpoint_gave_def answer_def by auto
qed

lemma contract_call_served:
  assumes "net_ok cfg s" and "contract_call env cfg data decode block what s = Some (Inr v, s')"
  shows "\<exists>i raw. endpoint_gave (e_call env) i (cc_registry_address cfg, data, block) raw \<and> decode raw = Inr v"
  using assms rpc_request_served [OF assms(1)] by (force simp: contract_call_def eth_call_def task_bind_Inr_iff)

lemma quiet_net_ok: "quiet cfg s s' \<Longrightarrow> net_ok cfg s \<Longrightarrow> net_ok cfg s'"
  by (simp add: quiet_def frame_def)

lemma retry_rpc_from_Inr:
  assumes "keeps (quiet cfg) operation"
  shows "retry_rpc_from env what k operation attempt s = Some (Inr v, s') \<Longrightarrow> net_ok cfg s \<Longrightarrow>
    \<exists>s0. net_ok cfg s0 \<and> operation s0 = Some (Inr v, s')"
proof (induction "k - attempt" arbitrary: attempt s rule: less_induct)
  case less
  note ok = quiet_net_ok [OF keepsD [OF assms]] quiet_net_ok [OF keepsD [OF backoff_pause_quiet]]
  from less.prems obtain r s1 where op: "operation s = Some (r, s1)"
    by (subst (asm) retry_rpc_from.simps) (auto simp: task_try_def split: option.splits prod.splits)
  show ?case
  proof (cases r)
    case (Inr u)
    with less.prems op have "u = v \<and> s1 = s'" by (subst (asm) retry_rpc_from.simps) (auto simp: task_try_def)
    with op Inr less.prems(2) show ?thesis by blast
  next
    case (Inl e)
    with less.prems op have k: "\<not> k \<le> attempt + 1"
      by (subst (asm) retry_rpc_from.simps) (auto simp: task_try_def split: if_splits)
    with less.prems(1) op Inl obtain b s2 where
      "backoff_pause env (attempt + 1) chunk_backoff_base chunk_backoff_cap s1 = Some (Inr b, s2)"
      and rest: "retry_rpc_from env what k operation (attempt + 1) s2 = Some (Inr v, s')"
      by (subst (asm) retry_rpc_from.simps) (auto simp: task_try_def task_bind_Inr_iff split: if_splits)
    then have "net_ok cfg s2" using ok op less.prems(2) by blast
    with less.hyps [of "attempt + 1" s2] k rest show ?thesis by simp
  qed
qed

lemma membership_at_answered:
  assumes "net_ok cfg s" and "membership_at env cfg block s = Some (Inr (cnt, fp), s')"
  shows "registry_answered env cfg block cnt fp"
proof -
  from assms(2) obtain s1 s2 where
    c: "contract_call env cfg (x_count_call env) (x_count_result env) (Some block)
         (''relayerCount at block '' @ u64_str block) s = Some (Inr cnt, s1)"
    and f: "contract_call env cfg (x_fingerprint_call env) (x_fingerprint_result env) (Some block)
         (''topologyFingerprint at block '' @ u64_str block) s1 = Some (Inr fp, s2)"
    by (auto simp: membership_at_def task_bind_Inr_iff)
  have "net_ok cfg s1" using keepsD [OF view_calls_quiet(5) c] assms(1) by (rule quiet_net_ok)
  from contract_call_served [OF assms(1) c] contract_call_served [OF this f] show ?thesis
    unfolding registry_answered_def by blast
qed

lemma verify_membership_Inr:
  assumes "net_ok cfg s" and "verify_membership env cfg members block s = Some (Inr (Inr ()), s')"
  shows "registry_agrees env cfg block members"
proof -
  from assms(2) obtain cnt fp s1 where m: "membership_at env cfg block s = Some (Inr (cnt, fp), s1)"
    and v: "Inr () = validate_pinned_membership env (sorted_list_of_set members) cnt fp"
    by (auto simp: verify_membership_def task_bind_Inr_iff)
  from membership_at_answered [OF assms(1) m] v [symmetric] show ?thesis
    by (auto simp: registry_agrees_def validate_iff)
qed

lemma verify_membership_Inl:
  assumes "net_ok cfg s" and "verify_membership env cfg members block s = Some (Inr (Inl reason), s')"
  shows "registry_denies env cfg block members"
proof -
  from assms(2) obtain cnt fp s1 where m: "membership_at env cfg block s = Some (Inr (cnt, fp), s1)"
    and v: "Inl reason = validate_pinned_membership env (sorted_list_of_set members) cnt fp"
    by (auto simp: verify_membership_def task_bind_Inr_iff)
  from v [symmetric] have "validate_pinned_membership env (sorted_list_of_set members) cnt fp \<noteq> Inr ()" by simp
  with membership_at_answered [OF assms(1) m] show ?thesis
    by (auto simp: registry_denies_def validate_iff)
qed

lemma contract_call_Some: "\<exists>r s'. contract_call env cfg data decode block what s = Some (r, s')"
  using rpc_request_Some [of cfg "''eth_call''" "e_call env" "(cc_registry_address cfg, data, block)"
      "x_contract_error env" s]
  by (auto simp: contract_call_def eth_call_def task_defs split: sum.split)

lemma membership_at_Some: "\<exists>r s'. membership_at env cfg block s = Some (r, s')"
proof -
  let ?c = "contract_call env cfg (x_count_call env) (x_count_result env) (Some block)
         (''relayerCount at block '' @ u64_str block)"
  let ?f = "contract_call env cfg (x_fingerprint_call env) (x_fingerprint_result env) (Some block)
         (''topologyFingerprint at block '' @ u64_str block)"
  obtain r s1 where c: "?c s = Some (r, s1)" using contract_call_Some by blast
  obtain r2 s2 where "?f s1 = Some (r2, s2)" using contract_call_Some by blast
  with c show ?thesis
    by (cases r; cases r2) (simp_all add: membership_at_def task_bind_def task_return_def)
qed

lemma verify_membership_Some: "\<exists>r s'. verify_membership env cfg members block s = Some (r, s')"
proof -
  obtain r s1 where "membership_at env cfg block s = Some (r, s1)" using membership_at_Some by blast
  then show ?thesis by (cases r) (auto simp: verify_membership_def task_bind_def task_return_def)
qed

text \<open>The block after a safe head has a number: some confirmations are configured, or no endpoint
  claims the largest block number there is.\<close>

definition head_bounded :: "('w, 'e) sysenv_scheme \<Rightarrow> chain_config \<Rightarrow> bool" where
  "head_bounded env cfg \<longleftrightarrow>
     cc_confirmations cfg \<noteq> 0 \<or> (\<forall>i. \<not> endpoint_gave (e_block_number env) i () (- 1))"

lemma safe_head_bound:
  assumes "safe_head env cfg s = Some (Inr head, s')" and "head_bounded env cfg" and "net_ok cfg s"
  shows "head \<noteq> - 1"
proof (cases "cc_confirmations cfg = 0")
  case False
  from assms(1) obtain block where head: "head = sat_sub block (cc_confirmations cfg)"
    by (auto simp: safe_head_def task_bind_Inr_iff)
  have "unat (cc_confirmations cfg) \<noteq> 0" using False by (simp add: unat_eq_zero)
  then have "unat block - unat (cc_confirmations cfg) < 18446744073709551615"
    using unat_u64_le [of block] by linarith
  then have "unat head < 2 ^ 64 - 1" by (simp add: head unat_sat_sub)
  moreover have "unat (- 1 :: u64) = 2 ^ 64 - 1" by (simp add: unat_all_ones)
  ultimately show ?thesis by (metis less_irrefl)
next
  case True
  with assms(1) have "current_block env cfg s = Some (Inr head, s')"
    by (auto simp: safe_head_def task_bind_Inr_iff sat_sub_def)
  from rpc_request_served [OF assms(3) this [unfolded current_block_def]] obtain i where
    "endpoint_gave (e_block_number env) i () head" ..
  with assms(2) True show ?thesis by (auto simp: head_bounded_def)
qed

lemma safe_head_Some: "\<exists>r s'. safe_head env cfg s = Some (r, s')"
proof -
  obtain r s1 where "current_block env cfg s = Some (r, s1)"
    unfolding current_block_def by (metis rpc_request_Some)
  then show ?thesis by (cases r) (simp_all add: safe_head_def task_bind_def task_return_def)
qed

text \<open>What checking rounds leave behind, whether or not they give a verdict.\<close>

definition progress_kept ::
  "('w, 'e) sysenv_scheme \<Rightarrow> chain_config \<Rightarrow> ('w, 'z) sup_scheme \<Rightarrow> ('w, 'z) sup_scheme \<Rightarrow> bool" where
  "progress_kept env cfg s s' \<longleftrightarrow>
     net_ok cfg s' \<and> served s' = served s \<and> d_tables s' = d_tables s \<and> n_chain_id s' = n_chain_id s \<and>
     (\<forall>r. v_progress s = Some r \<longrightarrow>
        (\<exists>r'. v_progress s' = Some r' \<and> pr_plan r' = pr_plan r \<and> pr_chain_id r' = pr_chain_id r \<and>
           replayed env cfg (pr_members r) (pr_next_block r) (pr_members r') (pr_next_block r')))"

lemma progress_kept_trans:
  "progress_kept env cfg s s1 \<Longrightarrow> progress_kept env cfg s1 s2 \<Longrightarrow> progress_kept env cfg s s2"
  unfolding progress_kept_def by (metis replayed_trans)

lemma progress_kept_more:
  fixes s s' :: "('w, 'z) sup_scheme"
  assumes "quiet cfg s s'" and "net_ok cfg s"
  shows "progress_kept env cfg s s'"
  using assms more_served [of s' s]
  by (auto simp: progress_kept_def quiet_def frame_def intro: replayed_none)

lemma scan_progress: "scan_result env cfg target s res s' \<Longrightarrow> progress_kept env cfg s s'"
  unfolding scan_result_def progress_kept_def by blast

lemma retry_small: "as_millis (sync_backoff_base div 2) < 2 ^ 64 - 1" "as_millis (sync_backoff_cap div 2) < 2 ^ 64 - 1"
  by (simp_all add: as_millis_def sync_backoff_base_def sync_backoff_cap_def from_secs_def)

definition round_result ::
  "('w, 'e) sysenv_scheme \<Rightarrow> chain_config \<Rightarrow> u64 \<Rightarrow> unit res \<Rightarrow> ('w, 'z) sup_scheme \<Rightarrow> bool" where
  "round_result env cfg target verdict s' \<longleftrightarrow>
     target \<noteq> - 1 \<and>
     (\<exists>r'. v_progress s' = Some r' \<and> pr_next_block r' = target + 1 \<and>
        (verdict = Inr () \<longrightarrow> registry_agrees env cfg target (pr_members r')) \<and>
        (verdict \<noteq> Inr () \<longrightarrow> registry_denies env cfg target (pr_members r')))"

lemma scan_membership_past:
  assumes "t < pr_next_block r" and "v_progress s = Some r"
  shows "scan_membership env cfg t s = Some (Inr (), s\<lparr>n_world := snd (e_instant env (n_world s))\<rparr>)"
  using assms by (auto simp: scan_membership_def task_bind_def instant_now_def scan_from.simps split: prod.split)

lemma verify_round_returns:
  fixes s :: "('w, 'z) sup_scheme"
  assumes "net_ok cfg s" and "v_progress s = Some r" and "head_bounded env cfg"
  shows "\<exists>res s'. verify_round env cfg s = Some (res, s') \<and> progress_kept env cfg s s' \<and>
    (\<forall>target verdict. res = Inr (target, Inr verdict) \<longrightarrow> round_result env cfg target verdict s')"
proof -
  obtain h s1 where h: "safe_head env cfg s = Some (h, s1)" using safe_head_Some by blast
  have k1: "progress_kept env cfg s s1"
    using keepsD [OF view_calls_quiet(2) h] assms(1) by (rule progress_kept_more)
  show ?thesis
  proof (cases h)
    case (Inl e)
    with h k1 show ?thesis by (auto simp: verify_round_def task_bind_def)
  next
    case (Inr head)
    let ?t = "max head (sat_sub (pr_next_block r) 1)"
    have "sat_sub (pr_next_block r) 1 \<noteq> - 1"
    proof
      assume "sat_sub (pr_next_block r) 1 = - 1"
      then have "unat (sat_sub (pr_next_block r) 1) = unat (- 1 :: u64)" by simp
      then have "unat (pr_next_block r) - 1 = 18446744073709551615" by (simp add: unat_sat_sub unat_all_ones)
      then show False using unat_u64_le [of "pr_next_block r"] by linarith
    qed
    with safe_head_bound [OF h [unfolded Inr] assms(3,1)] have t: "?t \<noteq> - 1" by (auto simp: max_def)
    have s1: "v_progress s1 = Some r" "net_ok cfg s1"
    proof -
      show "net_ok cfg s1" using k1 by (simp add: progress_kept_def)
      show "v_progress s1 = Some r"
        using keepsD [OF view_calls_quiet(2) h] more_served(2) [of s1 s] assms(2) by (simp add: quiet_def frame_def)
    qed
    from scan_membership_returns [OF s1(2,1) t, of env] obtain sr s2 where
      sc: "scan_membership env cfg ?t s1 = Some (sr, s2)" and sres: "scan_result env cfg ?t s1 sr s2" by blast
    have k2: "progress_kept env cfg s s2" by (rule progress_kept_trans [OF k1 scan_progress [OF sres]])
    show ?thesis
    proof (cases sr)
      case (Inl e)
      with h \<open>h = Inr head\<close> s1 sc k2 show ?thesis by (auto simp: verify_round_def task_bind_def Let_def)
    next
      case sr: (Inr u)
      from sres s1(1) sr obtain r2 where r2: "v_progress s2 = Some r2" and net2: "net_ok cfg s2"
        and past: "?t < pr_next_block r2"
        and at_target: "pr_next_block r \<le> ?t \<Longrightarrow> pr_next_block r2 = ?t + 1"
        and rep: "replayed env cfg (pr_members r) (pr_next_block r) (pr_members r2) (pr_next_block r2)"
        unfolding scan_result_def by auto
      have nb: "pr_next_block r2 = ?t + 1"
      proof (cases "pr_next_block r \<le> ?t")
        case False
        then have lt: "?t < pr_next_block r" by (simp only: not_le)
        have "Some (sr, s2) = Some (Inr (), s1\<lparr>n_world := snd (e_instant env (n_world s1))\<rparr>)"
          by (rule trans [OF sc [symmetric] scan_membership_past [OF lt s1(1)]])
        with r2 s1(1) have "r2 = r" by simp
        moreover have "unat ?t + 1 = unat (pr_next_block r)"
        proof -
          have "unat (sat_sub (pr_next_block r) 1) \<le> unat ?t" by (simp add: rust_arith)
          then have "unat (pr_next_block r) - 1 \<le> unat ?t" by (simp add: unat_sat_sub)
          moreover have "unat ?t < unat (pr_next_block r)" using lt by (simp only: word_less_nat_alt)
          ultimately show ?thesis by simp
        qed
        ultimately show ?thesis using unat_next [OF t] by (simp only: word_unat_eq_iff)
      qed (rule at_target)
      let ?op = "verify_membership env cfg (pr_members r2) ?t :: (('w, 'z) sup_scheme, _) task"
      obtain check s3 where chk: "retry_rpc_attempts env ''registry membership check''
          same_block_verify_attempts ?op s2 = Some (check, s3)"
        unfolding retry_rpc_attempts_def using retry_rpc_from_Some [of ?op, OF verify_membership_Some] by blast
      have q3: "quiet cfg s2 s3"
        using chk unfolding retry_rpc_attempts_def
        by (rule keepsD [OF retry_rpc_from_keeps [OF quiet_trans view_calls_quiet(9) backoff_pause_quiet quiet_refl]])
      have k3: "progress_kept env cfg s s3"
        by (rule progress_kept_trans [OF k2 progress_kept_more [OF q3 net2]])
      have pr3: "v_progress s3 = Some r2" using more_served(2) [of s3 s2] q3 r2 by (simp add: quiet_def frame_def)
      have agrees: "registry_agrees env cfg ?t (pr_members r2)" if "check = Inr (Inr ())"
      proof -
        from chk that obtain s0 where "net_ok cfg s0" and "?op s0 = Some (Inr (Inr ()), s3)"
          unfolding retry_rpc_attempts_def using retry_rpc_from_Inr [OF view_calls_quiet(9) _ net2] by blast
        then show ?thesis by (rule verify_membership_Inr)
      qed
      have denies: "registry_denies env cfg ?t (pr_members r2)" if "check = Inr v" and "v \<noteq> Inr ()" for v
      proof -
        from that obtain reason where "check = Inr (Inl reason)" by (cases v) auto
        with chk obtain s0 where "net_ok cfg s0" and "?op s0 = Some (Inr (Inl reason), s3)"
          unfolding retry_rpc_attempts_def using retry_rpc_from_Inr [OF view_calls_quiet(9) _ net2] by blast
        then show ?thesis by (rule verify_membership_Inl)
      qed
      have "verify_round env cfg s = Some (Inr (?t, check), s3)"
        using h \<open>h = Inr head\<close> s1 sc sr r2 chk
        by (simp add: verify_round_def task_bind_def task_try_def task_return_def Let_def)
      moreover have "round_result env cfg ?t v s3" if "check = Inr v" for v
        using t pr3 nb agrees denies that unfolding round_result_def by auto
      ultimately show ?thesis using k3 by blast
    qed
  qed
qed

lemma verify_rounds_returns:
  fixes s :: "('w, 'z) sup_scheme"
  assumes "head_bounded env cfg"
  shows "net_ok cfg s \<Longrightarrow> v_progress s = Some r \<Longrightarrow>
    \<exists>res s'. verify_rounds env cfg k s = Some (res, s') \<and> progress_kept env cfg s s' \<and>
    (\<forall>target verdict. res = Inr (target, verdict) \<longrightarrow> round_result env cfg target verdict s')"
proof (induction "verify_attempts - k" arbitrary: k s r rule: less_induct)
  case less
  from verify_round_returns [OF less.prems assms] obtain res s1 where
    v: "verify_round env cfg s = Some (res, s1)" and k1: "progress_kept env cfg s s1"
    and ok: "\<And>target verdict. res = Inr (target, Inr verdict) \<Longrightarrow> round_result env cfg target verdict s1"
    by blast
  from k1 less.prems(2) obtain r1 where r1: "v_progress s1 = Some r1" and net1: "net_ok cfg s1"
    unfolding progress_kept_def by blast
  consider e where "res = Inl e" | t verdict where "res = Inr (t, Inr verdict)" | t e where "res = Inr (t, Inl e)"
    by (metis sum.exhaust surj_pair)
  then show ?case
  proof cases
    case (1 e)
    with v k1 show ?thesis by (subst verify_rounds.simps) (simp add: task_bind_def)
  next
    case (2 t verdict)
    with v k1 ok show ?thesis by (subst verify_rounds.simps) (simp add: task_bind_def task_return_def)
  next
    case (3 t e)
    show ?thesis
    proof (cases "verify_attempts \<le> k + 1")
      case True
      with v k1 3 show ?thesis by (subst verify_rounds.simps) (simp add: task_bind_def task_fail_def)
    next
      case False
      obtain b s2 where p: "backoff_pause env (k + 1) (from_millis 500) sync_backoff_base s1 = Some (Inr b, s2)"
        using backoff_pause_Some [OF retry_small(1)] by blast
      have k2: "progress_kept env cfg s s2"
        by (rule progress_kept_trans [OF k1 progress_kept_more [OF keepsD [OF backoff_pause_quiet p] net1]])
      with less.prems(2) obtain r2 where r2: "v_progress s2 = Some r2" and net2: "net_ok cfg s2"
        unfolding progress_kept_def by blast
      show ?thesis
      proof (cases b)
        case True
        with v k2 3 p False show ?thesis by (subst verify_rounds.simps) (simp add: task_bind_def task_fail_def)
      next
        case nb: False
        have "verify_attempts - (k + 1) < verify_attempts - k" using False by simp
        from less.hyps [OF this net2 r2] obtain res' s' where
          "verify_rounds env cfg (k + 1) s2 = Some (res', s')" "progress_kept env cfg s2 s'"
          "\<forall>target verdict. res' = Inr (target, verdict) \<longrightarrow> round_result env cfg target verdict s'"
          by blast
        with v 3 p False nb progress_kept_trans [OF k2] show ?thesis
          by (subst verify_rounds.simps) (auto simp: task_bind_def)
      qed
    qed
  qed
qed

end
