(* ===== verification/Runs.thy ===== *)
theory Runs
  imports Sync
begin

text \<open>
  Steps that always come back and keep the client's invariant, and how they compose. Everything
  the tasks are built from is such a step, except the decoding of a malformed profile.
\<close>

definition runs :: "chain_config \<Rightarrow> (('w, 'z) net_scheme, 'a) task \<Rightarrow> bool" where
  "runs cfg m \<longleftrightarrow> (\<forall>s. net_ok cfg s \<longrightarrow> (\<exists>r s'. m s = Some (r, s') \<and> net_ok cfg s'))"

lemma runsI: "(\<And>s. net_ok cfg s \<Longrightarrow> \<exists>r s'. m s = Some (r, s') \<and> net_ok cfg s') \<Longrightarrow> runs cfg m"
  by (simp add: runs_def)

lemma runsD: "runs cfg m \<Longrightarrow> net_ok cfg s \<Longrightarrow> \<exists>r s'. m s = Some (r, s') \<and> net_ok cfg s'"
  by (simp add: runs_def)

lemma runs_bind:
  fixes m :: "(('w, 'z) net_scheme, 'a) task"
  assumes "runs cfg m" and "\<And>a. runs cfg (f a)"
  shows "runs cfg (task_bind m f)"
proof (rule runsI)
  fix s :: "('w, 'z) net_scheme"
  assume "net_ok cfg s"
  from runsD [OF assms(1) this] obtain r s1 where m: "m s = Some (r, s1)" and ok: "net_ok cfg s1" by blast
  show "\<exists>r s'. task_bind m f s = Some (r, s') \<and> net_ok cfg s'"
  proof (cases r)
    case (Inl e)
    with m ok show ?thesis by (simp add: task_bind_def)
  next
    case (Inr a)
    with m runsD [OF assms(2) ok, of a] show ?thesis by (simp add: task_bind_def)
  qed
qed

lemma runs_try:
  fixes m :: "(('w, 'z) net_scheme, 'a) task"
  assumes "runs cfg m" and "\<And>r. runs cfg (f r)"
  shows "runs cfg (task_try m f)"
proof (rule runsI)
  fix s :: "('w, 'z) net_scheme"
  assume "net_ok cfg s"
  from runsD [OF assms(1) this] obtain r s1 where "m s = Some (r, s1)" and "net_ok cfg s1" by blast
  with runsD [OF assms(2)] show "\<exists>r s'. task_try m f s = Some (r, s') \<and> net_ok cfg s'"
    by (simp add: task_try_def)
qed

lemma runs_map_err: "runs cfg m \<Longrightarrow> runs cfg (task_map_err f m)"
  unfolding runs_def task_map_err_def by (metis option.simps(5) prod.case)

lemma runs_pure:
  "runs cfg (task_return a)" "runs cfg (task_fail e)" "runs cfg (task_of_res r)"
  by (auto simp: runs_def task_return_def task_fail_def task_of_res_def)

lemma runs_modify: "(\<And>s. net_ok cfg s \<Longrightarrow> net_ok cfg (f s)) \<Longrightarrow> runs cfg (task_modify f)"
  by (auto simp: runs_def task_modify_def)

lemma runs_cases:
  "runs cfg m \<Longrightarrow> (\<And>a. runs cfg (f a)) \<Longrightarrow> runs cfg (case v of None \<Rightarrow> m | Some a \<Rightarrow> f a)"
  "(\<And>a. runs cfg (g a)) \<Longrightarrow> (\<And>a. runs cfg (f a)) \<Longrightarrow> runs cfg (case w of Inl a \<Rightarrow> g a | Inr a \<Rightarrow> f a)"
  "runs cfg m \<Longrightarrow> runs cfg n \<Longrightarrow> runs cfg (if b then m else n)"
  "(\<And>a b. runs cfg (h a b)) \<Longrightarrow> runs cfg (case p of (a, b) \<Rightarrow> h a b)"
  by (cases v; cases w; cases p; auto)+

lemma runs_map:
  assumes "\<And>x. runs cfg (f x)"
  shows "runs cfg (task_map f xs)"
proof (induction xs)
  case Nil
  show ?case by (simp add: runs_def)
next
  case (Cons x xs)
  have "task_map f (x # xs) = task_bind (f x) (\<lambda>y. task_bind (task_map f xs) (\<lambda>ys. task_return (y # ys)))"
    by (rule ext) simp
  then show ?case using Cons assms by (auto intro!: runs_bind runs_pure)
qed

lemma runs_quiet:
  fixes m :: "(('w, 'z) net_scheme, 'a) task"
  assumes "\<And>s. \<exists>r s'. m s = Some (r, s')" and "keeps (quiet cfg) m"
  shows "runs cfg m"
proof (rule runsI)
  fix s :: "('w, 'z) net_scheme"
  assume "net_ok cfg s"
  moreover from assms(1) obtain r s' where "m s = Some (r, s')" by blast
  ultimately show "\<exists>r s'. m s = Some (r, s') \<and> net_ok cfg s'"
    using keepsD [OF assms(2)] quiet_net_ok by blast
qed

lemma runs_rpc: "runs cfg (rpc_request cfg meth call p show_error)"
  by (rule runs_quiet [OF rpc_request_Some rpc_request_quiet])

lemma runs_pause:
  assumes "as_millis (cap div 2) < 2 ^ 64 - 1"
  shows "runs cfg (backoff_pause env attempt base cap)"
  by (rule runs_quiet [OF _ backoff_pause_quiet]) (use backoff_pause_Some [OF assms] in blast)

lemma runs_retry_from:
  assumes "runs cfg m"
  shows "runs cfg (retry_rpc_from env what k m attempt)"
proof (induction "k - attempt" arbitrary: attempt rule: less_induct)
  case less
  have step: "retry_rpc_from env what k m attempt =
      task_try m (\<lambda>r. case r of
         Inr v \<Rightarrow> task_return v
       | Inl e \<Rightarrow>
           if k \<le> attempt + 1
           then task_fail (what @ '' failed after '' @ nat_str (attempt + 1) @ '' attempts: '' @ e)
           else task_bind (backoff_pause env (attempt + 1) chunk_backoff_base chunk_backoff_cap)
                  (\<lambda>stop. if stop then task_fail (what @ '': shutting down'')
                          else retry_rpc_from env what k m (attempt + 1)))"
    by (rule ext) (subst retry_rpc_from.simps, simp)
  have rest: "runs cfg (if k \<le> attempt + 1 then task_fail e'
       else task_bind (backoff_pause env (attempt + 1) chunk_backoff_base chunk_backoff_cap)
              (\<lambda>stop. if stop then task_fail e'' else retry_rpc_from env what k m (attempt + 1)))" for e' e''
  proof (cases "k \<le> attempt + 1")
    case False
    then have "k - (attempt + 1) < k - attempt" by simp
    with False show ?thesis
      by (simp only: if_False) (intro runs_bind runs_pause chunk_cap_small runs_cases runs_pure less.hyps)
  qed (simp add: runs_pure)
  show ?case unfolding step by (intro runs_try assms runs_cases runs_pure rest)
qed

lemma runs_retry: "runs cfg m \<Longrightarrow> runs cfg (retry_rpc env what m)"
  and runs_retry_attempts: "runs cfg m \<Longrightarrow> runs cfg (retry_rpc_attempts env what k m)"
  unfolding retry_rpc_def retry_rpc_attempts_def by (rule runs_retry_from, assumption)+

lemma runs_views:
  "runs cfg (current_block env cfg)" "runs cfg (safe_head env cfg)"
  "runs cfg (eth_call env cfg data block show_error)"
  "runs cfg (contract_call env cfg data decode block what)"
  "runs cfg (fetch_role env cfg a block)" "runs cfg (membership_at env cfg n)"
  "runs cfg (verify_membership env cfg members n)" "runs cfg (block_timestamp env cfg n)"
  unfolding current_block_def safe_head_def eth_call_def contract_call_def fetch_role_def
    membership_at_def verify_membership_def block_timestamp_def
  by (intro runs_bind runs_rpc runs_map_err runs_pure runs_cases)+

lemma runs_statement:
  fixes m :: "(('w, 'z) dbst_scheme, 'a) task"
  assumes "\<And>s. \<exists>r s'. m s = Some (r, s') \<and> db_only s s'"
  shows "runs cfg m"
  unfolding runs_def
proof (intro allI impI)
  fix s :: "('w, 'z) dbst_scheme"
  assume ok: "net_ok cfg s"
  from assms obtain r s' where "m s = Some (r, s')" and "db_only s s'" by blast
  with ok show "\<exists>r s'. m s = Some (r, s') \<and> net_ok cfg s'" by (auto simp: db_only_def net_ok_def)
qed

lemma runs_sql: "runs cfg (run_sql env name stmt :: (('w, 'z) dbst_scheme, 'a) task)"
proof (rule runs_statement)
  fix s :: "('w, 'z) dbst_scheme"
  obtain r s' where r: "run_sql env name stmt s = Some (r, s')" using run_sql_Some by blast
  moreover have "on_tables (\<lambda>_ _. True) s s'"
    using keepsD [OF run_sql_keeps [of stmt "\<lambda>_ _. True" env name] r] by (simp add: reflp_def)
  ultimately show "\<exists>r s'. run_sql env name stmt s = Some (r, s') \<and> db_only s s'" by (auto simp: on_tables_def)
qed

lemma runs_now: "runs cfg (now_ms env)"
  by (rule runs_statement) (simp add: now_ms_def split: prod.split)

lemma runs_instant: "runs cfg (instant_now env)" and runs_cancelled: "runs cfg (is_cancelled env)"
  by (auto simp: runs_def instant_now_def is_cancelled_def net_ok_def split: prod.split)

text \<open>No endpoint answers a profile that makes the decoder panic.\<close>

definition profiles_decode :: "('w, 'e) sysenv_scheme \<Rightarrow> chain_config \<Rightarrow> bool" where
  "profiles_decode env cfg \<longleftrightarrow>
     (\<forall>i a block raw. endpoint_gave (e_call env) i (cc_registry_address cfg, relayers_calldata env a, block) raw \<longrightarrow>
        decode_relayer_profile env raw \<noteq> None)"

lemma runs_profile:
  assumes "profiles_decode env cfg"
  shows "runs cfg (fetch_profile env cfg a block :: (('w, 'z) net_scheme, _) task)"
proof (rule runsI)
  fix s :: "('w, 'z) net_scheme"
  assume ok: "net_ok cfg s"
  let ?call = "eth_call env cfg (relayers_calldata env a) block
      (\<lambda>e. ''relayers('' @ x_addr_text env a @ '') call failed: '' @ x_provider_error env e)"
  from runsD [OF runs_views(3) ok] obtain r s1 where c: "?call s = Some (r, s1)" and ok1: "net_ok cfg s1" by blast
  show "\<exists>r s'. fetch_profile env cfg a block s = Some (r, s') \<and> net_ok cfg s'"
  proof (cases r)
    case (Inl e)
    with c ok1 show ?thesis by (simp add: fetch_profile_def task_bind_def)
  next
    case (Inr raw)
    from rpc_request_served [OF ok c [unfolded eth_call_def Inr]] obtain i where
      "endpoint_gave (e_call env) i (cc_registry_address cfg, relayers_calldata env a, block) raw" ..
    with assms have "decode_relayer_profile env raw \<noteq> None" unfolding profiles_decode_def by blast
    with c Inr ok1 show ?thesis
      by (auto simp: fetch_profile_def task_bind_def task_fail_def task_return_def split: option.splits sum.splits)
  qed
qed

lemma runs_node_info: "profiles_decode env cfg \<Longrightarrow> runs cfg (fetch_node_info env cfg a)"
  unfolding fetch_node_info_def by (intro runs_bind runs_profile runs_cases runs_pure runs_views)

section \<open>An application state for the examples\<close>

lemma demo_sys_answers [simp]: "answers_demo demo_sys"
  by (simp add: answers_demo_def demo_sys_def demo_defs sysenv.defs)

text \<open>Synced to block 980 with the member set of the demo registry still to be checked.\<close>

definition demo_app :: "unit app" where
  "demo_app = dbst.extend (demo_db\<lparr>n_chain_id := 421614\<rparr>)
     (app.fields [] [] [] [] (topo_dedup_new 0) [] [] (default_sync ''0xbb'') 0 None False None
        default_settlement_status)"

definition demo_sup :: "unit sup" where
  "demo_sup = app.extend demo_app (sup.fields (Some
     \<lparr>pr_chain_id = 421614, pr_plan = Resume 981, pr_next_block = 981, pr_members = {0xaa}\<rparr>))"

lemmas demo_app_defs = demo_app_def demo_sup_def demo_db_def demo_net_def net.defs dbst.defs app.defs sup.defs

lemma demo_app_sel [simp]:
  "n_chain_id demo_app = 421614" "preferred (n_transport demo_app) = 0" "d_tables demo_app = empty_tables"
  "a_nodes demo_app = []" "a_metrics demo_app = []" "a_sync demo_app = default_sync ''0xbb''"
  "a_seed_cache demo_app = None" "a_recent_events demo_app = []" "a_settlements demo_app = default_settlement_status"
  by (simp_all add: demo_app_defs)

lemma demo_sup_sel [simp]:
  "n_chain_id demo_sup = 421614" "preferred (n_transport demo_sup) = 0" "d_tables demo_sup = empty_tables"
  "a_nodes demo_sup = []" "a_metrics demo_sup = []" "a_sync demo_sup = default_sync ''0xbb''"
  "v_progress demo_sup = Some \<lparr>pr_chain_id = 421614, pr_plan = Resume 981, pr_next_block = 981, pr_members = {0xaa}\<rparr>"
  by (simp_all add: demo_app_defs)

lemma demo_app_ok: "net_ok demo_cfg demo_app" and demo_sup_ok: "net_ok demo_cfg demo_sup"
  using demo_cfg_ok by (simp_all add: net_ok_def demo_app_defs)

end
