(* ===== verification/Reconcile.thy ===== *)
theory Reconcile
  imports DbLaws Runs
begin

text \<open>
  What a whole registry sync does: after a successful one the memory, the database and the verified
  set agree; a failed one leaves everything clients are served untouched; it always comes back
  unless a profile answer makes the decoder panic.
\<close>

section \<open>Steps that leave the served state alone\<close>

definition untouched :: "chain_config \<Rightarrow> ('w, 'z) app_scheme \<Rightarrow> ('w, 'z) app_scheme \<Rightarrow> bool" where
  "untouched cfg s s' \<longleftrightarrow>
     served s' = served s \<and> a_sync s' = a_sync s \<and> app.more s' = app.more s \<and>
     n_chain_id s' = n_chain_id s \<and> (net_ok cfg s \<longrightarrow> net_ok cfg s')"

lemma untouched_refl [simp]: "reflp (untouched cfg)" and untouched_trans [simp]: "transp (untouched cfg)"
  by (auto simp: untouched_def reflp_def transp_def)

lemma untouched_quiet: "quiet cfg s s' \<Longrightarrow> untouched cfg s s'"
  using app_more_served [of s' s] by (auto simp: untouched_def quiet_def frame_def)

lemma untouched_db: "member_db s s' \<Longrightarrow> untouched cfg s s'"
  using member_db_served [of s s'] by (simp add: untouched_def net_ok_def)

lemma members_reflp [simp]: "reflp (\<lambda>t t'. unlisted t' = unlisted t)"
  and members_transp [simp]: "transp (\<lambda>t t'. unlisted t' = unlisted t)"
  by (auto simp: reflp_def transp_def)

lemma member_db_reflp [simp]: "reflp member_db" and member_db_transp [simp]: "transp member_db"
  unfolding member_db_def by (simp_all add: on_tables_refl on_tables_trans)

lemma member_db_trans: "member_db s s1 \<Longrightarrow> member_db s1 s2 \<Longrightarrow> member_db s s2"
  by (rule transpD [OF member_db_transp])

lemma run_sql_members:
  assumes "\<And>t a t'. stmt t = Inr (a, t') \<Longrightarrow> unlisted t' = unlisted t"
  shows "keeps member_db (run_sql env name stmt)"
  unfolding member_db_def by (rule run_sql_keeps [OF _ members_reflp]) (rule assms)

lemma now_ms_members: "keeps member_db (now_ms env)"
  unfolding member_db_def by (rule now_ms_keeps [OF members_reflp])

lemma now_ms_db: "keeps db_only (now_ms env)"
  using now_ms_keeps [of "\<lambda>_ _. True" env] by (auto simp: keeps_def on_tables_def reflp_def)

lemma db_only_reflp [simp]: "reflp db_only" and db_only_transp [simp]: "transp db_only"
  using db_only_refl db_only_trans by (auto simp: reflp_def transp_def)

lemma statements_members:
  "keeps member_db (upsert_node env n)" "keeps member_db (deregister_nodes_except env keep)"
  "keeps member_db (set_checkpoint env cid reg block)" "keeps member_db (get_checkpoint env cid reg)"
  "keeps member_db (load_registry_member_addresses env cid reg)"
  "keeps member_db (deregister_node env addr)" "keeps member_db (update_node_status env addr st)"
  unfolding upsert_node_def deregister_nodes_except_def set_checkpoint_def get_checkpoint_def
    load_registry_member_addresses_def deregister_node_def update_node_status_def
  by (intro keeps_bind [OF member_db_transp] keeps_pure [OF member_db_reflp] run_sql_members now_ms_members;
      auto simp: query_def Let_def split: if_splits prod.splits)+

lemma run_sql_db: "keeps db_only (run_sql env name stmt)"
  using run_sql_keeps [of stmt "\<lambda>_ _. True" env name]
  by (auto simp: keeps_def on_tables_def reflp_def)

lemmas db_bind = keeps_bind [OF db_only_transp]
lemmas db_pure = keeps_pure [OF db_only_reflp]

lemma members_db: "keeps member_db m \<Longrightarrow> keeps db_only m"
  by (rule keeps_weaken [OF _ member_db_only])

lemmas statements_db_only = statements_members [THEN members_db]
lemmas members_bind = keeps_bind [OF member_db_transp]
lemmas members_pure = keeps_pure [OF member_db_reflp]

section \<open>Writing the members\<close>

lemma refreshed_node_simps [simp]:
  "ns_address (refreshed_node env cfg cid previous i) = to_lowercase (oc_address i)"
  "registered_node (refreshed_node env cfg cid previous i)"
  by (auto simp: refreshed_node_def registered_node_def Let_def from_chain_info_def split: option.split)

definition row_stored :: "tables \<Rightarrow> string \<times> node_state \<Rightarrow> bool" where
  "row_stored t p \<longleftrightarrow> (case p of (a, n) \<Rightarrow>
     a = ns_address n \<and> to_lowercase a = a \<and> registered_node n \<and> map_of (t_nodes t) a = Some (row_of_node n))"

definition all_stored :: "tables \<Rightarrow> (string \<times> node_state) list \<Rightarrow> bool" where
  "all_stored t fresh \<longleftrightarrow> distinct_keys fresh \<and> list_all (row_stored t) fresh"

lemma set_update_distinct: "set (AList.update k v m) \<subseteq> insert (k, v) {p \<in> set m. fst p \<noteq> k}"
  if "distinct_keys m" for m :: "('k \<times> 'v) list"
  using that by (induction m) (auto simp: image_iff)

lemma all_stored_update:
  assumes "all_stored t fresh" and "registered_node n" and "to_lowercase (ns_address n) = ns_address n"
    and "t_nodes t' = AList.update (ns_address n) (row_of_node n) (t_nodes t)"
  shows "all_stored t' (AList.update (ns_address n) n fresh)"
proof -
  have "row_stored t' p" if "p \<in> set (AList.update (ns_address n) n fresh)" for p
  proof -
    from assms(1) that set_update_distinct [of fresh "ns_address n" n]
    consider "p = (ns_address n, n)" | "p \<in> set fresh" "fst p \<noteq> ns_address n"
      unfolding all_stored_def by blast
    then show ?thesis
      using assms by cases (auto simp: row_stored_def all_stored_def list_all_iff table_simps)
  qed
  with assms(1) show ?thesis by (auto simp: all_stored_def list_all_iff)
qed

definition profiled :: "(address \<times> on_chain_node option) list \<Rightarrow> string set" where
  "profiled ps = {to_lowercase (oc_address i) | a i. (a, Some i) \<in> set ps}"

lemma profiled_simps [simp]:
  "profiled [] = {}" "profiled ((a, None) # ps) = profiled ps"
  "profiled ((a, Some i) # ps) = insert (to_lowercase (oc_address i)) (profiled ps)"
  by (auto simp: profiled_def)

lemma persist_members_db: "persist_members env cfg cid prev ps fresh s = Some (r, s') \<Longrightarrow> member_db s s'"
proof (induction env cfg cid prev ps fresh s rule: persist_members.induct)
  case (1 env cfg cid prev fresh s)
  then show ?case using reflpD [OF member_db_reflp] by simp
next
  case (2 env cfg cid prev a info ps fresh s)
  show ?case
  proof (cases info)
    case None
    with 2 show ?thesis by simp
  next
    case (Some i)
    let ?n = "refreshed_node env cfg cid prev i"
    obtain r1 s1 where u: "upsert_node env ?n s = Some (r1, s1)"
      unfolding upsert_node_def using run_sql_Some by blast
    have "member_db s s1" using keepsD [OF statements_members(1) u] .
    moreover have "member_db s1 s'" if "r1 = Inr ()"
      using 2 Some u that by (simp add: task_bind_def task_map_err_def Let_def)
    moreover have "s' = s1" if "r1 = Inl e" for e
      using 2 Some u that by (simp add: task_bind_def task_map_err_def Let_def)
    ultimately show ?thesis using member_db_trans by (cases r1) auto
  qed
qed

lemma persist_members_stored:
  "persist_members env cfg cid prev ps fresh s = Some (Inr fresh', s') \<Longrightarrow>
   all_stored (d_tables s) fresh \<Longrightarrow>
   all_stored (d_tables s') fresh' \<and> fst ` set fresh' = fst ` set fresh \<union> profiled ps"
proof (induction env cfg cid prev ps fresh s rule: persist_members.induct)
  case (1 env cfg cid prev fresh s)
  then show ?case by simp
next
  case (2 env cfg cid prev a info ps fresh s)
  show ?case
  proof (cases info)
    case None
    with 2 show ?thesis by simp
  next
    case (Some i)
    let ?n = "refreshed_node env cfg cid prev i"
    from 2(3) Some obtain s1 where u: "upsert_node env ?n s = Some (Inr (), s1)"
      and rest: "persist_members env cfg cid prev ps (AList.update (ns_address ?n) ?n fresh) s1 = Some (Inr fresh', s')"
      by (auto simp: task_bind_Inr_iff Let_def)
    from u have "t_nodes (d_tables s1) = AList.update (ns_address ?n) (row_of_node ?n) (t_nodes (d_tables s))"
      by (auto simp: upsert_node_def run_sql_Inr_iff)
    with 2(4) have "all_stored (d_tables s1) (AList.update (ns_address ?n) ?n fresh)"
      by (intro all_stored_update) simp_all
    with 2(2) [OF Some refl] rest Some show ?thesis by (auto simp: AList.dom_update)
  qed
qed

lemma persist_members_content:
  "persist_members env cfg cid prev ps fresh s = Some (Inr fresh', s') \<Longrightarrow> distinct_keys fresh \<Longrightarrow>
   q \<in> set fresh' \<Longrightarrow>
   q \<in> set fresh \<or>
   (\<exists>a i. (a, Some i) \<in> set ps \<and> q = (to_lowercase (oc_address i), refreshed_node env cfg cid prev i))"
proof (induction env cfg cid prev ps fresh s rule: persist_members.induct)
  case (1 env cfg cid prev fresh s)
  then show ?case by simp
next
  case (2 env cfg cid prev a info ps fresh s)
  show ?case
  proof (cases info)
    case None
    with 2 show ?thesis by auto
  next
    case (Some i)
    let ?n = "refreshed_node env cfg cid prev i"
    from 2(3) Some obtain s1 where
      rest: "persist_members env cfg cid prev ps (AList.update (ns_address ?n) ?n fresh) s1 = Some (Inr fresh', s')"
      by (auto simp: task_bind_Inr_iff Let_def)
    have "distinct_keys (AList.update (ns_address ?n) ?n fresh)" using 2(4) by (rule distinct_keys_update)
    with 2(2) [OF Some refl] rest 2(5) set_update_distinct [OF 2(4), of "ns_address ?n" ?n] Some
    show ?thesis by auto
  qed
qed

section \<open>Reconciliation\<close>

text \<open>
  The memory and the database hold the same nodes: each node in memory has its row, and the
  registered rows are those of the nodes in memory, whatever the case they are keyed in.
\<close>

definition registered_keys :: "tables \<Rightarrow> string set" where
  "registered_keys t = {to_lowercase a | a r. map_of (t_nodes t) a = Some r \<and> registered_row r}"

definition memory_matches :: "('w, 'z) app_scheme \<Rightarrow> bool" where
  "memory_matches s \<longleftrightarrow>
     all_stored (d_tables s) (a_nodes s) \<and> registered_keys (d_tables s) = fst ` set (a_nodes s)"

lemma registered_row_of_node [simp]: "registered_row (row_of_node n) \<longleftrightarrow> registered_node n"
proof -
  have "''deregistered'' = status_str Deregistered" by (simp add: status_str_def)
  then show ?thesis by (simp add: registered_row_def registered_node_def row_of_node_def)
qed

lemma all_stored_key:
  assumes "all_stored t fresh" and "a \<in> fst ` set fresh"
  obtains n where "(a, n) \<in> set fresh" and "to_lowercase a = a" and "registered_node n"
    and "map_of (t_nodes t) a = Some (row_of_node n)"
  using assms by (fastforce simp: all_stored_def row_stored_def list_all_iff)

lemma prune_matches:
  assumes "deregister_nodes_except env (map fst fresh) s = Some (Inr gone, s')"
    and "all_stored (d_tables s) fresh"
  shows "all_stored (d_tables s') fresh \<and> registered_keys (d_tables s') = fst ` set fresh"
proof -
  let ?keep = "map fst fresh"
  let ?f = "\<lambda>a r. if outside ?keep a r then r\<lparr>nr_status := ''deregistered''\<rparr> else r"
  from assms(1) have t: "t_nodes (d_tables s') = map_rows ?f (t_nodes (d_tables s))"
    by (auto simp: deregister_nodes_except_def run_sql_Inr_iff)
  have lower: "to_lowercase ` fst ` set fresh = fst ` set fresh"
  proof -
    have "to_lowercase a = a" if "a \<in> fst ` set fresh" for a
      using assms(2) that by (rule all_stored_key)
    then have "to_lowercase ` fst ` set fresh = id ` fst ` set fresh" by (intro image_cong) auto
    then show ?thesis by simp
  qed
  have kept: "\<not> outside ?keep a r" if "a \<in> fst ` set fresh" for a r
    using that by (auto simp: outside_def)
  have st: "all_stored (d_tables s') fresh"
  proof -
    have "row_stored (d_tables s') (a, n)" if mem: "(a, n) \<in> set fresh" for a n
    proof -
      have "row_stored (d_tables s) (a, n)" using assms(2) mem by (simp add: all_stored_def list_all_iff)
      moreover have "a \<in> fst ` set fresh" using mem by force
      ultimately show ?thesis using kept by (auto simp: row_stored_def t)
    qed
    with assms(2) show ?thesis by (auto simp: all_stored_def list_all_iff)
  qed
  moreover have "registered_keys (d_tables s') = fst ` set fresh"
  proof (intro set_eqI iffI)
    fix k
    assume "k \<in> registered_keys (d_tables s')"
    then obtain a r where k: "k = to_lowercase a" and "map_of (t_nodes (d_tables s)) a = Some r"
      and "registered_row (?f a r)"
      by (auto simp: registered_keys_def t)
    then have "\<not> outside ?keep a r" and "registered_row r"
      by (auto simp: registered_row_def split: if_splits)
    then have "k \<in> to_lowercase ` fst ` set fresh" by (auto simp: outside_def k)
    then show "k \<in> fst ` set fresh" by (simp add: lower)
  next
    fix k
    assume "k \<in> fst ` set fresh"
    with st obtain n where "to_lowercase k = k" "registered_node n"
      "map_of (t_nodes (d_tables s')) k = Some (row_of_node n)"
      by (rule all_stored_key)
    then show "k \<in> registered_keys (d_tables s')" unfolding registered_keys_def by force
  qed
  ultimately show ?thesis by blast
qed

lemma retry_rpc_from_op:
  "retry_rpc_from env what k operation attempt s = Some (Inr v, s') \<Longrightarrow>
     \<exists>s0. operation s0 = Some (Inr v, s')"
proof (induction "k - attempt" arbitrary: attempt s rule: less_induct)
  case less
  from less.prems obtain r s1 where op: "operation s = Some (r, s1)"
    by (subst (asm) retry_rpc_from.simps) (auto simp: task_try_def split: option.splits prod.splits)
  show ?case
  proof (cases r)
    case (Inr u)
    with less.prems op have "u = v \<and> s1 = s'" by (subst (asm) retry_rpc_from.simps) (auto simp: task_try_def)
    with op Inr show ?thesis by blast
  next
    case (Inl e)
    with less.prems op have k: "\<not> k \<le> attempt + 1"
      by (subst (asm) retry_rpc_from.simps) (auto simp: task_try_def split: if_splits)
    with less.prems op Inl obtain s2 where
      "retry_rpc_from env what k operation (attempt + 1) s2 = Some (Inr v, s')"
      by (subst (asm) retry_rpc_from.simps) (auto simp: task_try_def task_bind_Inr_iff split: if_splits)
    with less.hyps [of "attempt + 1" s2] k show ?thesis by simp
  qed
qed

lemma retry_rpc_op: "retry_rpc env what operation s = Some (Inr v, s') \<Longrightarrow> \<exists>s0. operation s0 = Some (Inr v, s')"
  unfolding retry_rpc_def retry_rpc_attempts_def by (rule retry_rpc_from_op)

lemma member_profile_Inr:
  assumes "member_profile env cfg a s = Some (Inr (a', info), s')"
  shows "a' = a \<and> (\<forall>i. info = Some i \<longrightarrow> oc_address i = x_addr_text env a)"
  using assms
  by (auto simp: member_profile_def task_bind_Inr_iff fetch_node_info_def dest!: retry_rpc_op split: if_splits)

lemma member_profile_quiet: "keeps (quiet cfg) (member_profile env cfg a)"
  unfolding member_profile_def retry_rpc_def retry_rpc_attempts_def
  by (intro quiet_bind quiet_pure retry_rpc_from_keeps [OF quiet_trans view_calls_quiet(7) backoff_pause_quiet quiet_refl])

definition member_texts :: "'x ext_scheme \<Rightarrow> address set \<Rightarrow> string set" where
  "member_texts x members = to_lowercase ` x_addr_text x ` members"

lemma profiles_read:
  fixes s :: "('w, 'z) net_scheme"
  assumes "task_map (member_profile env cfg) addrs s = Some (Inr ps, s')"
  shows "map fst ps = addrs \<and> (\<forall>a i. (a, Some i) \<in> set ps \<longrightarrow> oc_address i = x_addr_text env a)"
proof -
  note all = task_map_Inr [OF assms]
  have one: "fst (ps ! k) = addrs ! k \<and> (\<forall>i. snd (ps ! k) = Some i \<longrightarrow> oc_address i = x_addr_text env (addrs ! k))"
    if "k < length ps" for k
  proof -
    from list_all2_nthD2 [OF all that] obtain s1 s2 :: "('w, 'z) net_scheme" where
      m: "member_profile env cfg (addrs ! k) s1 = Some (Inr (fst (ps ! k), snd (ps ! k)), s2)" by auto
    from member_profile_Inr [OF m] show ?thesis by simp
  qed
  have "map fst ps = addrs"
    by (rule nth_equalityI) (use one list_all2_lengthD [OF all] in auto)
  moreover have "oc_address i = x_addr_text env a" if "(a, Some i) \<in> set ps" for a i
  proof -
    from that obtain k where "k < length ps" and "ps ! k = (a, Some i)" by (auto simp: in_set_conv_nth)
    with one [of k] show ?thesis by simp
  qed
  ultimately show ?thesis by blast
qed

lemma profiles_of_members:
  fixes s :: "('w, 'z) net_scheme"
  assumes "task_map (member_profile env cfg) (sorted_list_of_set members) s = Some (Inr ps, s')"
  shows "profiled ps \<subseteq> member_texts env members"
proof -
  from profiles_read [OF assms] have order: "map fst ps = sorted_list_of_set members"
    and said: "\<And>a i. (a, Some i) \<in> set ps \<Longrightarrow> oc_address i = x_addr_text env a" by blast+
  have "a \<in> members" if "(a, Some i) \<in> set ps" for a i
  proof -
    from that have "a \<in> set (map fst ps)" by force
    then show ?thesis by (simp add: order)
  qed
  with said show ?thesis unfolding profiled_def member_texts_def by blast
qed

text \<open>
  The nodes are those of the members: the profile of every member was read, in address order, and
  the nodes are exactly those whose profile the registry had, one entry per address, each made from
  that profile, with the status it had before when it was known and not deregistered.
\<close>

definition installed ::
  "('w, 'e) sysenv_scheme \<Rightarrow> chain_config \<Rightarrow> u64 \<Rightarrow> address set \<Rightarrow> ('w, 'z) app_scheme \<Rightarrow>
   (string \<times> node_state) list \<Rightarrow> bool" where
  "installed env cfg cid members s nodes \<longleftrightarrow>
     (\<exists>ps s1. task_map (member_profile env cfg) (sorted_list_of_set members) s = Some (Inr ps, s1) \<and>
        map fst ps = sorted_list_of_set members \<and> distinct_keys nodes \<and>
        fst ` set nodes = {to_lowercase (x_addr_text env a) | a i. (a, Some i) \<in> set ps} \<and>
        (\<forall>(k, n) \<in> set nodes. \<exists>a i. (a, Some i) \<in> set ps \<and> k = to_lowercase (x_addr_text env a) \<and>
           n = refreshed_node env cfg cid (previous_status s) i))"

text \<open>What a successful reconciliation establishes.\<close>

definition reconciled ::
  "('w, 'e) sysenv_scheme \<Rightarrow> chain_config \<Rightarrow> u64 \<Rightarrow> address set \<Rightarrow> u64 \<Rightarrow> bool \<Rightarrow>
   ('w, 'z) app_scheme \<Rightarrow> ('w, 'z) app_scheme \<Rightarrow> bool" where
  "reconciled env cfg cid members block verified s s' \<longleftrightarrow>
     memory_matches s' \<and> installed env cfg cid members s (a_nodes s') \<and>
     fst ` set (a_nodes s') \<subseteq> member_texts env members \<and>
     fst ` set (a_metrics s') \<subseteq> fst ` set (a_nodes s') \<and>
     checkpoints_of (t_checkpoints (d_tables s')) (i64_of_u64 cid, to_lowercase (cc_registry_hex cfg))
       = Some (storable block) \<and>
     sy_phase (a_sync s') = Live \<and> sy_verified (a_sync s') = Some verified \<and>
     sy_last_block (a_sync s') = Some block \<and>
     a_topology_version s' = a_topology_version s + 1 \<and> a_seed_cache s' = a_seed_cache s \<and>
     app.more s' = app.more s \<and> n_chain_id s' = n_chain_id s \<and> (net_ok cfg s \<longrightarrow> net_ok cfg s')"

lemma set_checkpoint_nodes:
  assumes "set_checkpoint env cid reg block s = Some (Inr (), s')"
  shows "t_nodes (d_tables s') = t_nodes (d_tables s)"
    and "checkpoints_of (t_checkpoints (d_tables s')) (i64_of_u64 cid, to_lowercase reg) = Some (storable block)"
  using assms by (auto simp: set_checkpoint_def task_bind_Inr_iff run_sql_Inr_iff now_ms_Inr_iff checkpoints_of_update)

lemma all_stored_nodes: "t_nodes t' = t_nodes t \<Longrightarrow> all_stored t' fresh = all_stored t fresh"
  and registered_keys_nodes: "t_nodes t' = t_nodes t \<Longrightarrow> registered_keys t' = registered_keys t"
proof -
  assume t: "t_nodes t' = t_nodes t"
  then have "row_stored t' = row_stored t" by (auto simp: fun_eq_iff row_stored_def)
  then show "all_stored t' fresh = all_stored t fresh" by (simp add: all_stored_def)
  from t show "registered_keys t' = registered_keys t" by (simp add: registered_keys_def)
qed

lemma installed_state:
  assumes "mark_synced env block verified (install_members fresh s) = Some (Inr (), s1)"
  shows "d_tables (announce_members s1) = d_tables s \<and> a_nodes (announce_members s1) = fresh \<and>
    fst ` set (a_metrics (announce_members s1)) \<subseteq> fst ` set fresh \<and>
    sy_phase (a_sync (announce_members s1)) = Live \<and>
    sy_verified (a_sync (announce_members s1)) = Some verified \<and>
    sy_last_block (a_sync (announce_members s1)) = Some block \<and>
    a_topology_version (announce_members s1) = a_topology_version s + 1 \<and>
    a_seed_cache (announce_members s1) = a_seed_cache s \<and>
    app.more (announce_members s1) = app.more s \<and> n_chain_id (announce_members s1) = n_chain_id s \<and>
    (net_ok cfg s \<longrightarrow> net_ok cfg (announce_members s1))"
  using assms
  by (auto simp: mark_synced_def task_bind_Inr_iff now_ms_Inr_iff install_members_def announce_members_def
      bump_topology_version_def broadcast_cluster_snapshot_def send_def Let_def net_ok_def)

lemma reconcile_Inr:
  fixes s s' :: "('w, 'z) app_scheme"
  assumes "reconcile_membership env cfg cid members block verified s = Some (Inr (), s')"
  shows "reconciled env cfg cid members block verified s s'"
proof -
  from assms obtain ps s1 fresh s2 pruned s3 s4 s5 where
    pf: "task_map (member_profile env cfg) (sorted_list_of_set members) s = Some (Inr ps, s1)"
    and pm: "persist_members env cfg cid (previous_status s) ps [] s1 = Some (Inr fresh, s2)"
    and dr: "deregister_nodes_except env (map fst fresh) s2 = Some (Inr pruned, s3)"
    and cp: "set_checkpoint env cid (cc_registry_hex cfg) block s3 = Some (Inr (), s4)"
    and ms: "mark_synced env block verified (install_members fresh s4) = Some (Inr (), s5)"
    and s': "s' = announce_members s5"
    by (auto simp: reconcile_membership_def task_bind_Inr_iff)
  have "all_stored (d_tables s1) []" by (simp add: all_stored_def)
  with persist_members_stored [OF pm] have st2: "all_stored (d_tables s2) fresh"
    and keys: "fst ` set fresh = profiled ps" by simp_all
  from prune_matches [OF dr st2] have st3: "all_stored (d_tables s3) fresh"
    and reg3: "registered_keys (d_tables s3) = fst ` set fresh" by simp_all
  note t4 = set_checkpoint_nodes [OF cp]
  note inst = installed_state [OF ms, of cfg, folded s']
  have "memory_matches s'"
    using inst st3 reg3 all_stored_nodes [OF t4(1)] registered_keys_nodes [OF t4(1)]
    by (simp add: memory_matches_def)
  moreover have "fst ` set (a_nodes s') \<subseteq> member_texts env members"
    using profiles_of_members [OF pf] keys inst by simp
  moreover have "installed env cfg cid members s (a_nodes s')"
  proof -
    from profiles_read [OF pf] have order: "map fst ps = sorted_list_of_set members"
      and said: "\<And>a i. (a, Some i) \<in> set ps \<Longrightarrow> oc_address i = x_addr_text env a" by blast+
    have nodes: "a_nodes s' = fresh" and "distinct_keys fresh"
      using inst st2 by (simp_all add: all_stored_def)
    moreover have "profiled ps = {to_lowercase (x_addr_text env a) | a i. (a, Some i) \<in> set ps}"
      using said unfolding profiled_def by (intro Collect_cong) metis
    moreover have "\<exists>a i. (a, Some i) \<in> set ps \<and> k = to_lowercase (x_addr_text env a) \<and>
        n = refreshed_node env cfg cid (previous_status s) i" if "(k, n) \<in> set fresh" for k n
      using persist_members_content [OF pm _ that] said by fastforce
    ultimately show ?thesis
      unfolding installed_def using pf order keys by (intro exI [of _ ps] exI [of _ s1]) auto
  qed
  moreover have "untouched cfg s s4"
  proof -
    have "untouched cfg s s1"
      using keepsD [OF keeps_task_map [OF quiet_trans quiet_refl member_profile_quiet] pf] by (rule untouched_quiet)
    moreover have "member_db s1 s4"
      using persist_members_db [OF pm] keepsD [OF statements_members(2) dr] keepsD [OF statements_members(3) cp]
        member_db_trans by blast
    ultimately show ?thesis using untouched_db untouched_trans [of cfg] unfolding transp_def by blast
  qed
  ultimately show ?thesis
    using inst t4(2) unfolding reconciled_def untouched_def served_def by simp
qed

text \<open>A relation that holds between the states whenever the step ends in an error.\<close>

definition fails_keep :: "('s \<Rightarrow> 's \<Rightarrow> bool) \<Rightarrow> ('s, 'a) task \<Rightarrow> bool" where
  "fails_keep R m \<longleftrightarrow> (\<forall>s e s'. m s = Some (Inl e, s') \<longrightarrow> R s s')"

lemma fails_keepD: "fails_keep R m \<Longrightarrow> m s = Some (Inl e, s') \<Longrightarrow> R s s'"
  by (auto simp: fails_keep_def)

lemma fails_bind:
  assumes "transp R" and "keeps R m" and "\<And>a. fails_keep R (f a)"
  shows "fails_keep R (task_bind m f)"
  using assms(2,3) unfolding fails_keep_def task_bind_Inl_iff
  by (metis assms(1) keepsD transpD)

lemma fails_modify: "fails_keep R (task_modify f)"
  by (simp add: fails_keep_def)

lemma fails_modify_bind: "fails_keep R m \<Longrightarrow> (\<And>s. R s (f s)) \<Longrightarrow> transp R \<Longrightarrow> fails_keep R (task_bind (task_modify f) (\<lambda>_. m))"
  unfolding fails_keep_def task_bind_modify by (metis transpD)

text \<open>A reconciliation that fails, wherever it does, has changed nothing but rows of the database.\<close>

lemma mark_synced_never_fails: "mark_synced env block verified s \<noteq> Some (Inl e, s')"
  by (auto simp: mark_synced_def task_bind_Inl_iff now_ms_def split: prod.splits)

lemma install_never_fails:
  "fails_keep R (task_bind (task_modify (install_members fresh)) (\<lambda>_.
     task_bind (mark_synced env block verified) (\<lambda>_. task_modify announce_members)))"
  by (auto simp: fails_keep_def task_bind_Inl_iff mark_synced_never_fails)

lemma reconcile_Inl:
  fixes s s' :: "('w, 'z) app_scheme"
  assumes "reconcile_membership env cfg cid members block verified s = Some (Inl e, s')"
  shows "untouched cfg s s'"
proof -
  let ?profiles = "task_map (member_profile env cfg) (sorted_list_of_set members)"
  have prof: "keeps (untouched cfg) (?profiles :: (('w, 'z) app_scheme, _) task)"
    by (rule keeps_weaken [OF keeps_task_map [OF quiet_trans quiet_refl member_profile_quiet] untouched_quiet])
  have pers: "keeps (untouched cfg) (persist_members env cfg cid prev ps fresh :: (('w, 'z) app_scheme, _) task)"
    for prev ps fresh by (rule keepsI) (rule untouched_db, rule persist_members_db)
  show ?thesis
    using assms unfolding reconcile_membership_def
    by (rule fails_keepD [rotated])
      (intro fails_bind untouched_trans prof pers keeps_map_err install_never_fails
        keeps_weaken [OF statements_members(2) untouched_db] keeps_weaken [OF statements_members(3) untouched_db])
qed

section \<open>A sync from start to end\<close>

lemma runs_statements:
  "runs cfg (upsert_node env n)" "runs cfg (deregister_nodes_except env keep)"
  "runs cfg (set_checkpoint env cid reg block)" "runs cfg (get_checkpoint env cid reg)"
  "runs cfg (load_registry_member_addresses env cid reg)" "runs cfg (deregister_node env addr)"
  unfolding upsert_node_def deregister_nodes_except_def set_checkpoint_def get_checkpoint_def
    load_registry_member_addresses_def deregister_node_def
  by (intro runs_bind runs_sql runs_now runs_pure)+

lemma runs_persist:
  fixes fresh :: "(string \<times> node_state) list"
  shows "runs cfg (persist_members env cfg cid prev ps fresh :: (('w, 'z) dbst_scheme, _) task)"
proof (induction ps arbitrary: fresh)
  case Nil
  show ?case by (simp add: runs_def)
next
  case (Cons p ps)
  obtain a info where p: "p = (a, info)" by (cases p)
  show ?case
  proof (cases info)
    case None
    have "persist_members env cfg cid prev (p # ps) fresh =
        (persist_members env cfg cid prev ps fresh :: (('w, 'z) dbst_scheme, _) task)"
      by (rule ext) (simp add: p None)
    then show ?thesis using Cons.IH by simp
  next
    case (Some i)
    let ?n = "refreshed_node env cfg cid prev i"
    have "persist_members env cfg cid prev (p # ps) fresh =
        (task_bind (task_map_err (\<lambda>e. ''persist node '' @ ns_address ?n @ '': '' @ e) (upsert_node env ?n)) (\<lambda>_.
          persist_members env cfg cid prev ps (AList.update (ns_address ?n) ?n fresh))
         :: (('w, 'z) dbst_scheme, _) task)"
      by (rule ext) (simp add: p Some Let_def)
    then show ?thesis using Cons.IH by (auto intro!: runs_bind runs_map_err runs_statements)
  qed
qed

lemma runs_reconcile:
  fixes s :: "('w, 'z) app_scheme"
  assumes "profiles_decode env cfg" and "net_ok cfg s"
  shows "\<exists>r s'. reconcile_membership env cfg cid members block verified s = Some (r, s') \<and> net_ok cfg s'"
  unfolding reconcile_membership_def
  by (rule runsD [OF _ assms(2)])
    (intro runs_bind runs_map_err runs_map runs_statements runs_persist runs_modify runs_pure runs_now
      runs_retry runs_node_info [OF assms(1)] | unfold member_profile_def mark_synced_def
    | simp add: net_ok_def install_members_def announce_members_def Let_def bump_topology_version_def
        broadcast_cluster_snapshot_def send_def)+

text \<open>
  Replay progress is sound when its set is the fold of trusted logs over the contiguous range from
  the start of its plan; a full plan starts empty at the deployment block.
\<close>

definition progress_ok :: "('w, 'e) sysenv_scheme \<Rightarrow> chain_config \<Rightarrow> replay_progress \<Rightarrow> bool" where
  "progress_ok env cfg p \<longleftrightarrow>
     (\<exists>m0. replayed env cfg m0 (plan_start (pr_plan p)) (pr_members p) (pr_next_block p) \<and>
       (case pr_plan p of Full b \<Rightarrow> b = cc_from_block cfg \<and> m0 = {} | Resume _ \<Rightarrow> True))"

definition sup_ok :: "('w, 'e) sysenv_scheme \<Rightarrow> chain_config \<Rightarrow> ('w, 'z) sup_scheme \<Rightarrow> bool" where
  "sup_ok env cfg s \<longleftrightarrow> net_ok cfg s \<and> (\<forall>p. v_progress s = Some p \<longrightarrow> progress_ok env cfg p)"

lemma progress_kept_sup_ok:
  assumes "progress_kept env cfg s s'" and "sup_ok env cfg s" and "v_progress s = Some p"
  shows "sup_ok env cfg s' \<and> (\<exists>p'. v_progress s' = Some p' \<and> pr_plan p' = pr_plan p)"
proof -
  from assms(1,3) obtain p' where p': "v_progress s' = Some p'" "pr_plan p' = pr_plan p"
    and rep: "replayed env cfg (pr_members p) (pr_next_block p) (pr_members p') (pr_next_block p')"
    and ok: "net_ok cfg s'" unfolding progress_kept_def by blast
  from assms(2,3) have "progress_ok env cfg p" by (simp add: sup_ok_def)
  then have "progress_ok env cfg p'" unfolding progress_ok_def p'(2) using replayed_trans [OF rep] by blast
  with p' ok show ?thesis by (simp add: sup_ok_def)
qed

lemma new_progress_ok:
  assumes "new_progress env cfg cid ff s = Some (Inr p, s')"
  shows "progress_ok env cfg p \<and> pr_chain_id p = cid \<and> (ff \<longrightarrow> \<not> is_resume (pr_plan p))"
proof -
  have "\<exists>checkpoint members. p = \<lparr>pr_chain_id = cid,
      pr_plan = plan_sync checkpoint (cc_from_block cfg) ff,
      pr_next_block = plan_start (plan_sync checkpoint (cc_from_block cfg) ff), pr_members = members\<rparr> \<and>
    (\<forall>b. plan_sync checkpoint (cc_from_block cfg) ff = Full b \<longrightarrow> members = {})"
  proof -
    from assms obtain checkpoint s1 where
      "task_bind (case plan_sync checkpoint (cc_from_block cfg) ff of Full _ \<Rightarrow> task_return {}
         | Resume _ \<Rightarrow> task_bind (task_map_err (\<lambda>e. ''load registry members: '' @ e)
             (load_registry_member_addresses env cid (cc_registry_hex cfg))) (\<lambda>texts.
               task_return (parsed_members env texts)))
       (\<lambda>members. task_return \<lparr>pr_chain_id = cid, pr_plan = plan_sync checkpoint (cc_from_block cfg) ff,
          pr_next_block = plan_start (plan_sync checkpoint (cc_from_block cfg) ff), pr_members = members\<rparr>) s1
       = Some (Inr p, s')"
      by (auto simp: new_progress_def task_bind_Inr_iff Let_def)
    then show ?thesis
      by (intro exI [of _ checkpoint], cases "plan_sync checkpoint (cc_from_block cfg) ff")
        (auto simp: task_bind_Inr_iff)
  qed
  then obtain checkpoint members where p: "p = \<lparr>pr_chain_id = cid,
      pr_plan = plan_sync checkpoint (cc_from_block cfg) ff,
      pr_next_block = plan_start (plan_sync checkpoint (cc_from_block cfg) ff), pr_members = members\<rparr>"
    and m: "\<And>b. plan_sync checkpoint (cc_from_block cfg) ff = Full b \<Longrightarrow> members = {}"
    by blast
  have full: "b = cc_from_block cfg" if "plan_sync checkpoint (cc_from_block cfg) ff = Full b" for b
    using that by (auto simp: plan_sync_def split: option.splits if_splits)
  have "ff \<Longrightarrow> plan_sync checkpoint (cc_from_block cfg) ff = Full (cc_from_block cfg)"
    by (simp add: plan_sync_def split: option.split)
  moreover have "progress_ok env cfg p"
    unfolding progress_ok_def using full m
    by (auto simp: p split: sync_plan.split intro!: exI [of _ members] replayed_none)
  ultimately show ?thesis by (auto simp: p is_resume_def)
qed

lemma new_progress_db: "keeps member_db (new_progress env cfg cid ff)"
  unfolding new_progress_def Let_def
  by (intro members_bind keeps_map_err statements_members members_pure)
    (auto split: sync_plan.split intro!: members_bind keeps_map_err statements_members members_pure)

lemma runs_new_progress: "runs cfg (new_progress env cfg cid ff)"
  unfolding new_progress_def Let_def
  by (intro runs_bind runs_map_err runs_statements runs_pure)
    (auto split: sync_plan.split intro!: runs_bind runs_map_err runs_statements runs_pure)

lemma ensure_progress_returns:
  fixes s :: "('w, 'z) sup_scheme"
  assumes "sup_ok env cfg s"
  shows "\<exists>r s'. ensure_progress env cfg cid ff s = Some (r, s') \<and> sup_ok env cfg s' \<and> served s' = served s \<and>
    n_chain_id s' = n_chain_id s \<and>
    (r = Inr () \<longrightarrow> (\<exists>p. v_progress s' = Some p \<and> (v_progress s = None \<and> ff \<longrightarrow> \<not> is_resume (pr_plan p))))"
proof (cases "case v_progress s of Some p \<Rightarrow> pr_chain_id p = cid | None \<Rightarrow> False")
  case True
  with assms show ?thesis by (auto simp: ensure_progress_def split: option.splits)
next
  case False
  from assms have ok: "net_ok cfg s" by (simp add: sup_ok_def)
  from runsD [OF runs_new_progress ok] obtain r s1 where
    n: "new_progress env cfg cid ff s = Some (r, s1)" and ok1: "net_ok cfg s1" by blast
  from keepsD [OF new_progress_db n] have db: "member_db s s1" .
  note same = member_db_served(1,6) [OF db] member_db_progress [OF db]
  show ?thesis
  proof (cases r)
    case (Inl e)
    with n False ok1 same assms show ?thesis
      by (simp add: ensure_progress_def task_bind_def sup_ok_def)
  next
    case (Inr p)
    from new_progress_ok [OF n [unfolded Inr]] have p: "progress_ok env cfg p" "ff \<longrightarrow> \<not> is_resume (pr_plan p)"
      by simp_all
    with n False ok1 same Inr show ?thesis
      by (simp add: ensure_progress_def task_bind_def task_modify_def sup_ok_def served_def net_ok_def)
  qed
qed

text \<open>The three ways a pass goes: it stops with an error, it falls back, or it reconciles.\<close>

definition verdict_at ::
  "('w, 'e) sysenv_scheme \<Rightarrow> chain_config \<Rightarrow> bool \<Rightarrow> u64 \<Rightarrow> replay_progress \<Rightarrow> bool \<Rightarrow> bool" where
  "verdict_at env cfg accept target p verified \<longleftrightarrow>
     progress_ok env cfg p \<and> pr_next_block p = target + 1 \<and> target \<noteq> - 1 \<and>
     (verified \<longrightarrow> registry_agrees env cfg target (pr_members p)) \<and>
     (\<not> verified \<longrightarrow> accept \<and> \<not> is_resume (pr_plan p) \<and> registry_denies env cfg target (pr_members p))"

text \<open>What a mismatch leaves: a full replay whose set the registry denied at its last block.\<close>

definition full_replay_denied :: "('w, 'e) sysenv_scheme \<Rightarrow> chain_config \<Rightarrow> replay_progress \<Rightarrow> bool" where
  "full_replay_denied env cfg p \<longleftrightarrow>
     progress_ok env cfg p \<and> \<not> is_resume (pr_plan p) \<and>
     (\<exists>target. pr_next_block p = target + 1 \<and> target \<noteq> - 1 \<and> registry_denies env cfg target (pr_members p))"

definition mismatch_ok ::
  "('w, 'e) sysenv_scheme \<Rightarrow> chain_config \<Rightarrow> sync_error \<Rightarrow> ('w, 'z) sup_scheme \<Rightarrow> bool" where
  "mismatch_ok env cfg e s \<longleftrightarrow>
     (\<forall>reason. e = Mismatch reason \<longrightarrow> (\<exists>p. v_progress s = Some p \<and> full_replay_denied env cfg p))"

lemma mismatch_ok_rpc [simp]: "mismatch_ok env cfg (RpcError e) s"
  by (simp add: mismatch_ok_def)

lemma case_unit_any [simp]: "(case u of () \<Rightarrow> x) = x"
  by (simp split: unit.split)

lemma sync_pass_cases:
  fixes s :: "('w, 'z) sup_scheme"
  assumes "sup_ok env cfg s" and "head_bounded env cfg"
  obtains e s1 where "sync_pass env cfg cid ff accept s = Some (Inl e, s1)"
      "sup_ok env cfg s1" "served s1 = served s" "n_chain_id s1 = n_chain_id s" "mismatch_ok env cfg e s1"
  | s1 where "sync_pass env cfg cid ff accept s = Some (Inr (Inl ()), s1)"
      "sup_ok env cfg s1" "served s1 = served s" "n_chain_id s1 = n_chain_id s" "v_progress s1 = None" "v_progress s \<noteq> None \<or> \<not> ff"
  | target p verified s1 where
      "sync_pass env cfg cid ff accept s =
         sync_step (reconcile_membership env cfg cid (pr_members p) target verified)
           (\<lambda>_ s2. Some (Inr (Inr target), s2\<lparr>v_progress := None\<rparr>)) s1"
      "sup_ok env cfg s1" "served s1 = served s" "n_chain_id s1 = n_chain_id s" "verdict_at env cfg accept target p verified"
proof -
  from ensure_progress_returns [OF assms(1), of cid ff] obtain r s1 where
    ens: "ensure_progress env cfg cid ff s = Some (r, s1)" and ok1: "sup_ok env cfg s1"
    and same1: "served s1 = served s" "n_chain_id s1 = n_chain_id s"
    and pr1: "r = Inr () \<Longrightarrow> \<exists>p. v_progress s1 = Some p \<and> (v_progress s = None \<and> ff \<longrightarrow> \<not> is_resume (pr_plan p))"
    by blast
  show thesis
  proof (cases r)
    case (Inl e)
    with ens ok1 same1 show thesis by (intro that(1) [of "RpcError e" s1]) (simp_all add: sync_pass_def sync_step_def)
  next
    case (Inr u)
    with pr1 obtain p1 where p1: "v_progress s1 = Some p1"
      and full: "v_progress s = None \<and> ff \<longrightarrow> \<not> is_resume (pr_plan p1)" by auto
    from ok1 have net1: "net_ok cfg s1" by (simp add: sup_ok_def)
    from verify_rounds_returns [OF assms(2) net1 p1, of 0] obtain res s2 where
      vr: "verify_rounds env cfg 0 s1 = Some (res, s2)" and k: "progress_kept env cfg s1 s2"
      and rr: "\<And>t v. res = Inr (t, v) \<Longrightarrow> round_result env cfg t v s2" by blast
    from progress_kept_sup_ok [OF k ok1 p1] obtain p2 where ok2: "sup_ok env cfg s2"
      and p2: "v_progress s2 = Some p2" "pr_plan p2 = pr_plan p1" by blast
    have same2: "served s2 = served s" "n_chain_id s2 = n_chain_id s" using k same1 by (simp_all add: progress_kept_def)
    show thesis
    proof (cases res)
      case (Inl e)
      with ens vr Inr ok2 same2 show thesis
        by (intro that(1) [of "RpcError e" s2]) (simp_all add: sync_pass_def sync_step_def)
    next
      case res: (Inr tv)
      obtain t v where tv: "tv = (t, v)" by (cases tv)
      from rr [OF res [unfolded tv]] p2(1) have nb: "t \<noteq> - 1" "pr_next_block p2 = t + 1"
        and agree: "v = Inr () \<Longrightarrow> registry_agrees env cfg t (pr_members p2)"
        and deny: "v \<noteq> Inr () \<Longrightarrow> registry_denies env cfg t (pr_members p2)" by (auto simp: round_result_def)
      have pok: "progress_ok env cfg p2" using ok2 p2(1) by (simp add: sup_ok_def)
      note run = ens vr Inr res tv p2(1)
      consider "v = Inr ()" | reason where "v = Inl reason" "is_resume (pr_plan p2)"
        | reason where "v = Inl reason" "\<not> is_resume (pr_plan p2)" "\<not> accept"
        | reason where "v = Inl reason" "\<not> is_resume (pr_plan p2)" "accept"
        by (cases v) auto
      then show thesis
      proof cases
        case 1
        with run ok2 same2 pok nb agree show thesis
          by (intro that(3) [of p2 t True s2]) (simp_all add: sync_pass_def sync_step_def verdict_at_def)
      next
        case (2 reason)
        let ?s = "s2\<lparr>v_progress := None\<rparr>"
        have "v_progress s \<noteq> None \<or> \<not> ff" using full 2 p2(2) by auto
        moreover have "sup_ok env cfg ?s" "served ?s = served s" "n_chain_id ?s = n_chain_id s"
          using ok2 same2 by (auto simp: sup_ok_def net_ok_def served_def)
        ultimately show thesis using run 2
          by (intro that(2) [of ?s]) (simp_all add: sync_pass_def sync_step_def)
      next
        case (3 reason)
        with pok nb deny p2(1) have "mismatch_ok env cfg (Mismatch reason) s2"
          by (auto simp: mismatch_ok_def full_replay_denied_def)
        with 3 run ok2 same2 show thesis
          by (intro that(1) [of "Mismatch reason" s2]) (simp_all add: sync_pass_def sync_step_def)
      next
        case (4 reason)
        with run ok2 same2 pok nb agree deny show thesis
          by (intro that(3) [of p2 t False s2]) (simp_all add: sync_pass_def sync_step_def verdict_at_def)
      qed
    qed
  qed
qed

definition sync_done ::
  "('w, 'e) sysenv_scheme \<Rightarrow> chain_config \<Rightarrow> u64 \<Rightarrow> bool \<Rightarrow> u64 \<Rightarrow> ('w, 'z) sup_scheme \<Rightarrow> ('w, 'z) sup_scheme \<Rightarrow> bool" where
  "sync_done env cfg cid accept target s s' \<longleftrightarrow>
     (\<exists>p verified s1 s2. verdict_at env cfg accept target p verified \<and> sup_ok env cfg s1 \<and>
        served s1 = served s \<and> n_chain_id s1 = n_chain_id s \<and>
        reconciled env cfg cid (pr_members p) target verified s1 s2 \<and> s' = s2\<lparr>v_progress := None\<rparr>)"

text \<open>The result of a pass: an error or a fall back leaves the served state alone.\<close>

definition pass_ok ::
  "('w, 'e) sysenv_scheme \<Rightarrow> chain_config \<Rightarrow> u64 \<Rightarrow> bool \<Rightarrow> ('w, 'z) sup_scheme \<Rightarrow> (sync_error + u64) \<Rightarrow>
   ('w, 'z) sup_scheme \<Rightarrow> bool" where
  "pass_ok env cfg cid accept s r s' \<longleftrightarrow>
     (case r of
        Inl e \<Rightarrow> sup_ok env cfg s' \<and> served s' = served s \<and> n_chain_id s' = n_chain_id s \<and> mismatch_ok env cfg e s'
      | Inr target \<Rightarrow> sync_done env cfg cid accept target s s')"

lemma untouched_sup_ok:
  fixes s s' :: "('w, 'z) sup_scheme"
  assumes "untouched cfg s s'" and "sup_ok env cfg s"
  shows "sup_ok env cfg s'" and "served s' = served s" and "n_chain_id s' = n_chain_id s"
proof -
  have "v_progress s' = v_progress s" using assms(1) by (cases s; cases s') (simp add: untouched_def)
  with assms show "sup_ok env cfg s'" "served s' = served s" "n_chain_id s' = n_chain_id s"
    by (simp_all add: untouched_def sup_ok_def)
qed

lemma reconcile_step_ok:
  fixes s1 :: "('w, 'z) sup_scheme"
  assumes "sync_step (reconcile_membership env cfg cid (pr_members p) target verified)
      (\<lambda>_ s2. Some (Inr (Inr target), s2\<lparr>v_progress := None\<rparr>)) s1 = Some (r, s')"
    and "sup_ok env cfg s1" and "served s1 = served s" and "n_chain_id s1 = n_chain_id s"
    and "verdict_at env cfg accept target p verified"
  obtains e where "r = Inl e" "pass_ok env cfg cid accept s (Inl e) s'"
  | "r = Inr (Inr target)" "pass_ok env cfg cid accept s (Inr target) s'"
proof -
  from assms(1) obtain q s2 where
    rec: "reconcile_membership env cfg cid (pr_members p) target verified s1 = Some (q, s2)"
    by (auto simp: sync_step_def split: option.splits prod.splits)
  show thesis
  proof (cases q)
    case (Inl e)
    from untouched_sup_ok [OF reconcile_Inl [OF rec [unfolded Inl]] assms(2)] Inl rec assms(1,3,4)
    show thesis by (intro that(1) [of "RpcError e"]) (auto simp: sync_step_def pass_ok_def)
  next
    case (Inr u)
    from reconcile_Inr [of env cfg cid "pr_members p" target verified s1 s2] rec Inr
    have rc: "reconciled env cfg cid (pr_members p) target verified s1 s2" by simp
    from rec Inr assms(1) have "r = Inr (Inr target)" "s' = s2\<lparr>v_progress := None\<rparr>"
      by (auto simp: sync_step_def)
    with rc assms(2-5) show thesis unfolding pass_ok_def sync_done_def
      by (intro that(2)) (auto simp: pass_ok_def sync_done_def)
  qed
qed

lemma pass_ok_from:
  "served s1 = served s \<Longrightarrow> n_chain_id s1 = n_chain_id s \<Longrightarrow>
     pass_ok env cfg cid accept s1 r s' \<Longrightarrow> pass_ok env cfg cid accept s r s'"
  by (auto simp: pass_ok_def sync_done_def split: sum.splits)

text \<open>A second pass starts without progress and with a full replay, so it cannot fall back.\<close>

lemma sync_loop_pass:
  "sync_loop env cfg cid ff accept s =
     (case sync_pass env cfg cid ff accept s of
        None \<Rightarrow> None
      | Some (Inl e, s1) \<Rightarrow> Some (Inl e, s1)
      | Some (Inr (Inr target), s1) \<Rightarrow> Some (Inr target, s1)
      | Some (Inr (Inl _), s1) \<Rightarrow> sync_loop env cfg cid True accept s1)"
  by (subst sync_loop.simps) (auto split: option.split prod.split sum.split)

lemma loop_reconciles:
  fixes s s1 s' :: "('w, 'z) sup_scheme"
  assumes run: "sync_loop env cfg cid ff accept s = Some (r, s')"
    and pass: "sync_pass env cfg cid ff accept s =
         sync_step (reconcile_membership env cfg cid (pr_members p) target verified)
           (\<lambda>_ s2. Some (Inr (Inr target), s2\<lparr>v_progress := None\<rparr>)) s1"
    and "sup_ok env cfg s1" and "served s1 = served s" and "n_chain_id s1 = n_chain_id s"
    and "verdict_at env cfg accept target p verified"
  shows "pass_ok env cfg cid accept s r s'"
proof -
  from run obtain q :: "sync_error + unit + u64" and s2 :: "('w, 'z) sup_scheme" where
    st: "sync_step (reconcile_membership env cfg cid (pr_members p) target verified)
      (\<lambda>_ s2. Some (Inr (Inr target), s2\<lparr>v_progress := None\<rparr>)) s1 = Some (q, s2)"
    by (subst (asm) sync_loop_pass) (auto simp: pass split: option.splits)
  note loop = run [unfolded sync_loop_pass [of env cfg cid ff accept s] pass st]
  from reconcile_step_ok [OF st assms(3-6)] show ?thesis
    by cases (use loop in auto)
qed

lemma sync_loop_ok:
  fixes s :: "('w, 'z) sup_scheme"
  assumes run: "sync_loop env cfg cid ff accept s = Some (r, s')"
    and ok: "sup_ok env cfg s" and conf: "head_bounded env cfg"
  shows "pass_ok env cfg cid accept s r s'"
proof -
  have last: "pass_ok env cfg cid accept s0 r s'"
    if run: "sync_loop env cfg cid True accept s0 = Some (r, s')" and "sup_ok env cfg s0"
      and none: "v_progress s0 = None" for s0 :: "('w, 'z) sup_scheme"
    using that(2) conf
  proof (cases rule: sync_pass_cases [of env cfg s0 cid True accept])
    case (1 e s1)
    with run show ?thesis by (auto simp: sync_loop_pass pass_ok_def)
  next
    case (2 s1)
    with none show ?thesis by simp
  next
    case (3 target p verified s1)
    with run show ?thesis by (rule loop_reconciles)
  qed
  from ok conf show ?thesis
  proof (cases rule: sync_pass_cases [of env cfg s cid ff accept])
    case (1 e s1)
    with run show ?thesis by (auto simp: sync_loop_pass pass_ok_def)
  next
    case (2 s1)
    from run 2(1) have "sync_loop env cfg cid True accept s1 = Some (r, s')"
      by (simp add: sync_loop_pass [of env cfg cid ff])
    from pass_ok_from [OF 2(3,4) last [OF this 2(2,5)]] show ?thesis .
  next
    case (3 target p verified s1)
    with run show ?thesis by (rule loop_reconciles)
  qed
qed

text \<open>It comes back, whatever the endpoints and the database do.\<close>

lemma reconcile_pass_Some:
  fixes s1 :: "('w, 'z) sup_scheme"
  assumes "profiles_decode env cfg" and "sup_ok env cfg s1"
  shows "\<exists>q s2. sync_step (reconcile_membership env cfg cid members target verified)
      (\<lambda>_ s2. Some (Inr (Inr target), s2\<lparr>v_progress := None\<rparr>)) s1 = Some (q, s2) \<and> q \<noteq> Inr (Inl ())"
proof -
  from assms(2) have "net_ok cfg s1" by (simp add: sup_ok_def)
  from runs_reconcile [OF assms(1) this] obtain r s2 where
    "reconcile_membership env cfg cid members target verified s1 = Some (r, s2)" by blast
  then show ?thesis by (cases r) (auto simp: sync_step_def)
qed

lemma sync_loop_Some:
  fixes s :: "('w, 'z) sup_scheme"
  assumes ok: "sup_ok env cfg s" and conf: "head_bounded env cfg" and dec: "profiles_decode env cfg"
  shows "\<exists>r s'. sync_loop env cfg cid ff accept s = Some (r, s')"
proof -
  have last: "\<exists>r s'. sync_loop env cfg cid True accept s0 = Some (r, s')"
    if "sup_ok env cfg s0" and none: "v_progress s0 = None" for s0 :: "('w, 'z) sup_scheme"
    using that(1) conf
  proof (cases rule: sync_pass_cases [of env cfg s0 cid True accept])
    case (1 e s1)
    then show ?thesis by (simp add: sync_loop_pass)
  next
    case (2 s1)
    with none show ?thesis by simp
  next
    case (3 target p verified s1)
    with reconcile_pass_Some [OF dec 3(2), of cid "pr_members p" target verified] show ?thesis
      by (auto simp: sync_loop_pass split: sum.split)
  qed
  from ok conf show ?thesis
  proof (cases rule: sync_pass_cases [of env cfg s cid ff accept])
    case (1 e s1)
    then show ?thesis by (simp add: sync_loop_pass)
  next
    case (2 s1)
    with last [OF 2(2,5)] show ?thesis by (simp add: sync_loop_pass [of env cfg cid ff])
  next
    case (3 target p verified s1)
    with reconcile_pass_Some [OF dec 3(2), of cid "pr_members p" target verified] show ?thesis
      by (auto simp: sync_loop_pass [of env cfg cid ff] split: sum.split)
  qed
qed

lemma initial_sync_ok:
  fixes s s' :: "('w, 'z) sup_scheme"
  assumes "initial_chain_sync env cfg ff accept s = Some (r, s')"
    and ok: "sup_ok env cfg s" and conf: "head_bounded env cfg"
  obtains e where "r = Inl e" "sup_ok env cfg s'" "served s' = served s" "mismatch_ok env cfg e s'"
  | target s0 where "r = Inr target" "sync_done env cfg (n_chain_id s') accept target s0 s'" "served s0 = served s"
proof -
  from assms(1) obtain q s1 where c: "chain_id env cfg s = Some (q, s1)"
    by (auto simp: initial_chain_sync_def sync_step_def split: option.splits)
  note spec = chain_id_spec [OF c]
  from spec ok have ok1: "sup_ok env cfg s1" and same1: "served s1 = served s"
    using more_served [of s1 s] by (auto simp: sup_ok_def frame_def)
  show thesis
  proof (cases q)
    case (Inl e)
    with assms(1) c ok1 same1 show thesis
      by (intro that(1) [of "RpcError e"]) (auto simp: initial_chain_sync_def sync_step_def)
  next
    case (Inr cid)
    let ?s = "begin_sync cid s1"
    have ok2: "sup_ok env cfg ?s" and same2: "served ?s = served s" and id2: "n_chain_id ?s = cid"
      using ok1 same1 spec Inr by (auto simp: begin_sync_def sup_ok_def net_ok_def served_def)
    from assms(1) c Inr have "sync_loop env cfg cid ff accept ?s = Some (r, s')"
      by (simp add: initial_chain_sync_def sync_step_def)
    from sync_loop_ok [OF this ok2 conf] have p: "pass_ok env cfg cid accept ?s r s'" .
    show thesis
    proof (cases r)
      case (Inl e)
      with p same2 show thesis by (intro that(1)) (auto simp: pass_ok_def)
    next
      case r: (Inr target)
      with p have "sync_done env cfg cid accept target ?s s'" by (simp add: pass_ok_def)
      moreover from this id2 have "n_chain_id s' = cid" by (auto simp: sync_done_def reconciled_def)
      ultimately show thesis using r same2 by (intro that(2) [of target ?s]) auto
    qed
  qed
qed

lemma initial_sync_returns:
  fixes s :: "('w, 'z) sup_scheme"
  assumes "sup_ok env cfg s" and "head_bounded env cfg" and "profiles_decode env cfg"
    and "\<forall>i n. endpoint_gave (e_chain_id env) i () n \<longrightarrow> as_u64 n \<noteq> None"
  shows "\<exists>r s'. initial_chain_sync env cfg ff accept s = Some (r, s')"
proof -
  from assms(1) have ok: "net_ok cfg s" by (simp add: sup_ok_def)
  have "\<exists>q s1. chain_id env cfg s = Some (q, s1)"
  proof -
    obtain r0 s1 where req: "rpc_request cfg ''eth_chainId'' (e_chain_id env) ()
        (\<lambda>e. ''Failed to get chain id: '' @ x_provider_error env e) s = Some (r0, s1)"
      using rpc_request_Some [of cfg "''eth_chainId''" "e_chain_id env" "()"] by blast
    have "as_u64 n \<noteq> None" if "r0 = Inr n" for n
      using rpc_request_served [OF ok req [unfolded that]] assms(4) by blast
    with req show ?thesis
      by (cases r0) (auto simp: chain_id_def task_defs split: option.split)
  qed
  then obtain q s1 where c: "chain_id env cfg s = Some (q, s1)" by blast
  note spec = chain_id_spec [OF c]
  show ?thesis
  proof (cases q)
    case (Inl e)
    with c show ?thesis by (simp add: initial_chain_sync_def sync_step_def)
  next
    case (Inr cid)
    have "v_progress s1 = v_progress s" using spec more_served(2) [of s1 s] by (simp add: frame_def)
    with spec assms(1) have "sup_ok env cfg (begin_sync cid s1)"
      by (simp add: begin_sync_def sup_ok_def net_ok_def frame_def)
    from sync_loop_Some [OF this assms(2,3)] c Inr show ?thesis
      by (simp add: initial_chain_sync_def sync_step_def)
  qed
qed

section \<open>Properties\<close>


text \<open>
  C11: a sync that fails, at the endpoints, in the database or because the registry disagrees, leaves
  what is served from memory as it was: the nodes, the metrics, the difficulties and the lifetime
  totals, the seed cache and its version, the settlements, the event buffer and its filter, the
  messages sent, and the verdict, block and time of the last sync. Only three fields of the sync
  status move, the phase, the chain id and the scan position, which /healthz and /v1/state do show.
  Of the tables only rows of the nodes and of the checkpoints may have been written before the error;
  an endpoint that answers from the node rows may already show the new members. The replay progress
  left for the next attempt is still the fold of trusted logs over a contiguous range. Assumed are a
  healthy client, sound progress at the start and \<open>head_bounded\<close>: some confirmations are configured,
  or no endpoint claims the largest 64-bit block number as the head.
\<close>

theorem failed_sync_keeps_serving:
  fixes s s' :: "('w, 'z) sup_scheme"
  assumes "initial_chain_sync env cfg ff accept s = Some (Inl e, s')"
    and "sup_ok env cfg s" and "head_bounded env cfg"
  shows "a_nodes s' = a_nodes s \<and> a_metrics s' = a_metrics s \<and> a_seed_cache s' = a_seed_cache s \<and>
    a_topology_version s' = a_topology_version s \<and> a_settlements s' = a_settlements s \<and>
    a_pow_difficulties s' = a_pow_difficulties s \<and> a_metric_offsets s' = a_metric_offsets s \<and>
    a_recent_events s' = a_recent_events s \<and> a_topo_dedup s' = a_topo_dedup s \<and>
    a_sent s' = a_sent s \<and> a_network_genesis_ms s' = a_network_genesis_ms s \<and>
    a_probe_now s' = a_probe_now s \<and> settled_sync (a_sync s') = settled_sync (a_sync s) \<and>
    unlisted (d_tables s') = unlisted (d_tables s) \<and>
    (\<forall>p. v_progress s' = Some p \<longrightarrow> progress_ok env cfg p)"
  using assms by (elim initial_sync_ok) (auto simp: served_def sup_ok_def)

text \<open>
  C12: a sync always comes back, under three conditions on the answers of the endpoints: none makes
  the profile decoder panic, none is a chain id that does not fit 64 bits, which makes its reading
  panic, and, when no confirmations are configured, none claims the largest 64-bit block number as
  the head, for which the scan would wrap around and go on. Then, from any healthy state of the client
  and any sound replay progress, no answer and no failure of the database makes it loop.
\<close>

theorem sync_returns:
  fixes s :: "('w, 'z) sup_scheme"
  assumes "sup_ok env cfg s" and "head_bounded env cfg" and "profiles_decode env cfg"
    and "\<forall>i n. endpoint_gave (e_chain_id env) i () n \<longrightarrow> as_u64 n \<noteq> None"
  shows "\<exists>r s'. initial_chain_sync env cfg ff accept s = Some (r, s')"
  using assms by (rule initial_sync_returns)

section \<open>A sync of the example registry\<close>

lemma demo_head [simp]:
  "preferred (n_transport s) = 0 \<Longrightarrow> safe_head demo_sys demo_cfg s = Some (Inr 980, s)"
proof -
  assume p: "preferred (n_transport s) = 0"
  have "e_block_number demo_sys = (\<lambda>_ _ w. (Served 1000, w))"
    by (auto simp: fun_eq_iff demo_sys_def demo_defs sysenv.defs)
  with p have "current_block demo_sys demo_cfg s = Some (Inr 1000, s)"
    by (simp add: current_block_def)
  then show ?thesis by (simp add: safe_head_def task_bind_def task_return_def demo_cfg_def sat_sub_def)
qed

lemma demo_retry [simp]:
  "m s = Some (Inr v, s') \<Longrightarrow> retry_rpc_attempts env what k m s = Some (Inr v, s')"
  "m s = Some (Inr v, s') \<Longrightarrow> retry_rpc env what m s = Some (Inr v, s')"
  unfolding retry_rpc_def retry_rpc_attempts_def
  by (subst retry_rpc_from.simps, simp add: task_try_def task_return_def)+

definition demo_info :: on_chain_node where
  "demo_info = \<lparr>oc_address = hex_address 0xaa, oc_url = ''/ip4/8.8.8.8/tcp/9000'', oc_ingress_url = [],
     oc_metadata_url = [], oc_sphinx_key = x_hex demo_sys (replicate 32 0), oc_role = 2, oc_frozen = False\<rparr>"

lemma demo_node_info [simp]:
  assumes "preferred (n_transport s) = 0"
  shows "fetch_node_info demo_sys demo_cfg 0xaa s = Some (Inr (Some demo_info), s)"
proof -
  have "x_addr_text demo_sys = hex_address" using demo_sys_answers unfolding answers_demo_def by blast
  then show ?thesis
    using demo_profile [OF demo_sys_answers assms] demo_membership(2) [OF demo_sys_answers assms]
    by (simp add: fetch_node_info_def task_bind_def task_return_def is_member_def demo_info_def
        del: replicate.simps)
qed

lemma demo_round:
  fixes s :: "(unit, 'z) sup_scheme"
  assumes "preferred (n_transport s) = 0" and "v_progress s = v_progress demo_sup"
  shows "verify_rounds demo_sys demo_cfg k s = Some (Inr (980, Inr ()), s)"
proof -
  have "scan_membership demo_sys demo_cfg 980 s = Some (Inr (), s)"
    using assms(2) by (subst scan_membership_past [of _ "the (v_progress s)"]) simp_all
  moreover have "max (980 :: u64) (sat_sub 981 1) = 980" by (simp add: sat_sub_def)
  ultimately have "verify_round demo_sys demo_cfg s = Some (Inr (980, Inr (Inr ())), s)"
    using assms demo_membership(3) [OF demo_sys_answers assms(1), of "0xaa" 980]
    by (simp add: verify_round_def task_bind_def task_try_def task_return_def Let_def)
  then show ?thesis by (subst verify_rounds.simps) (simp add: task_bind_def task_return_def)
qed

lemma demo_sync:
  "\<exists>s'. initial_chain_sync demo_sys demo_cfg False False demo_sup = Some (Inr 980, s')"
proof -
  let ?s = "begin_sync 421614 demo_sup"
  have s: "preferred (n_transport ?s) = 0" "v_progress ?s = v_progress demo_sup"
    by (simp_all add: begin_sync_def)
  have c: "chain_id demo_sys demo_cfg demo_sup = Some (Inr 421614, demo_sup)" by (simp add: chain_id_def)
  have e: "ensure_progress demo_sys demo_cfg 421614 False ?s = Some (Inr (), ?s)"
    using s by (simp add: ensure_progress_def)
  obtain s2 where r: "reconcile_membership demo_sys demo_cfg 421614 {0xaa} 980 True ?s = Some (Inr (), s2)"
    using s by (simp add: reconcile_membership_def member_profile_def task_bind_def task_return_def
        task_modify_def task_map_err_def upsert_node_def deregister_nodes_except_def set_checkpoint_def
        mark_synced_def Let_def)
  have "sync_pass demo_sys demo_cfg 421614 False False ?s = Some (Inr (Inr 980), s2\<lparr>v_progress := None\<rparr>)"
    using e demo_round [OF s, of 0] s r by (simp add: sync_pass_def sync_step_def)
  then show ?thesis by (simp add: initial_chain_sync_def sync_step_def c sync_loop_pass)
qed

lemma demo_sup_sound: "sup_ok demo_sys demo_cfg demo_sup"
  using demo_sup_ok by (auto simp: sup_ok_def progress_ok_def plan_start_def intro: replayed_none)

lemma demo_head_bounded: "head_bounded demo_sys demo_cfg"
  by (simp add: head_bounded_def demo_cfg_def)


text \<open>The same system with an endpoint that answers nothing but the chain id.\<close>

definition down_sys :: "unit sysenv" where
  "down_sys = demo_sys\<lparr>e_call := (\<lambda>_ _ w. (TimedOut, w)), e_block_number := (\<lambda>_ _ w. (TimedOut, w))\<rparr>"

lemma down_gives_nothing:
  "\<not> endpoint_gave (e_call down_sys) i q v" "\<not> endpoint_gave (e_block_number down_sys) i u b"
  by (simp_all add: endpoint_gave_def down_sys_def)

lemma down_profiles: "profiles_decode down_sys demo_cfg"
  by (simp add: profiles_decode_def down_gives_nothing)

lemma down_bounded: "head_bounded down_sys demo_cfg"
  by (simp add: head_bounded_def demo_cfg_def)

lemma down_chain_id: "endpoint_gave (e_chain_id down_sys) i () n \<Longrightarrow> as_u64 n \<noteq> None"
  by (auto simp: endpoint_gave_def down_sys_def demo_sys_def demo_defs sysenv.defs as_u64_def)

lemma down_sup_sound: "sup_ok down_sys demo_cfg demo_sup"
  using demo_sup_ok by (auto simp: sup_ok_def progress_ok_def plan_start_def intro: replayed_none)

lemma down_sync: "\<exists>e s'. initial_chain_sync down_sys demo_cfg False False demo_sup = Some (Inl e, s')"
proof -
  let ?s = "begin_sync 421614 demo_sup"
  have s: "v_progress ?s = v_progress demo_sup" and ok: "net_ok demo_cfg ?s"
    using demo_sup_ok by (simp_all add: begin_sync_def net_ok_def)
  have c: "chain_id down_sys demo_cfg demo_sup = Some (Inr 421614, demo_sup)" by (simp add: chain_id_def)
  have e: "ensure_progress down_sys demo_cfg 421614 False ?s = Some (Inr (), ?s)"
    using s by (simp add: ensure_progress_def)
  obtain r s1 where h: "current_block down_sys demo_cfg ?s = Some (r, s1)"
    using runsD [OF runs_views(1) ok] by blast
  have "r \<noteq> Inr b" for b
  proof
    assume "r = Inr b"
    from rpc_request_served [OF ok h [unfolded current_block_def this]] show False
      by (simp add: down_gives_nothing)
  qed
  then obtain err where "r = Inl err" by (cases r) auto
  with h have "safe_head down_sys demo_cfg ?s = Some (Inl err, s1)" by (simp add: safe_head_def task_bind_def)
  then have "verify_rounds down_sys demo_cfg 0 ?s = Some (Inl err, s1)"
    by (subst verify_rounds.simps) (simp add: verify_round_def task_bind_def)
  with e have "sync_pass down_sys demo_cfg 421614 False False ?s = Some (Inl (RpcError err), s1)"
    by (simp add: sync_pass_def sync_step_def)
  then show ?thesis by (simp add: initial_chain_sync_def sync_step_def c sync_loop_pass)
qed

theorem failed_sync_keeps_serving_witness:
  "\<exists>e s'. initial_chain_sync down_sys demo_cfg False False demo_sup = Some (Inl e, s') \<and>
     a_nodes s' = a_nodes demo_sup \<and> a_seed_cache s' = a_seed_cache demo_sup"
proof -
  obtain e s' where run: "initial_chain_sync down_sys demo_cfg False False demo_sup = Some (Inl e, s')"
    using down_sync by blast
  from failed_sync_keeps_serving [OF run down_sup_sound down_bounded] run show ?thesis by simp
qed

theorem sync_returns_witness:
  "\<exists>r s'. initial_chain_sync down_sys demo_cfg False False demo_sup = Some (r, s')"
  using sync_returns [OF down_sup_sound down_bounded down_profiles, of False False] down_chain_id by blast

end
