(* ===== verification/Seed.thy ===== *)
theory Seed
  imports Reconcile
begin

text \<open>
  Model of the seed topology of \<^verbatim>\<open>src/api.rs\<close>: the cache of members checked on chain,
  how requests, the background refresh and the warm loop use it, and the snapshot built from it.
\<close>

section \<open>The cache\<close>

definition seed_cache_ttl :: nat where "seed_cache_ttl = 30 * 1000000000"
definition seed_stale_max :: nat where "seed_stale_max = 300 * 1000000000"

datatype seed_use = FreshCopy | StaleCopy | Rebuild

text \<open>The age of a copy built in the future counts as zero.\<close>

definition seed_cache_use :: "cached_seed option \<Rightarrow> u64 \<Rightarrow> nat \<Rightarrow> seed_use" where
  "seed_cache_use cached version now =
     (case cached of
        None \<Rightarrow> Rebuild
      | Some c \<Rightarrow>
          if cs_topology_version c \<noteq> version then Rebuild
          else let age = now - cs_built_at c
               in if age < seed_cache_ttl then FreshCopy
                  else if age < seed_stale_max then StaleCopy
                  else Rebuild)"

text \<open>The refresh lock is held by the background task while it runs.\<close>

record 'w seedst = "'w app" +
  sd_refreshing :: bool

definition seed_sync_ready :: "sync_status \<Rightarrow> bool" where
  "seed_sync_ready y \<longleftrightarrow>
     sy_phase y \<noteq> Starting \<and> sy_last_block y \<noteq> None \<and> sy_last_block y \<noteq> Some 0"

text \<open>The members in memory, checked on chain at the last processed block.\<close>

definition member_addresses :: "('w, 'z) app_scheme \<Rightarrow> string list" where
  "member_addresses s =
     sort (map (\<lambda>n. to_lowercase (ns_address n)) (filter registered_node (map snd (a_nodes s))))"

definition verify_seed_members ::
  "('w, 'e) sysenv_scheme \<Rightarrow> chain_config \<Rightarrow> (('w, 'z) app_scheme, cached_seed) task" where
  "verify_seed_members env cfg s =
     (if \<not> seed_sync_ready (a_sync s) then Some (Inl ''chain sync has not completed yet'', s)
      else if member_addresses s = [] then Some (Inl ''no replayed registered members are available'', s)
      else let block = the (sy_last_block (a_sync s)); version = a_topology_version s
           in task_bind (pinned_topology_members env cfg (member_addresses s) block) (\<lambda>(members, fingerprint).
              task_bind (instant_now env) (\<lambda>now.
              task_return \<lparr>cs_block = block, cs_topology_version = version, cs_built_at = now,
                cs_members = members, cs_fingerprint = fingerprint\<rparr>)) s)"

text \<open>Once the lock is held: a copy another task stored in the meantime is taken if it is fresh.\<close>

definition rebuild_seed_cache ::
  "('w, 'e) sysenv_scheme \<Rightarrow> chain_config \<Rightarrow> (('w, 'z) app_scheme, cached_seed) task" where
  "rebuild_seed_cache env cfg =
     task_bind (verify_seed_members env cfg) (\<lambda>fresh.
     task_bind (task_modify (\<lambda>s. s\<lparr>a_seed_cache := Some fresh\<rparr>)) (\<lambda>_. task_return fresh))"

definition refresh_seed_cache ::
  "('w, 'e) sysenv_scheme \<Rightarrow> chain_config \<Rightarrow> (('w, 'z) app_scheme, cached_seed) task" where
  "refresh_seed_cache env cfg s =
     (case a_seed_cache s of
        None \<Rightarrow> rebuild_seed_cache env cfg s
      | Some c \<Rightarrow>
          task_bind (instant_now env) (\<lambda>now.
            if seed_cache_use (Some c) (a_topology_version s) now = FreshCopy then task_return c
            else rebuild_seed_cache env cfg) s)"

definition spawn_seed_refresh :: "('w, 'z) seedst_scheme \<Rightarrow> ('w, 'z) seedst_scheme" where
  "spawn_seed_refresh s = s\<lparr>sd_refreshing := True\<rparr>"

definition background_refresh ::
  "('w, 'e) sysenv_scheme \<Rightarrow> chain_config \<Rightarrow> (('w, 'z) seedst_scheme, unit) task" where
  "background_refresh env cfg =
     task_try (verify_seed_members env cfg) (\<lambda>r.
     task_bind (case r of
         Inr fresh \<Rightarrow> task_modify (\<lambda>s. s\<lparr>a_seed_cache := Some fresh\<rparr>)
       | Inl e \<Rightarrow> task_return ()) (\<lambda>_.
     task_modify (\<lambda>s. s\<lparr>sd_refreshing := False\<rparr>)))"

definition pinned_seed_members ::
  "('w, 'e) sysenv_scheme \<Rightarrow> chain_config \<Rightarrow> (('w, 'z) seedst_scheme, cached_seed) task" where
  "pinned_seed_members env cfg s =
     (let version = a_topology_version s; cached = a_seed_cache s
      in task_bind (instant_now env) (\<lambda>now.
           case (seed_cache_use cached version now, cached) of
             (FreshCopy, Some c) \<Rightarrow> task_return c
           | (StaleCopy, Some c) \<Rightarrow> task_bind (task_modify spawn_seed_refresh) (\<lambda>_. task_return c)
           | (Rebuild, _) \<Rightarrow>
               task_try (refresh_seed_cache env cfg) (\<lambda>r.
                 case r of
                   Inr fresh \<Rightarrow> task_return fresh
                 | Inl error \<Rightarrow>
                     (case cached of
                        None \<Rightarrow> task_fail error
                      | Some c \<Rightarrow>
                          task_bind (instant_now env) (\<lambda>now2.
                            if now2 - cs_built_at c < seed_stale_max then task_return c
                            else task_fail error)))
           | (_, None) \<Rightarrow> task_fail ''seed cache emptied'') s)"

text \<open>One tick of the warm loop.\<close>

definition seed_warm_tick ::
  "('w, 'e) sysenv_scheme \<Rightarrow> chain_config \<Rightarrow> (('w, 'z) app_scheme, unit) task" where
  "seed_warm_tick env cfg s =
     (if seed_sync_ready (a_sync s)
      then task_try (refresh_seed_cache env cfg) (\<lambda>_. task_return ()) s
      else Some (Inr (), s))"

section \<open>The snapshot\<close>

record node_report =
  rep_capabilities :: "string list option"
  rep_build_version :: "string option"
  rep_pow_difficulty :: "u32 option"

definition default_report :: node_report where
  "default_report = \<lparr>rep_capabilities = None, rep_build_version = None, rep_pow_difficulty = None\<rparr>"

record seed_node =
  sn_address :: string
  sn_sphinx_key :: string
  sn_url :: string
  sn_stake :: string
  sn_last_seen :: u64
  sn_is_privileged :: bool
  sn_layer :: u8
  sn_role :: u8
  sn_ingress_url :: string
  sn_metadata_url :: string
  sn_frozen :: bool

record seed_liveness =
  sl_address :: string
  sl_status :: node_status
  sl_observed_at :: u64
  sl_capabilities :: "string list option"
  sl_build_version :: "string option"

record seed_snapshot =
  sp_schema_version :: u8
  sp_nodes :: "seed_node list"
  sp_fingerprint :: string
  sp_timestamp :: u64
  sp_block_number :: u64
  sp_pow_difficulty :: u32
  sp_liveness :: "seed_liveness list"

definition is_exit_role :: "u8 \<Rightarrow> bool" where
  "is_exit_role role \<longleftrightarrow> role = 2 \<or> role = 3"

definition is_online :: "(string \<times> node_status) list \<Rightarrow> pinned_node \<Rightarrow> bool" where
  "is_online statuses m \<longleftrightarrow> \<not> pn_frozen m \<and> map_of statuses (pn_address m) = Some Online"

definition publish_capabilities ::
  "(string \<times> node_status) list \<Rightarrow> (string \<times> node_report) list \<Rightarrow> pinned_node list \<Rightarrow> bool" where
  "publish_capabilities statuses rps members \<longleftrightarrow>
     list_all (\<lambda>m. case map_of rps (pn_address m) of
                     Some r \<Rightarrow> rep_capabilities r \<noteq> None | None \<Rightarrow> False)
       (filter (\<lambda>m. is_online statuses m \<and> is_exit_role (pn_role m)) members)"

definition reported_difficulties ::
  "(string \<times> node_status) list \<Rightarrow> (string \<times> node_report) list \<Rightarrow> pinned_node list \<Rightarrow> u32 list" where
  "reported_difficulties statuses rps members =
     List.map_filter (\<lambda>m. Option.bind (map_of rps (pn_address m)) rep_pow_difficulty)
       (filter (is_online statuses) members)"

definition liveness_entry ::
  "(string \<times> node_status) list \<Rightarrow> (string \<times> u64) list \<Rightarrow> (string \<times> node_report) list \<Rightarrow> bool \<Rightarrow>
   pinned_node \<Rightarrow> seed_liveness" where
  "liveness_entry statuses observed_at rps publish m =
     \<lparr>sl_address = pn_address m,
      sl_status = (if is_online statuses m then Online else Offline),
      sl_observed_at = (case map_of observed_at (pn_address m) of Some t \<Rightarrow> t | None \<Rightarrow> 0),
      sl_capabilities = (if publish then Option.bind (map_of rps (pn_address m)) rep_capabilities else None),
      sl_build_version = Option.bind (map_of rps (pn_address m)) rep_build_version\<rparr>"

definition seed_node_of :: "(string \<times> u64) list \<Rightarrow> pinned_node \<Rightarrow> seed_node" where
  "seed_node_of observed_at m =
     \<lparr>sn_address = pn_address m, sn_sphinx_key = pn_sphinx_key m, sn_url = pn_url m, sn_stake = pn_stake m,
      sn_last_seen = (case map_of observed_at (pn_address m) of Some t \<Rightarrow> t | None \<Rightarrow> 0),
      sn_is_privileged = pn_is_privileged m, sn_layer = pn_layer m, sn_role = pn_role m,
      sn_ingress_url = pn_ingress_url m, sn_metadata_url = pn_metadata_url m, sn_frozen = pn_frozen m\<rparr>"

fun out_of_order :: "string list \<Rightarrow> bool" where
  "out_of_order (a # b # as) \<longleftrightarrow> b \<le> a \<or> out_of_order (b # as)"
| "out_of_order as \<longleftrightarrow> False"

definition assemble_seed_topology ::
  "pinned_node list \<Rightarrow> string \<Rightarrow> (string \<times> node_status) list \<Rightarrow> (string \<times> u64) list \<Rightarrow>
   (string \<times> node_report) list \<Rightarrow> u32 \<Rightarrow> u64 \<Rightarrow> u64 \<Rightarrow> seed_snapshot res" where
  "assemble_seed_topology members fingerprint statuses observed_at rps max_pow block now =
     (if members = [] then Inl ''pinned topology has no members''
      else if out_of_order (map pn_address members)
      then Inl ''pinned members are not in canonical address order''
      else let publish = publish_capabilities statuses rps members;
               pow = min (case reported_difficulties statuses rps members of
                            [] \<Rightarrow> 0 | d # ds \<Rightarrow> fold max ds d) max_pow
           in Inr \<lparr>sp_schema_version = 2, sp_nodes = map (seed_node_of observed_at) members,
                   sp_fingerprint = fingerprint, sp_timestamp = now, sp_block_number = block,
                   sp_pow_difficulty = pow,
                   sp_liveness = map (liveness_entry statuses observed_at rps publish) members\<rparr>)"

text \<open>The reports on the nodes: their metrics, then the difficulty each last published.\<close>

definition metrics_report :: "structured_metrics \<Rightarrow> node_report" where
  "metrics_report m =
     \<lparr>rep_capabilities = sm_capabilities m,
      rep_build_version = (if sm_build_version m = [] then None else Some (sm_build_version m)),
      rep_pow_difficulty = None\<rparr>"

definition add_difficulty :: "string \<times> u32 \<Rightarrow> (string \<times> node_report) list \<Rightarrow> (string \<times> node_report) list" where
  "add_difficulty p rps =
     (let a = to_lowercase (fst p);
          r = (case map_of rps a of Some r \<Rightarrow> r | None \<Rightarrow> default_report)
      in AList.update a (r\<lparr>rep_pow_difficulty := Some (snd p)\<rparr>) rps)"

definition node_reports :: "('w, 'z) app_scheme \<Rightarrow> (string \<times> node_report) list" where
  "node_reports s =
     fold add_difficulty (a_pow_difficulties s)
       (collect_map (\<lambda>(a, m). (to_lowercase a, metrics_report m)) (a_metrics s))"

definition member_statuses :: "('w, 'z) app_scheme \<Rightarrow> (string \<times> node_status) list" where
  "member_statuses s =
     collect_map (\<lambda>n. (to_lowercase (ns_address n), ns_status n))
       (filter registered_node (map snd (a_nodes s)))"

text \<open>\<open>chrono::Utc::now().timestamp()\<close> in seconds, from the clock's milliseconds.\<close>

definition build_seed_topology ::
  "('w, 'e) sysenv_scheme \<Rightarrow> chain_config \<Rightarrow> u32 \<Rightarrow> (('w, 'z) seedst_scheme, seed_snapshot) task" where
  "build_seed_topology env cfg max_pow =
     task_bind (pinned_seed_members env cfg) (\<lambda>pinned.
     task_bind (task_map_err (\<lambda>e. ''load liveness observations: '' @ e)
         (load_liveness_observed_at env)) (\<lambda>observed s.
       task_bind (now_ms env) (\<lambda>now.
         case u64_of_i64 (now div 1000) of
           None \<Rightarrow> task_fail ''system time is before Unix epoch''
         | Some now_unix \<Rightarrow>
             task_of_res (assemble_seed_topology (cs_members pinned) (cs_fingerprint pinned)
               (member_statuses s) (collect_map (\<lambda>(a, t). (to_lowercase a, t)) observed)
               (node_reports s) max_pow (cs_block pinned) now_unix)) s))"

section \<open>What is cached has been checked on chain\<close>

text \<open>The copy is not empty, in address order, and the registry confirmed its set at its block.\<close>

definition copy_checked :: "('w, 'e) sysenv_scheme \<Rightarrow> chain_config \<Rightarrow> cached_seed \<Rightarrow> bool" where
  "copy_checked env cfg c \<longleftrightarrow>
     cs_block c \<noteq> 0 \<and> sorted_wrt (<) (map pn_address (cs_members c)) \<and>
     (\<exists>as. registry_agrees env cfg (cs_block c) as \<and> finite as \<and> as \<noteq> {} \<and>
        set (map pn_address (cs_members c)) = x_addr_text env ` as \<and>
        cs_fingerprint c = x_hex env (be_bytes (registry_fingerprint env as)))"

definition cache_checked :: "('w, 'e) sysenv_scheme \<Rightarrow> chain_config \<Rightarrow> ('w, 'z) app_scheme \<Rightarrow> bool" where
  "cache_checked env cfg s \<longleftrightarrow> net_ok cfg s \<and> (\<forall>c. a_seed_cache s = Some c \<longrightarrow> copy_checked env cfg c)"

text \<open>A clock reading ended in this state.\<close>

definition clock_read :: "('w, 'e) sysenv_scheme \<Rightarrow> nat \<Rightarrow> ('w, 'z) app_scheme \<Rightarrow> bool" where
  "clock_read env t s \<longleftrightarrow> (\<exists>w. e_instant env w = (t, n_world s))"

lemma seed_more:
  fixes s s' :: "('w, 'z) app_scheme"
  assumes "net.more s' = net.more s"
  shows "a_seed_cache s' = a_seed_cache s" and "a_topology_version s' = a_topology_version s"
  using assms by (cases s; cases s'; simp)+

lemma instant_frame: "keeps (frame cfg) (instant_now env)"
  by (rule keepsI) (auto simp: instant_now_Inr frame_def net_ok_def)

lemma parse_addresses_length: "parse_addresses x texts = Inr as \<Longrightarrow> length as = length texts"
  using parse_addresses_Inr list_all2_lengthD by fastforce

lemma verify_seed_frame:
  fixes env :: "('w, 'e) sysenv_scheme"
  shows "keeps (frame cfg) (verify_seed_members env cfg :: (('w, 'z) app_scheme, cached_seed) task)"
proof (rule keepsI)
  fix s s' :: "('w, 'z) app_scheme" and r :: "cached_seed res"
  let ?m = "task_bind (pinned_topology_members env cfg (member_addresses s) (the (sy_last_block (a_sync s))))
      (\<lambda>(members, fingerprint). task_bind (instant_now env) (\<lambda>now. task_return
         \<lparr>cs_block = the (sy_last_block (a_sync s)), cs_topology_version = a_topology_version s,
          cs_built_at = now, cs_members = members, cs_fingerprint = fingerprint\<rparr>))"
  assume run: "verify_seed_members env cfg s = Some (r, s')"
  have "keeps (frame cfg) ?m"
    by (intro frame_bind keeps_weaken [OF view_calls_quiet(11) quiet_frame] keeps_cases instant_frame frame_pure)
  from keepsD [OF this] run show "frame cfg s s'"
    by (auto simp: verify_seed_members_def Let_def frame_def split: if_splits)
qed

lemma verify_seed_Inr:
  fixes env :: "('w, 'e) sysenv_scheme" and s s' :: "('w, 'z) app_scheme"
  assumes codec: "addr_codec_ok env" and ok: "net_ok cfg s"
    and run: "verify_seed_members env cfg s = Some (Inr c, s')"
  shows "copy_checked env cfg c \<and> cs_topology_version c = a_topology_version s \<and> clock_read env (cs_built_at c) s'"
proof -
  from run obtain members fp and s1 :: "('w, 'z) app_scheme" where ne: "member_addresses s \<noteq> []"
    and p: "pinned_topology_members env cfg (member_addresses s) (the (sy_last_block (a_sync s))) s =
        Some (Inr (members, fp), s1)"
    and t: "e_instant env (n_world s1) = (cs_built_at c, n_world s')"
    and c: "cs_block c = the (sy_last_block (a_sync s))" "cs_topology_version c = a_topology_version s"
      "cs_members c = members" "cs_fingerprint c = fp"
    by (auto simp: verify_seed_members_def Let_def task_bind_Inr_iff instant_now_Inr split: if_splits)
  obtain as and s2 :: "('w, 'z) app_scheme" where r: "the (sy_last_block (a_sync s)) \<noteq> 0"
    "parse_addresses env (member_addresses s) = Inr as" "distinct as"
    "membership_at env cfg (the (sy_last_block (a_sync s))) s =
       Some (Inr (of_nat (length as), registry_fingerprint env (set as)), s2)"
    "fp = x_hex env (be_bytes (registry_fingerprint env (set as)))"
    "set (map pn_address members) = x_addr_text env ` set as" "sorted_wrt (<) (map pn_address members)"
    by (rule pinned_read [OF codec p]) blast
  from membership_at_answered [OF ok r(4)] r(3) c have "registry_agrees env cfg (cs_block c) (set as)"
    by (simp add: registry_agrees_def distinct_card)
  moreover from parse_addresses_length [OF r(2)] ne have "set as \<noteq> {}" by auto
  ultimately show ?thesis using r c t unfolding copy_checked_def clock_read_def by auto
qed

lemma verify_seed_keeps:
  fixes env :: "('w, 'e) sysenv_scheme" and s s' :: "('w, 'z) app_scheme"
  assumes "verify_seed_members env cfg s = Some (r, s')" and "cache_checked env cfg s"
  shows "cache_checked env cfg s' \<and> a_seed_cache s' = a_seed_cache s \<and> a_topology_version s' = a_topology_version s"
  using keepsD [OF verify_seed_frame assms(1)] seed_more [of s' s] assms(2)
  by (auto simp: frame_def cache_checked_def)

definition served_copy ::
  "('w, 'e) sysenv_scheme \<Rightarrow> chain_config \<Rightarrow> u64 \<Rightarrow> cached_seed \<Rightarrow> ('w, 'z) app_scheme \<Rightarrow> bool" where
  "served_copy env cfg version c s' \<longleftrightarrow>
     copy_checked env cfg c \<and> cs_topology_version c = version \<and> a_seed_cache s' = Some c \<and>
     (\<exists>t. clock_read env t s' \<and> t - cs_built_at c < seed_stale_max)"

lemma rebuild_cases:
  fixes env :: "('w, 'e) sysenv_scheme" and s s' :: "('w, 'z) app_scheme"
  assumes run: "rebuild_seed_cache env cfg s = Some (r, s')" and ok: "cache_checked env cfg s"
    and codec: "addr_codec_ok env"
  shows "cache_checked env cfg s' \<and>
    (case r of Inl e \<Rightarrow> a_seed_cache s' = a_seed_cache s
     | Inr c \<Rightarrow> served_copy env cfg (a_topology_version s) c s')"
proof (cases r)
  case (Inl e)
  with run have "verify_seed_members env cfg s = Some (Inl e, s')"
    by (auto simp: rebuild_seed_cache_def task_bind_Inl_iff task_modify_def)
  from verify_seed_keeps [OF this ok] Inl show ?thesis by simp
next
  case (Inr c)
  with run obtain s1 where v: "verify_seed_members env cfg s = Some (Inr c, s1)"
    and s': "s' = s1\<lparr>a_seed_cache := Some c\<rparr>"
    by (auto simp: rebuild_seed_cache_def task_bind_Inr_iff task_modify_def)
  from ok have net: "net_ok cfg s" by (simp add: cache_checked_def)
  from verify_seed_Inr [OF codec net v] verify_seed_keeps [OF v ok] Inr show ?thesis
    by (auto simp: s' cache_checked_def served_copy_def clock_read_def net_ok_def seed_stale_max_def)
qed

lemma fresh_age: "seed_cache_use (Some c) version now = FreshCopy \<Longrightarrow>
    cs_topology_version c = version \<and> now - cs_built_at c < seed_stale_max"
  "seed_cache_use (Some c) version now = StaleCopy \<Longrightarrow>
    cs_topology_version c = version \<and> now - cs_built_at c < seed_stale_max"
  by (auto simp: seed_cache_use_def Let_def seed_cache_ttl_def seed_stale_max_def split: if_splits)

lemma refresh_cases:
  fixes env :: "('w, 'e) sysenv_scheme" and s s' :: "('w, 'z) app_scheme"
  assumes run: "refresh_seed_cache env cfg s = Some (r, s')" and ok: "cache_checked env cfg s"
    and codec: "addr_codec_ok env"
  shows "cache_checked env cfg s' \<and>
    (case r of Inl e \<Rightarrow> a_seed_cache s' = a_seed_cache s
     | Inr c \<Rightarrow> served_copy env cfg (a_topology_version s) c s')"
proof (cases "a_seed_cache s")
  case None
  with run rebuild_cases [OF _ ok codec] show ?thesis by (simp add: refresh_seed_cache_def)
next
  case (Some c)
  obtain now w where i: "e_instant env (n_world s) = (now, w)" by (cases "e_instant env (n_world s)")
  let ?s = "s\<lparr>n_world := w\<rparr>"
  have ok1: "cache_checked env cfg ?s" using ok by (simp add: cache_checked_def net_ok_def)
  show ?thesis
  proof (cases "seed_cache_use (Some c) (a_topology_version s) now = FreshCopy")
    case True
    with run i Some have "r = Inr c" and "s' = ?s"
      by (auto simp: refresh_seed_cache_def task_bind_def instant_now_def task_return_def)
    with fresh_age(1) [OF True] ok1 Some i show ?thesis
      by (auto simp: served_copy_def clock_read_def cache_checked_def)
  next
    case False
    with run i Some have "rebuild_seed_cache env cfg ?s = Some (r, s')"
      by (auto simp: refresh_seed_cache_def task_bind_def instant_now_def)
    from rebuild_cases [OF this ok1 codec] show ?thesis by (simp split: sum.splits)
  qed
qed

text \<open>
  What a request for the members does: it answers a checked copy younger than the bound by a clock
  reading of its own, of the current membership unless the refresh it waited for failed.
\<close>

definition refresh_failed ::
  "('w, 'e) sysenv_scheme \<Rightarrow> chain_config \<Rightarrow> ('w, 'z) app_scheme \<Rightarrow> cached_seed \<Rightarrow> bool" where
  "refresh_failed env cfg s c \<longleftrightarrow> a_seed_cache s = Some c \<and>
     (\<exists>now w e s1. e_instant env (n_world s) = (now, w) \<and>
        seed_cache_use (a_seed_cache s) (a_topology_version s) now = Rebuild \<and>
        refresh_seed_cache env cfg (s\<lparr>n_world := w\<rparr>) = Some (Inl e, s1))"

lemma pinned_seed_cases:
  fixes env :: "('w, 'e) sysenv_scheme" and s s' :: "('w, 'z) seedst_scheme"
  assumes run: "pinned_seed_members env cfg s = Some (r, s')" and ok: "cache_checked env cfg s"
    and codec: "addr_codec_ok env"
  shows "cache_checked env cfg s' \<and>
    (\<forall>c. r = Inr c \<longrightarrow> copy_checked env cfg c \<and> a_seed_cache s' = Some c \<and>
       (\<exists>t. clock_read env t s' \<and> t - cs_built_at c < seed_stale_max) \<and>
       (cs_topology_version c = a_topology_version s \<or> refresh_failed env cfg s c))"
proof -
  obtain now w where i: "e_instant env (n_world s) = (now, w)" by (cases "e_instant env (n_world s)")
  let ?s = "s\<lparr>n_world := w\<rparr>"
  have ok1: "cache_checked env cfg ?s" using ok by (simp add: cache_checked_def net_ok_def)
  show ?thesis
  proof (cases "seed_cache_use (a_seed_cache s) (a_topology_version s) now")
    case FreshCopy
    then obtain c where c: "a_seed_cache s = Some c" by (cases "a_seed_cache s") (auto simp: seed_cache_use_def)
    with run i FreshCopy have "r = Inr c" and "s' = ?s"
      by (auto simp: pinned_seed_members_def Let_def task_bind_def instant_now_def task_return_def)
    with fresh_age(1) [OF FreshCopy [unfolded c]] ok1 c i show ?thesis
      by (auto simp: clock_read_def cache_checked_def)
  next
    case StaleCopy
    then obtain c where c: "a_seed_cache s = Some c" by (cases "a_seed_cache s") (auto simp: seed_cache_use_def)
    with run i StaleCopy have "r = Inr c" and "s' = spawn_seed_refresh ?s"
      by (auto simp: pinned_seed_members_def Let_def task_bind_def instant_now_def task_return_def task_modify_def)
    with fresh_age(2) [OF StaleCopy [unfolded c]] ok1 c i show ?thesis
      by (auto simp: clock_read_def cache_checked_def spawn_seed_refresh_def net_ok_def)
  next
    case Rebuild
    with run i obtain r1 s1 where f: "refresh_seed_cache env cfg ?s = Some (r1, s1)"
      by (auto simp: pinned_seed_members_def Let_def task_bind_def instant_now_def task_try_def
          split: option.splits prod.splits)
    note res = refresh_cases [OF f ok1 codec]
    show ?thesis
    proof (cases r1)
      case (Inr c)
      with run i Rebuild f have "r = Inr c" and "s' = s1"
        by (auto simp: pinned_seed_members_def Let_def task_bind_def instant_now_def task_try_def task_return_def)
      with res Inr show ?thesis by (simp add: served_copy_def)
    next
      case (Inl e)
      show ?thesis
      proof (cases "a_seed_cache s")
        case None
        with run i Rebuild f Inl have "r = Inl e" and "s' = s1"
          by (auto simp: pinned_seed_members_def Let_def task_bind_def instant_now_def task_try_def task_fail_def)
        with res show ?thesis by simp
      next
        case (Some c)
        obtain now2 w2 where i2: "e_instant env (n_world s1) = (now2, w2)" by (cases "e_instant env (n_world s1)")
        with run i Rebuild f Inl Some have s': "s' = s1\<lparr>n_world := w2\<rparr>"
          and r: "r = (if now2 - cs_built_at c < seed_stale_max then Inr c else Inl e)"
          by (auto simp: pinned_seed_members_def Let_def task_bind_def instant_now_def task_try_def task_fail_def
              task_return_def split: if_splits)
        from res Inl Some have ok2: "cache_checked env cfg s1" and c1: "a_seed_cache s1 = Some c" by simp_all
        then have "copy_checked env cfg c" by (simp add: cache_checked_def)
        moreover have "cache_checked env cfg s'" using ok2 by (simp add: s' cache_checked_def net_ok_def)
        moreover have "clock_read env now2 s'" using i2 by (auto simp: s' clock_read_def)
        moreover have "refresh_failed env cfg s c"
          using i Rebuild f Inl Some by (auto simp: refresh_failed_def)
        ultimately show ?thesis using r c1 by (auto simp: s' split: if_splits)
      qed
    qed
  qed
qed

section \<open>The endpoint's life\<close>

text \<open>
  What happens to the cache: requests, the background refresh a stale copy started, ticks of the
  warm loop, and everything else in the process, which never writes the cache.
\<close>

inductive seed_step ::
  "('w, 'e) sysenv_scheme \<Rightarrow> chain_config \<Rightarrow> ('w, 'z) seedst_scheme \<Rightarrow> ('w, 'z) seedst_scheme \<Rightarrow> bool"
  for env :: "('w, 'e) sysenv_scheme" and cfg where
  request_step: "pinned_seed_members env cfg s = Some (r, s') \<Longrightarrow> seed_step env cfg s s'"
| background_step: "sd_refreshing s \<Longrightarrow> background_refresh env cfg s = Some (r, s') \<Longrightarrow> seed_step env cfg s s'"
| warm_step: "seed_warm_tick env cfg s = Some (r, s') \<Longrightarrow> seed_step env cfg s s'"
| other_step: "net_ok cfg s' \<Longrightarrow> a_seed_cache s' = a_seed_cache s \<Longrightarrow> sd_refreshing s' = sd_refreshing s \<Longrightarrow>
    seed_step env cfg s s'"

lemma background_checked:
  fixes env :: "('w, 'e) sysenv_scheme" and s s' :: "('w, 'z) seedst_scheme"
  assumes run: "background_refresh env cfg s = Some (r, s')" and ok: "cache_checked env cfg s"
    and codec: "addr_codec_ok env"
  shows "cache_checked env cfg s'"
proof -
  from run obtain r1 s1 where v: "verify_seed_members env cfg s = Some (r1, s1)"
    by (auto simp: background_refresh_def task_try_def split: option.splits prod.splits)
  from ok have net: "net_ok cfg s" by (simp add: cache_checked_def)
  show ?thesis
  proof (cases r1)
    case (Inl e)
    with run v have "s' = s1\<lparr>sd_refreshing := False\<rparr>"
      by (auto simp: background_refresh_def task_try_def task_bind_def task_return_def task_modify_def)
    with verify_seed_keeps [OF v ok] show ?thesis by (simp add: cache_checked_def net_ok_def)
  next
    case (Inr c)
    with run v have "s' = s1\<lparr>a_seed_cache := Some c, sd_refreshing := False\<rparr>"
      by (auto simp: background_refresh_def task_try_def task_bind_def task_modify_def)
    with verify_seed_keeps [OF v ok] verify_seed_Inr [OF codec net v [unfolded Inr]]
    show ?thesis by (simp add: cache_checked_def net_ok_def)
  qed
qed

lemma warm_checked:
  fixes env :: "('w, 'e) sysenv_scheme" and s s' :: "('w, 'z) app_scheme"
  assumes "seed_warm_tick env cfg s = Some (r, s')" and "cache_checked env cfg s" and "addr_codec_ok env"
  shows "cache_checked env cfg s'"
  using assms refresh_cases [OF _ assms(2,3)]
  by (auto simp: seed_warm_tick_def task_try_def task_return_def split: if_splits option.splits prod.splits)

lemma seed_step_checked:
  fixes env :: "('w, 'e) sysenv_scheme" and s s' :: "('w, 'z) seedst_scheme"
  assumes "seed_step env cfg s s'" and "cache_checked env cfg s" and "addr_codec_ok env"
  shows "cache_checked env cfg s'"
  using assms(1,2)
proof (cases rule: seed_step.cases)
  case (request_step r)
  from pinned_seed_cases [OF request_step assms(2,3)] show ?thesis by blast
next
  case (background_step r)
  from background_checked [OF background_step(2) assms(2,3)] show ?thesis .
next
  case (warm_step r)
  from warm_checked [OF warm_step assms(2,3)] show ?thesis .
next
  case other_step
  with assms(2) show ?thesis by (simp add: cache_checked_def)
qed

lemma seed_life_checked:
  fixes env :: "('w, 'e) sysenv_scheme" and s s' :: "('w, 'z) seedst_scheme"
  assumes "(seed_step env cfg)\<^sup>*\<^sup>* s s'" and "cache_checked env cfg s" and "addr_codec_ok env"
  shows "cache_checked env cfg s'"
  using assms by (induction rule: rtranclp_induct) (auto intro: seed_step_checked)

section \<open>Requests come back\<close>

lemma runs_pinned:
  fixes env :: "('w, 'e) sysenv_scheme"
  assumes "profiles_decode env cfg"
  shows "runs cfg (pinned_topology_members env cfg texts block :: (('w, 'z) net_scheme, _) task)"
proof -
  have node: "runs cfg (pinned_node_at env cfg block a :: (('w, 'z) net_scheme, _) task)" for a
    unfolding pinned_node_at_def Let_def by (intro runs_bind runs_profile [OF assms] runs_cases runs_pure runs_views)
  show ?thesis
    unfolding pinned_topology_members_def
    by (intro runs_bind runs_map node runs_cases runs_pure runs_views)
qed

lemma runs_verify_seed:
  fixes env :: "('w, 'e) sysenv_scheme"
  assumes "profiles_decode env cfg"
  shows "runs cfg (verify_seed_members env cfg :: (('w, 'z) app_scheme, _) task)"
proof (rule runsI)
  fix s :: "('w, 'z) app_scheme"
  assume ok: "net_ok cfg s"
  let ?b = "the (sy_last_block (a_sync s))"
  have "runs cfg (task_bind (pinned_topology_members env cfg (member_addresses s) ?b)
      (\<lambda>(members, fingerprint). task_bind (instant_now env) (\<lambda>now. task_return
         \<lparr>cs_block = ?b, cs_topology_version = a_topology_version s,
          cs_built_at = now, cs_members = members, cs_fingerprint = fingerprint\<rparr>))
      :: (('w, 'z) app_scheme, _) task)"
    by (intro runs_bind runs_pinned assms runs_cases runs_instant runs_pure)
  from runsD [OF this ok] ok show "\<exists>r s'. verify_seed_members env cfg s = Some (r, s') \<and> net_ok cfg s'"
    by (simp add: verify_seed_members_def Let_def)
qed

lemma runs_refresh:
  fixes env :: "('w, 'e) sysenv_scheme"
  assumes "profiles_decode env cfg"
  shows "runs cfg (refresh_seed_cache env cfg :: (('w, 'z) app_scheme, _) task)"
proof (rule runsI)
  fix s :: "('w, 'z) app_scheme"
  assume ok: "net_ok cfg s"
  have m: "runs cfg (rebuild_seed_cache env cfg :: (('w, 'z) app_scheme, _) task)"
    unfolding rebuild_seed_cache_def
    by (intro runs_bind runs_verify_seed assms runs_modify runs_pure) (simp add: net_ok_def)
  have "runs cfg (task_bind (instant_now env) (\<lambda>now.
      if seed_cache_use (Some c) (a_topology_version s) now = FreshCopy then task_return c
      else rebuild_seed_cache env cfg) :: (('w, 'z) app_scheme, _) task)" for c
    by (intro runs_bind runs_cases runs_instant runs_pure m)
  from runsD [OF m ok] runsD [OF this ok] show "\<exists>r s'. refresh_seed_cache env cfg s = Some (r, s') \<and> net_ok cfg s'"
    by (auto simp: refresh_seed_cache_def split: option.split)
qed

text \<open>A copy within the bound keeps the endpoint answering, whatever the endpoints of the chain do.\<close>

lemma pinned_seed_available:
  fixes env :: "('w, 'e) sysenv_scheme" and s :: "('w, 'z) seedst_scheme"
  assumes dec: "profiles_decode env cfg" and ok: "net_ok cfg s" and c: "a_seed_cache s = Some c"
    and young: "\<And>w. fst (e_instant env w) - cs_built_at c < seed_stale_max"
  shows "\<exists>c' s'. pinned_seed_members env cfg s = Some (Inr c', s')"
proof -
  obtain now w where i: "e_instant env (n_world s) = (now, w)" by (cases "e_instant env (n_world s)")
  have "net_ok cfg (s\<lparr>n_world := w\<rparr>)" using ok by (simp add: net_ok_def)
  from runsD [OF runs_refresh [OF dec] this] obtain r s1 where
    f: "refresh_seed_cache env cfg (s\<lparr>n_world := w\<rparr>) = Some (r, s1)" by blast
  obtain now2 w2 where i2: "e_instant env (n_world s1) = (now2, w2)" by (cases "e_instant env (n_world s1)")
  with young [of "n_world s1"] have "now2 - cs_built_at c < seed_stale_max" by simp
  with i c f i2 show ?thesis
    by (cases "seed_cache_use (Some c) (a_topology_version s) now"; cases r)
      (simp_all add: pinned_seed_members_def Let_def task_bind_def instant_now_def task_return_def
        task_modify_def task_try_def)
qed

section \<open>What the snapshot says\<close>

lemma out_of_order_iff: "out_of_order as \<longleftrightarrow> \<not> sorted_wrt (<) as"
proof (induction as rule: out_of_order.induct)
  case (1 a b as)
  then show ?case by (auto simp: not_le intro: less_trans)
qed auto

lemma fold_max_Max: "fold max ds (d :: u32) = Max (insert d (set ds))"
  using Max.set_eq_fold [of d ds] by simp

lemma assemble_Inr_iff:
  "assemble_seed_topology members fp st obs rps cap block now = Inr snap \<longleftrightarrow>
     members \<noteq> [] \<and> sorted_wrt (<) (map pn_address members) \<and>
     snap = \<lparr>sp_schema_version = 2, sp_nodes = map (seed_node_of obs) members, sp_fingerprint = fp,
       sp_timestamp = now, sp_block_number = block,
       sp_pow_difficulty = min (Max (insert 0 (set (reported_difficulties st rps members)))) cap,
       sp_liveness = map (liveness_entry st obs rps (publish_capabilities st rps members)) members\<rparr>"
proof -
  have "(case ds of [] \<Rightarrow> 0 | d # ds \<Rightarrow> fold max ds d) = Max (insert 0 (set ds))" for ds :: "u32 list"
    by (cases ds) (simp_all add: fold_max_Max max_def)
  then show ?thesis by (auto simp: assemble_seed_topology_def out_of_order_iff Let_def)
qed

lemma reported_difficulties_set:
  "set (reported_difficulties st rps members) =
     {d. \<exists>m \<in> set members. is_online st m \<and>
          Option.bind (map_of rps (pn_address m)) rep_pow_difficulty = Some d}"
  by (force simp: reported_difficulties_def List.map_filter_def)

lemma liveness_entry_sel [simp]:
  "sl_address (liveness_entry st obs rps pub m) = pn_address m"
  "sl_status (liveness_entry st obs rps pub m) = Online \<longleftrightarrow> is_online st m"
  "sl_capabilities (liveness_entry st obs rps pub m) =
     (if pub then Option.bind (map_of rps (pn_address m)) rep_capabilities else None)"
  "sn_address (seed_node_of obs m) = pn_address m" "sn_role (seed_node_of obs m) = pn_role m"
  by (simp_all add: liveness_entry_def seed_node_of_def)

lemma publish_capabilitiesD:
  "publish_capabilities st rps members \<Longrightarrow> m \<in> set members \<Longrightarrow> is_online st m \<Longrightarrow> is_exit_role (pn_role m) \<Longrightarrow>
     Option.bind (map_of rps (pn_address m)) rep_capabilities \<noteq> None"
  by (auto simp: publish_capabilities_def list_all_iff split: option.splits)

lemma build_seed_Inr:
  fixes env :: "('w, 'e) sysenv_scheme" and s s' :: "('w, 'z) seedst_scheme"
  assumes "build_seed_topology env cfg cap s = Some (Inr snap, s')"
  obtains c and s1 :: "('w, 'z) seedst_scheme" where "pinned_seed_members env cfg s = Some (Inr c, s1)"
    and "map sn_address (sp_nodes snap) = map pn_address (cs_members c)"
    and "sp_fingerprint snap = cs_fingerprint c" and "sp_block_number snap = cs_block c"
    and "sp_pow_difficulty snap \<le> cap"
  using assms that
  by (auto simp: build_seed_topology_def task_bind_Inr_iff task_of_res_def assemble_Inr_iff comp_def
      split: option.splits)

text \<open>
  C3: what \<open>/seed/topology\<close> answers. Whatever the requests, background refreshes, warm ticks and other
  tasks did since the start with an empty cache, an answer lists a non-empty set of addresses in
  strictly increasing order whose number and fingerprint the registry itself gave for the block named
  in the answer, with the fingerprint printed; the copy it was built from was younger than 300 seconds
  by a clock reading made for this request; and its membership was the current one, or it is the
  copy that was cached when the request came, this request found that it needs a rebuild, and the
  refresh this request ran failed. Assumed is that the text of an address reads back as that address.
\<close>

theorem seed_topology_verified:
  fixes env :: "('w, 'e) sysenv_scheme" and s0 s s' :: "('w, 'z) seedst_scheme"
  assumes "addr_codec_ok env" and "net_ok cfg s0" and "a_seed_cache s0 = None"
    and "(seed_step env cfg)\<^sup>*\<^sup>* s0 s"
    and "build_seed_topology env cfg cap s = Some (Inr snap, s')"
  shows "sorted_wrt (<) (map sn_address (sp_nodes snap)) \<and>
    (\<exists>as. registry_agrees env cfg (sp_block_number snap) as \<and> finite as \<and> as \<noteq> {} \<and>
       set (map sn_address (sp_nodes snap)) = x_addr_text env ` as \<and>
       sp_fingerprint snap = x_hex env (be_bytes (registry_fingerprint env as))) \<and>
    sp_pow_difficulty snap \<le> cap \<and>
    (\<exists>c t (s1 :: ('w, 'z) seedst_scheme). pinned_seed_members env cfg s = Some (Inr c, s1) \<and>
       map pn_address (cs_members c) = map sn_address (sp_nodes snap) \<and>
       clock_read env t s1 \<and> t - cs_built_at c < 300 * 1000000000 \<and>
       (cs_topology_version c = a_topology_version s \<or> refresh_failed env cfg s c))"
proof -
  have "cache_checked env cfg s0" using assms(2,3) by (simp add: cache_checked_def)
  from seed_life_checked [OF assms(4) this assms(1)] have ok: "cache_checked env cfg s" .
  obtain c and s1 :: "('w, 'z) seedst_scheme" where p: "pinned_seed_members env cfg s = Some (Inr c, s1)"
    and snap: "map sn_address (sp_nodes snap) = map pn_address (cs_members c)"
      "sp_fingerprint snap = cs_fingerprint c" "sp_block_number snap = cs_block c" "sp_pow_difficulty snap \<le> cap"
    by (rule build_seed_Inr [OF assms(5)]) blast
  from pinned_seed_cases [OF p ok assms(1)] have chk: "copy_checked env cfg c"
    and rest: "\<exists>t. clock_read env t s1 \<and> t - cs_built_at c < seed_stale_max"
      "cs_topology_version c = a_topology_version s \<or> refresh_failed env cfg s c"
    by simp_all
  have set: "set (map sn_address (sp_nodes snap)) = set (map pn_address (cs_members c))"
    using snap(1) by (rule arg_cong)
  from chk p snap rest show ?thesis unfolding copy_checked_def seed_stale_max_def set snap(2,3) by auto
qed

text \<open>
  C20: what the snapshot says of each member. It fails exactly for an empty or unordered list; otherwise
  nodes and liveness follow the members' order; a member is online exactly when it is not frozen and
  its last status is; a capability list is the member's own report, and as soon as one member carries
  a list every online exit does; the difficulty is the highest an online member reports, cut at the
  configured cap.
\<close>

theorem seed_snapshot_content:
  "case assemble_seed_topology members fp st obs rps cap block now of
     Inl e \<Rightarrow> members = [] \<or> \<not> sorted_wrt (<) (map pn_address members)
   | Inr snap \<Rightarrow>
       map sn_address (sp_nodes snap) = map pn_address members \<and>
       map sl_address (sp_liveness snap) = map pn_address members \<and>
       (\<forall>i < length members. sl_status (sp_liveness snap ! i) = Online \<longleftrightarrow>
          \<not> pn_frozen (members ! i) \<and> map_of st (pn_address (members ! i)) = Some Online) \<and>
       (\<forall>l \<in> set (sp_liveness snap). \<forall>cs. sl_capabilities l = Some cs \<longrightarrow>
          (\<exists>r. map_of rps (sl_address l) = Some r \<and> rep_capabilities r = Some cs)) \<and>
       ((\<exists>l \<in> set (sp_liveness snap). sl_capabilities l \<noteq> None) \<longrightarrow>
          (\<forall>i < length members. sl_status (sp_liveness snap ! i) = Online \<longrightarrow>
             pn_role (members ! i) \<in> {2, 3} \<longrightarrow> sl_capabilities (sp_liveness snap ! i) \<noteq> None)) \<and>
       sp_pow_difficulty snap = min cap (Max (insert 0
          {d. \<exists>m \<in> set members. is_online st m \<and>
              Option.bind (map_of rps (pn_address m)) rep_pow_difficulty = Some d}))"
proof (cases "assemble_seed_topology members fp st obs rps cap block now")
  case (Inl e)
  then have "\<not> (\<exists>snap. assemble_seed_topology members fp st obs rps cap block now = Inr snap)" by simp
  from this [unfolded assemble_Inr_iff] show ?thesis by (simp add: Inl)
next
  case (Inr snap)
  from Inr [unfolded assemble_Inr_iff] have snap: "snap = \<lparr>sp_schema_version = 2,
      sp_nodes = map (seed_node_of obs) members, sp_fingerprint = fp, sp_timestamp = now, sp_block_number = block,
      sp_pow_difficulty = min (Max (insert 0 (set (reported_difficulties st rps members)))) cap,
      sp_liveness = map (liveness_entry st obs rps (publish_capabilities st rps members)) members\<rparr>" by simp
  have exits: "Option.bind (map_of rps (pn_address (members ! i))) rep_capabilities \<noteq> None"
    if "publish_capabilities st rps members" and "i < length members" and "is_online st (members ! i)"
      and "pn_role (members ! i) = 2 \<or> pn_role (members ! i) = 3" for i
    using publish_capabilitiesD [OF that(1) nth_mem [OF that(2)] that(3)] that(4) by (simp add: is_exit_role_def)
  show ?thesis
    unfolding Inr sum.case snap
    by (intro conjI) (use exits in \<open>auto simp: comp_def reported_difficulties_set min.commute is_online_def
        bind_eq_Some_conv split: if_splits\<close>)
qed

definition demo_member :: pinned_node where
  "demo_member =
     \<lparr>pn_address = ''0xaa'', pn_sphinx_key = [], pn_url = [], pn_stake = ''0'', pn_is_privileged = True,
      pn_layer = 2, pn_role = 2, pn_ingress_url = [], pn_metadata_url = [], pn_frozen = False\<rparr>"

theorem seed_snapshot_content_witness:
  "\<exists>snap. assemble_seed_topology [demo_member] ''7'' [(''0xaa'', Online)] [(''0xaa'', 5)]
       [(''0xaa'', \<lparr>rep_capabilities = Some [''paid_v2''], rep_build_version = None, rep_pow_difficulty = Some 22\<rparr>)]
       16 980 1700000000 = Inr snap \<and>
     sl_capabilities (sp_liveness snap ! 0) \<noteq> None \<and> sp_pow_difficulty snap = 16"
proof -
  let ?st = "[(''0xaa'', Online)]"
  let ?rps = "[(''0xaa'', \<lparr>rep_capabilities = Some [''paid_v2''], rep_build_version = None, rep_pow_difficulty = Some 22\<rparr>)]"
  obtain snap where run: "assemble_seed_topology [demo_member] ''7'' ?st [(''0xaa'', 5)] ?rps 16 980 1700000000 = Inr snap"
    using assemble_Inr_iff [of "[demo_member]"] by auto
  then have caps: "sl_capabilities (sp_liveness snap ! 0) \<noteq> None"
    by (simp add: assemble_Inr_iff publish_capabilities_def demo_member_def)
  have on: "is_online ?st demo_member" by (simp add: is_online_def demo_member_def)
  have "{d. \<exists>m \<in> set [demo_member]. is_online ?st m \<and>
      Option.bind (map_of ?rps (pn_address m)) rep_pow_difficulty = Some d} = {22}"
    using on by (auto simp: demo_member_def)
  moreover have "sp_pow_difficulty snap = min 16 (Max (insert 0 {d. \<exists>m \<in> set [demo_member]. is_online ?st m \<and>
      Option.bind (map_of ?rps (pn_address m)) rep_pow_difficulty = Some d}))"
    using seed_snapshot_content [where members = "[demo_member]" and fp = "''7''" and st = ?st and rps = ?rps
        and obs = "[(''0xaa'', 5)]" and cap = 16 and block = 980 and now = 1700000000]
    by (simp add: run)
  ultimately have "sp_pow_difficulty snap = min 16 (Max (insert 0 {22}))" by simp
  also have "\<dots> = 16" by simp
  finally show ?thesis using run caps by blast
qed

definition demo_seed :: "unit seedst" where
  "demo_seed = app.extend (demo_app
     \<lparr>a_nodes := [(hex_address 0xaa, (node_of_row demo_sys False demo_row)\<lparr>ns_address := hex_address 0xaa\<rparr>)],
      a_sync := (default_sync ''0xbb'')\<lparr>sy_phase := Live, sy_last_block := Some 980\<rparr>\<rparr>) (seedst.fields False)"

lemma demo_seed_sel [simp]:
  "preferred (n_transport demo_seed) = 0" "a_seed_cache demo_seed = None" "d_tables demo_seed = empty_tables"
  "a_topology_version demo_seed = 0" "a_metrics demo_seed = []" "a_pow_difficulties demo_seed = []"
  by (simp_all add: demo_seed_def demo_app_defs seedst.defs)

lemma demo_seed_ok: "net_ok demo_cfg demo_seed"
  using demo_cfg_ok by (simp add: net_ok_def demo_seed_def demo_app_defs seedst.defs)

lemma instant_now_demo [simp]: "instant_now demo_sys s = Some (Inr 1000000000000, s)"
  by (simp add: instant_now_def)

lemma demo_sys_codec: "addr_codec_ok demo_sys"
  using demo_codec by (simp add: addr_codec_ok_def demo_sys_def demo_defs sysenv.defs)

lemma demo_seed_members: "member_addresses demo_seed = [hex_address 0xaa]"
  by (simp add: member_addresses_def demo_seed_def demo_app_defs seedst.defs registered_node_def
      node_of_row_def demo_row_def status_from_str_def hex_address_lower)

theorem seed_topology_verified_witness:
  "\<exists>snap s'. build_seed_topology demo_sys demo_cfg 16 demo_seed = Some (Inr snap, s') \<and>
     sp_pow_difficulty snap \<le> 16 \<and> sorted_wrt (<) (map sn_address (sp_nodes snap))"
proof -
  obtain n fp where p: "pinned_topology_members demo_sys demo_cfg [hex_address 0xaa] 980 demo_seed =
      Some (Inr ([n], fp), demo_seed)"
    using demo_pinned [OF demo_sys_answers, where s = demo_seed and block = 980 and a = "0xaa"] by auto
  have y: "seed_sync_ready (a_sync demo_seed)" "sy_last_block (a_sync demo_seed) = Some 980"
    by (simp_all add: seed_sync_ready_def demo_seed_def demo_app_defs seedst.defs)
  let ?c = "\<lparr>cs_block = 980, cs_topology_version = 0, cs_built_at = 1000000000000, cs_members = [n], cs_fingerprint = fp\<rparr>"
  have pin: "pinned_seed_members demo_sys demo_cfg demo_seed =
      Some (Inr ?c, demo_seed\<lparr>a_seed_cache := Some ?c\<rparr>)"
    by (simp add: pinned_seed_members_def Let_def seed_cache_use_def refresh_seed_cache_def
        rebuild_seed_cache_def verify_seed_members_def y demo_seed_members p task_bind_def task_try_def
        task_return_def task_modify_def)
  have "assemble_seed_topology [n] fp st obs rps cap block now = Inr
      \<lparr>sp_schema_version = 2, sp_nodes = map (seed_node_of obs) [n], sp_fingerprint = fp,
       sp_timestamp = now, sp_block_number = block,
       sp_pow_difficulty = min (Max (insert 0 (set (reported_difficulties st rps [n])))) cap,
       sp_liveness = map (liveness_entry st obs rps (publish_capabilities st rps [n])) [n]\<rparr>" for st obs rps cap block now
    by (simp add: assemble_Inr_iff)
  then obtain snap s' where run: "build_seed_topology demo_sys demo_cfg 16 demo_seed = Some (Inr snap, s')"
    by (simp add: build_seed_topology_def task_bind_def pin load_liveness_observed_at_def query_def
        empty_tables_def task_map_err_def task_return_def u64_of_i64_def task_of_res_def)
  from seed_topology_verified [OF demo_sys_codec demo_seed_ok demo_seed_sel(2) rtranclp.rtrancl_refl run] run
  show ?thesis by blast
qed

end
