(* ===== verification/Settlement.thy ===== *)
theory Settlement
  imports Reconcile
begin

text \<open>
  Model of the settlement sync of \<^verbatim>\<open>src/chain/settlement.rs\<close>: reading the settlement
  logs up to the safe head, storing them with their block's time, the checkpoint, the summary per
  exit and the pool's balances, and the loop around them. What it guarantees: every block up to the
  checkpoint was read from a trusted endpoint and its logs are stored.
\<close>

section \<open>State\<close>

text \<open>The variables of \<open>run_settlement_sync\<close>, and the counter of one \<open>sync_once\<close>.\<close>

record 'w setst = "'w app" +
  f_next_block :: "u64 option"
  f_last_summary :: "nat option"
  f_stored :: nat

definition settlement_poll_interval :: nat where "settlement_poll_interval = 60 * 1000000000"
definition gauge_refresh :: nat where "gauge_refresh = 600 * 1000000000"

definition on_settlements ::
  "(settlement_status \<Rightarrow> settlement_status) \<Rightarrow> (('w, 'z) app_scheme, unit) task" where
  "on_settlements f = task_modify (\<lambda>s. s\<lparr>a_settlements := f (a_settlements s)\<rparr>)"

definition begin_settlement_sync ::
  "'x ext_scheme \<Rightarrow> settlement_config \<Rightarrow> ('w, 'z) setst_scheme \<Rightarrow> ('w, 'z) setst_scheme" where
  "begin_settlement_sync x config s =
     s\<lparr>a_settlements := (a_settlements s)\<lparr>ss_enabled := True,
         ss_entry_point := Some (key_of_address x (sc_entry_point config)),
         ss_reward_pool := map_option (key_of_address x) (sc_reward_pool config)\<rparr>,
       f_next_block := None, f_last_summary := None\<rparr>"

section \<open>Storing logs\<close>

text \<open>The blocks of the logs in increasing order, and the time of each.\<close>

definition log_blocks :: "settlement_log list \<Rightarrow> u64 list" where
  "log_blocks entries = sorted_list_of_set (set (map log_block entries))"

definition block_times ::
  "('w, 'e) sysenv_scheme \<Rightarrow> chain_config \<Rightarrow> u64 list \<Rightarrow> (('w, 'z) net_scheme, (u64 \<times> u64) list) task" where
  "block_times env cfg =
     task_map (\<lambda>b. task_bind (retry_rpc env ''block timestamp'' (block_timestamp env cfg b)) (\<lambda>t.
                   task_return (b, t)))"

definition stamp :: "(u64 \<times> u64) list \<Rightarrow> settlement_log \<Rightarrow> settlement_log" where
  "stamp ts e =
     set_timestamp (case map_of ts (log_block e) of Some t \<Rightarrow> t | None \<Rightarrow> 0) e"

definition store_entry ::
  "('w, 'e) sysenv_scheme \<Rightarrow> settlement_config \<Rightarrow> u64 \<Rightarrow> settlement_log \<Rightarrow> (('w, 'z) dbst_scheme, bool) task" where
  "store_entry env config cid e =
     (case e of
        Settled p \<Rightarrow>
          task_map_err (\<lambda>m. ''persist settlement '' @ ps_tx_hash p @ '': '' @ m)
            (insert_paid_settlement env cid (sc_entry_point config) p)
      | Claimed c \<Rightarrow>
          (case sc_reward_pool config of
             Some pool \<Rightarrow>
               task_map_err (\<lambda>m. ''persist exit claim '' @ xc_tx_hash c @ '': '' @ m)
                 (insert_exit_credit_claim env cid pool c)
           | None \<Rightarrow> task_return False))"

definition store_entries ::
  "('w, 'e) sysenv_scheme \<Rightarrow> settlement_config \<Rightarrow> u64 \<Rightarrow> settlement_log list \<Rightarrow>
   (('w, 'z) setst_scheme, unit) task" where
  "store_entries env config cid =
     task_each (\<lambda>e. task_bind (store_entry env config cid e) (\<lambda>inserted.
       if inserted then task_modify (\<lambda>s. s\<lparr>f_stored := f_stored s + 1\<rparr>) else task_return ()))"

text \<open>What follows a fetched chunk: decoding, storing, the checkpoint and the counters. A log index
  above 64 bits is the panic of the decoder.\<close>

definition store_chunk ::
  "('w, 'e) sysenv_scheme \<Rightarrow> chain_config \<Rightarrow> settlement_config \<Rightarrow> u64 \<Rightarrow> log list \<Rightarrow> u64 \<Rightarrow>
   (('w, 'z) setst_scheme, unit) task" where
  "store_chunk env cfg config cid logs till =
     (case decode_settlement_logs env config logs of
        None \<Rightarrow> task_panic
      | Some decoded \<Rightarrow>
          task_bind (if decoded = [] then task_return ()
                     else task_bind (block_times env cfg (log_blocks decoded)) (\<lambda>ts.
                          store_entries env config cid (map (stamp ts) decoded))) (\<lambda>_.
          task_bind (task_map_err (\<lambda>e. ''persist settlement checkpoint '' @ u64_str till @ '': '' @ e)
              (set_settlement_checkpoint env cid (source_key env config) till)) (\<lambda>_.
          task_bind (task_modify (\<lambda>s. s\<lparr>f_next_block := Some (till + 1)\<rparr>)) (\<lambda>_.
          on_settlements (\<lambda>y. y\<lparr>ss_last_block := Some till\<rparr>)))))"

text \<open>The loop over the chunks; the block to read next is kept across polls.\<close>

partial_function (option) store_from ::
  "('w, 'e) sysenv_scheme \<Rightarrow> chain_config \<Rightarrow> settlement_config \<Rightarrow> u64 \<Rightarrow> u64 \<Rightarrow> ('w, 'z) setst_scheme \<Rightarrow>
   (unit res \<times> ('w, 'z) setst_scheme) option" where
  "store_from env cfg config cid target s =
     (if target < the (f_next_block s) then Some (Inr (), s)
      else task_bind (fetch_filtered_logs_chunk env cfg (settlement_filter env config)
               (the (f_next_block s)) target) (\<lambda>logs_end.
           task_bind (store_chunk env cfg config cid (fst logs_end) (snd logs_end)) (\<lambda>_ s1.
             store_from env cfg config cid target s1)) s)"

definition start_block ::
  "('w, 'e) sysenv_scheme \<Rightarrow> settlement_config \<Rightarrow> u64 \<Rightarrow> (('w, 'z) setst_scheme, u64) task" where
  "start_block env config cid s =
     (case f_next_block s of
        Some b \<Rightarrow> Some (Inr b, s)
      | None \<Rightarrow>
          task_bind (task_map_err (\<lambda>e. ''load settlement checkpoint: '' @ e)
              (get_settlement_checkpoint env cid (source_key env config))) (\<lambda>checkpoint.
          task_return (case checkpoint of
              None \<Rightarrow> sc_from_block config
            | Some block \<Rightarrow> max (sat_add block 1) (sc_from_block config))) s)"

definition sync_once ::
  "('w, 'e) sysenv_scheme \<Rightarrow> chain_config \<Rightarrow> settlement_config \<Rightarrow> (('w, 'z) setst_scheme, nat) task" where
  "sync_once env cfg config =
     task_bind (chain_id env cfg) (\<lambda>cid.
     task_bind (start_block env config cid) (\<lambda>b.
     task_bind (task_modify (\<lambda>s. s\<lparr>f_next_block := Some b, f_stored := 0\<rparr>)) (\<lambda>_.
     task_bind (safe_head env cfg) (\<lambda>target.
     task_bind (store_from env cfg config cid target) (\<lambda>_.
     task_bind (now_ms env) (\<lambda>now.
     task_bind (on_settlements (\<lambda>y. y\<lparr>ss_last_synced_at_ms := Some now\<rparr>)) (\<lambda>_ s.
     task_return (f_stored s) s)))))))"

section \<open>The summary\<close>

text \<open>One view call of the reward pool at a block, retried; the answer as decimal text.\<close>

definition read_view ::
  "('w, 'e) sysenv_scheme \<Rightarrow> chain_config \<Rightarrow> string \<Rightarrow> address \<Rightarrow> string \<Rightarrow> address list \<Rightarrow> u64 \<Rightarrow>
   (('w, 'z) net_scheme, string) task" where
  "read_view env cfg what pool name arguments block =
     task_bind (retry_rpc env what
         (task_bind (rpc_request cfg ''eth_call'' (e_call env)
              (pool, x_view_call env name arguments, Some block) (x_contract_error env)) (\<lambda>raw.
          task_of_res (x_uint_result env raw)))) (\<lambda>v.
     task_return (u256_str v))"

text \<open>
  The exits, as far as their claimable amounts were read when a read failed: the code writes them
  into the list it was given. A row whose addresses do not parse is passed over.
\<close>

fun read_claimable ::
  "('w, 'e) sysenv_scheme \<Rightarrow> chain_config \<Rightarrow> address \<Rightarrow> u64 \<Rightarrow> exit_totals list \<Rightarrow>
   (('w, 'z) net_scheme, exit_totals list \<times> unit res) task" where
  "read_claimable env cfg pool block [] s = Some (Inr ([], Inr ()), s)"
| "read_claimable env cfg pool block (x # xs) s =
     (case (x_addr_parse env (xt_exit_address x), x_addr_parse env (xt_fee_asset x)) of
        (Inr exit_address, Inr asset) \<Rightarrow>
          task_try (read_view env cfg ''claimableExit'' pool ''claimableExit'' [exit_address, asset] block) (\<lambda>r.
            case r of
              Inl e \<Rightarrow> task_return (x # xs, Inl e)
            | Inr v \<Rightarrow> task_bind (read_claimable env cfg pool block xs) (\<lambda>(ys, r').
                         task_return (x\<lparr>xt_claimable := Some v\<rparr> # ys, r'))) s
      | _ \<Rightarrow> task_bind (read_claimable env cfg pool block xs) (\<lambda>(ys, r'). task_return (x # ys, r')) s)"

definition read_asset ::
  "('w, 'e) sysenv_scheme \<Rightarrow> chain_config \<Rightarrow> address \<Rightarrow> u64 \<Rightarrow> string \<times> address \<Rightarrow>
   (('w, 'z) net_scheme, pool_asset_gauge) task" where
  "read_asset env cfg pool block p =
     (let view = (\<lambda>name. read_view env cfg name pool name [snd p] block)
      in task_bind (view ''totalCollected'') (\<lambda>collected.
         task_bind (view ''totalDistributed'') (\<lambda>distributed.
         task_bind (view ''networkOutstanding'') (\<lambda>network.
         task_bind (view ''exitOutstanding'') (\<lambda>exit_amount.
         task_return \<lparr>pg_asset = fst p, pg_total_collected = collected, pg_total_distributed = distributed,
           pg_network_outstanding = network, pg_exit_outstanding = exit_amount\<rparr>)))))"

definition gauge_assets :: "'x ext_scheme \<Rightarrow> exit_totals list \<Rightarrow> (string \<times> address) list" where
  "gauge_assets x exits =
     List.map_filter (\<lambda>t. case x_addr_parse x t of Inr a \<Rightarrow> Some (t, a) | Inl _ \<Rightarrow> None)
       (sorted_list_of_set (set (map xt_fee_asset exits)))"

definition read_pool_gauges ::
  "('w, 'e) sysenv_scheme \<Rightarrow> chain_config \<Rightarrow> address \<Rightarrow> u64 \<Rightarrow> exit_totals list \<Rightarrow>
   (('w, 'z) net_scheme, exit_totals list \<times> pool_asset_gauge list res) task" where
  "read_pool_gauges env cfg pool block exits =
     task_bind (read_claimable env cfg pool block exits) (\<lambda>(exits', r).
       case r of
         Inl e \<Rightarrow> task_return (exits', Inl e)
       | Inr _ \<Rightarrow> task_try (task_map (read_asset env cfg pool block) (gauge_assets env exits')) (\<lambda>g.
                    task_return (exits', g)))"

definition refresh_summary ::
  "('w, 'e) sysenv_scheme \<Rightarrow> chain_config \<Rightarrow> settlement_config \<Rightarrow> (('w, 'z) setst_scheme, unit) task" where
  "refresh_summary env cfg config =
     task_bind (chain_id env cfg) (\<lambda>cid.
     task_bind (task_map_err (\<lambda>e. ''load settlement totals: '' @ e)
         (paid_settlement_totals env cid (sc_entry_point config))) (\<lambda>settled.
     task_bind (case sc_reward_pool config of
           Some pool \<Rightarrow> task_map_err (\<lambda>e. ''load settlement totals: '' @ e) (exit_credit_claim_totals env cid pool)
         | None \<Rightarrow> task_return []) (\<lambda>claimed s.
       let exits = merge_totals settled claimed
       in task_bind (case (sc_reward_pool config, ss_last_block (a_settlements s)) of
              (Some pool, Some block) \<Rightarrow>
                task_bind (read_pool_gauges env cfg pool block exits) (\<lambda>(exits', g).
                task_return (exits', case g of Inl _ \<Rightarrow> None | Inr gauges \<Rightarrow> Some (gauges, block)))
            | _ \<Rightarrow> task_return (exits, None)) (\<lambda>(exits', gauges).
          on_settlements (\<lambda>y.
            let y1 = y\<lparr>ss_executions := sum_list (map xt_executions exits), ss_exits := exits'\<rparr>
            in case gauges of
                 None \<Rightarrow> y1
               | Some (g, block) \<Rightarrow> y1\<lparr>ss_pool := g, ss_pool_read_block := Some block\<rparr>)) s)))"

section \<open>The loop\<close>

text \<open>One poll, after the tick. True: the loop returns, the failed sync having met the shutdown.\<close>

definition note_outcome ::
  "('w, 'e) sysenv_scheme \<Rightarrow> nat res \<Rightarrow> (('w, 'z) setst_scheme, bool \<times> nat) task" where
  "note_outcome env outcome =
     (case outcome of
        Inr stored \<Rightarrow>
          task_bind (on_settlements (\<lambda>y. y\<lparr>ss_last_error := None\<rparr>)) (\<lambda>_. task_return (False, stored))
      | Inl e \<Rightarrow>
          task_bind (is_cancelled env) (\<lambda>stopping.
            if stopping then task_return (True, 0)
            else task_bind (on_settlements (\<lambda>y. y\<lparr>ss_last_error := Some e\<rparr>)) (\<lambda>_. task_return (False, 0))))"

definition summary_due :: "('w, 'e) sysenv_scheme \<Rightarrow> (('w, 'z) setst_scheme, bool) task" where
  "summary_due env s =
     (case f_last_summary s of
        None \<Rightarrow> Some (Inr True, s)
      | Some t \<Rightarrow> task_bind (instant_now env) (\<lambda>now. task_return (gauge_refresh \<le> now - t)) s)"

definition settlement_poll ::
  "('w, 'e) sysenv_scheme \<Rightarrow> chain_config \<Rightarrow> settlement_config \<Rightarrow> (('w, 'z) setst_scheme, bool) task" where
  "settlement_poll env cfg config =
     task_try (sync_once env cfg config) (\<lambda>outcome.
     task_bind (note_outcome env outcome) (\<lambda>(stopping, stored).
       if stopping then task_return True
       else task_bind (summary_due env) (\<lambda>due.
         if 0 < stored \<or> due
         then task_try (refresh_summary env cfg config) (\<lambda>r.
                case r of
                  Inr _ \<Rightarrow> task_bind (instant_now env) (\<lambda>now.
                    task_bind (task_modify (\<lambda>s. s\<lparr>f_last_summary := Some now\<rparr>)) (\<lambda>_. task_return False))
                | Inl e \<Rightarrow> task_bind (on_settlements (\<lambda>y. y\<lparr>ss_last_error := Some e\<rparr>)) (\<lambda>_. task_return False))
         else task_return False)))"

section \<open>What a step keeps\<close>

definition entry_stored :: "u64 \<Rightarrow> tables \<Rightarrow> settlement_log \<Rightarrow> bool" where
  "entry_stored cid t e =
     (case e of
        Settled p \<Rightarrow> map_of (t_settlements t) (i64_of_u64 cid, ps_tx_hash p, i64_of_u64 (ps_log_index p)) \<noteq> None
      | Claimed c \<Rightarrow> map_of (t_claims t) (i64_of_u64 cid, xc_tx_hash c, i64_of_u64 (xc_log_index c)) \<noteq> None)"

text \<open>No stored settlement is removed, and the settlement checkpoints are the same.\<close>

definition rows_kept :: "tables \<Rightarrow> tables \<Rightarrow> bool" where
  "rows_kept t t' \<longleftrightarrow>
     dom (map_of (t_settlements t)) \<subseteq> dom (map_of (t_settlements t')) \<and>
     dom (map_of (t_claims t)) \<subseteq> dom (map_of (t_claims t'))"

definition rows_only :: "tables \<Rightarrow> tables \<Rightarrow> bool" where
  "rows_only t t' \<longleftrightarrow> rows_kept t t' \<and> t_settlement_checkpoints t' = t_settlement_checkpoints t"

lemma rows_kept_refl [simp]: "rows_kept t t"
  and rows_kept_trans: "rows_kept t t1 \<Longrightarrow> rows_kept t1 t2 \<Longrightarrow> rows_kept t t2"
  unfolding rows_kept_def by (simp, meson subset_trans)

lemma rows_only_refl [simp]: "rows_only t t"
  by (simp add: rows_only_def)

lemma rows_only_trans: "rows_only t t1 \<Longrightarrow> rows_only t1 t2 \<Longrightarrow> rows_only t t2"
  using rows_kept_trans by (auto simp: rows_only_def)

lemma rows_only_reflp [simp]: "reflp rows_only" and rows_only_transp [simp]: "transp rows_only"
  by (auto simp: rows_only_def reflp_def transp_def dest: rows_kept_trans)

lemma stored_kept: "entry_stored cid t e \<Longrightarrow> rows_kept t t' \<Longrightarrow> entry_stored cid t' e"
  by (auto simp: entry_stored_def rows_kept_def split: settlement_log.splits)

lemma stored_stamp [simp]: "entry_stored cid t (stamp ts e) = entry_stored cid t e"
  by (cases e) (simp_all add: entry_stored_def stamp_def set_timestamp_def)

lemma stamp_claimed: "stamp ts e = Claimed c \<Longrightarrow> \<exists>c'. e = Claimed c'"
  by (cases e) (simp_all add: stamp_def set_timestamp_def)

lemma insert_rows:
  "insert_settlement_row x cid ep p t = Inr (new, t') \<Longrightarrow> rows_only t t' \<and> entry_stored cid t' (Settled p)"
  "insert_claim_row x cid pool c t = Inr (new, t') \<Longrightarrow> rows_only t t' \<and> entry_stored cid t' (Claimed c)"
  by (auto simp: insert_settlement_row_def insert_claim_row_def rows_only_def rows_kept_def entry_stored_def
      Let_def update_conv' split: sum.splits option.splits if_splits)

text \<open>Besides, the variables of the loop and the chain id stay as they are.\<close>

definition settle_kept :: "chain_config \<Rightarrow> ('w, 'z) setst_scheme \<Rightarrow> ('w, 'z) setst_scheme \<Rightarrow> bool" where
  "settle_kept cfg s s' \<longleftrightarrow>
     (net_ok cfg s \<longrightarrow> net_ok cfg s') \<and> n_chain_id s' = n_chain_id s \<and>
     f_next_block s' = f_next_block s \<and> rows_only (d_tables s) (d_tables s')"

lemma settle_kept_refl [simp]: "reflp (settle_kept cfg)" and settle_kept_trans [simp]: "transp (settle_kept cfg)"
  by (auto simp: settle_kept_def reflp_def transp_def dest: rows_only_trans)

lemma setst_more:
  fixes s s' :: "('w, 'z) setst_scheme"
  assumes "net.more s' = net.more s"
  shows "f_next_block s' = f_next_block s" and "d_tables s' = d_tables s"
    and "f_last_summary s' = f_last_summary s"
  using assms by (cases s; cases s'; simp)+

lemma kept_quiet: "quiet cfg s s' \<Longrightarrow> settle_kept cfg s s'"
  using setst_more [of s' s] by (auto simp: settle_kept_def quiet_def frame_def)

lemma kept_tables: "on_tables rows_only s s' \<Longrightarrow> settle_kept cfg s s'"
  by (auto simp: settle_kept_def on_tables_def db_only_def net_ok_def)

lemma tables_store_entry: "keeps (on_tables rows_only) (store_entry env config cid e)"
proof -
  have "keeps (on_tables rows_only) (run_sql env n (insert_settlement_row env cid ep p))" for n ep p
    using insert_rows(1) rows_only_reflp by (blast intro: run_sql_keeps)
  moreover have "keeps (on_tables rows_only) (run_sql env n (insert_claim_row env cid ep p))" for n ep p
    using insert_rows(2) rows_only_reflp by (blast intro: run_sql_keeps)
  ultimately show ?thesis
    unfolding store_entry_def insert_paid_settlement_def insert_exit_credit_claim_def
    by (auto split: settlement_log.split option.split intro!: keeps_map_err keeps_pure on_tables_refl)
qed

lemma kept_statements:
  "keeps (settle_kept cfg) (run_sql env name (query f))" "keeps (settle_kept cfg) (now_ms env)"
  "keeps (settle_kept cfg) (store_entry env config cid e)"
proof -
  show "keeps (settle_kept cfg) (run_sql env name (query f))"
    by (rule keeps_weaken [OF query_keeps [OF rows_only_reflp] kept_tables])
  show "keeps (settle_kept cfg) (now_ms env)"
    by (rule keeps_weaken [OF now_ms_keeps [OF rows_only_reflp] kept_tables])
  show "keeps (settle_kept cfg) (store_entry env config cid e)"
    by (rule keeps_weaken [OF tables_store_entry kept_tables])
qed

lemmas kept_bind = keeps_bind [OF settle_kept_trans]
lemmas kept_try = keeps_try [OF settle_kept_trans]
lemmas kept_pure = keeps_pure [OF settle_kept_refl]

lemma kept_modify:
  "keeps (settle_kept cfg) (task_modify (\<lambda>s. s\<lparr>f_stored := g s\<rparr>))"
  "keeps (settle_kept cfg) (task_modify (\<lambda>s. s\<lparr>f_last_summary := h s\<rparr>))"
  "keeps (settle_kept cfg) (on_settlements f)"
  unfolding on_settlements_def
  by (auto intro!: keepsI simp: task_modify_def settle_kept_def net_ok_def)

lemma kept_block_times: "keeps (settle_kept cfg) (block_times env cfg bs)"
proof -
  have "keeps (quiet cfg) (block_times env cfg bs)"
    unfolding block_times_def retry_rpc_def retry_rpc_attempts_def
    by (intro keeps_task_map quiet_trans quiet_refl quiet_bind quiet_pure
        retry_rpc_from_keeps [OF quiet_trans view_calls_quiet(12) backoff_pause_quiet quiet_refl])
  then show ?thesis by (rule keeps_weaken) (rule kept_quiet)
qed

section \<open>Every block up to the checkpoint is indexed\<close>

text \<open>The block lies in a chunk a trusted endpoint gave, and every settlement log of it is stored.\<close>

definition block_indexed ::
  "('w, 'e) sysenv_scheme \<Rightarrow> settlement_config \<Rightarrow> u64 \<Rightarrow> tables \<Rightarrow> u64 \<Rightarrow> bool" where
  "block_indexed env config cid t b \<longleftrightarrow>
     (\<exists>lo to logs till es. lo \<le> b \<and> b \<le> till \<and>
        logs_trusted env (settlement_filter env config) lo to logs till \<and>
        decode_settlement_logs env config logs = Some es \<and> (\<forall>e \<in> set es. entry_stored cid t e))"

definition indexed_below ::
  "('w, 'e) sysenv_scheme \<Rightarrow> settlement_config \<Rightarrow> u64 \<Rightarrow> tables \<Rightarrow> u64 \<Rightarrow> bool" where
  "indexed_below env config cid t n \<longleftrightarrow>
     (\<forall>b. sc_from_block config \<le> b \<longrightarrow> b < n \<longrightarrow> block_indexed env config cid t b)"

definition stored_checkpoint :: "'x ext_scheme \<Rightarrow> settlement_config \<Rightarrow> u64 \<Rightarrow> tables \<Rightarrow> u64 option" where
  "stored_checkpoint x config cid t =
     (case map_of (t_settlement_checkpoints t) (i64_of_u64 cid, source_key x config) of
        None \<Rightarrow> None | Some (v, _) \<Rightarrow> u64_of_i64 v)"

definition settled_inv ::
  "('w, 'e) sysenv_scheme \<Rightarrow> chain_config \<Rightarrow> settlement_config \<Rightarrow> u64 \<Rightarrow> ('w, 'z) setst_scheme \<Rightarrow> bool" where
  "settled_inv env cfg config cid s \<longleftrightarrow>
     net_ok cfg s \<and> n_chain_id s \<in> {0, cid} \<and>
     (\<forall>n. f_next_block s = Some n \<longrightarrow> indexed_below env config cid (d_tables s) n) \<and>
     (\<forall>c b. stored_checkpoint env config cid (d_tables s) = Some c \<longrightarrow> sc_from_block config \<le> b \<longrightarrow> b \<le> c \<longrightarrow>
        block_indexed env config cid (d_tables s) b)"

lemma block_indexed_kept: "block_indexed env config cid t b \<Longrightarrow> rows_kept t t' \<Longrightarrow> block_indexed env config cid t' b"
  unfolding block_indexed_def using stored_kept by blast

lemma indexed_below_kept: "indexed_below env config cid t n \<Longrightarrow> rows_kept t t' \<Longrightarrow> indexed_below env config cid t' n"
  unfolding indexed_below_def using block_indexed_kept by blast

lemma checkpoint_kept: "rows_only t t' \<Longrightarrow> stored_checkpoint x config cid t' = stored_checkpoint x config cid t"
  by (simp add: stored_checkpoint_def rows_only_def)

lemma settled_inv_kept:
  assumes "settled_inv env cfg config cid s" and "settle_kept cfg s s'"
  shows "settled_inv env cfg config cid s'"
proof -
  have k: "rows_kept (d_tables s) (d_tables s')" and r: "rows_only (d_tables s) (d_tables s')"
    using assms(2) by (auto simp: settle_kept_def rows_only_def)
  have "net_ok cfg s'" and "n_chain_id s' \<in> {0, cid}" and f: "f_next_block s' = f_next_block s"
    using assms by (auto simp: settled_inv_def settle_kept_def)
  moreover have "indexed_below env config cid (d_tables s') n" if "f_next_block s' = Some n" for n
    using that assms(1) by (intro indexed_below_kept [OF _ k]) (simp add: f settled_inv_def)
  moreover have "block_indexed env config cid (d_tables s') b"
    if "stored_checkpoint env config cid (d_tables s') = Some c" and "sc_from_block config \<le> b" and "b \<le> c" for c b
    using that assms(1) unfolding checkpoint_kept [OF r] settled_inv_def
    by (intro block_indexed_kept [OF _ k]) blast
  ultimately show ?thesis unfolding settled_inv_def by blast
qed

text \<open>The loop over the entries stores each of them, or stops with an error.\<close>

lemma store_entry_Inr:
  assumes "store_entry env config cid e s = Some (Inr new, s')"
    and "\<And>c. e = Claimed c \<Longrightarrow> sc_reward_pool config \<noteq> None"
  shows "entry_stored cid (d_tables s') e"
proof (cases e)
  case (Settled p)
  with assms(1) show ?thesis
    by (auto simp: store_entry_def insert_paid_settlement_def run_sql_Inr_iff dest!: insert_rows(1))
next
  case (Claimed c)
  with assms obtain pool where "sc_reward_pool config = Some pool" by blast
  with assms(1) Claimed show ?thesis
    by (auto simp: store_entry_def insert_exit_credit_claim_def run_sql_Inr_iff dest!: insert_rows(2))
qed

lemma kept_store_entries: "keeps (settle_kept cfg) (store_entries env config cid es)"
  unfolding store_entries_def
proof (induction es)
  case Nil
  show ?case by (rule keepsI) (auto simp: reflpD [OF settle_kept_refl])
next
  case (Cons e es)
  let ?f = "\<lambda>e. task_bind (store_entry env config cid e) (\<lambda>inserted.
      if inserted then task_modify (\<lambda>s. s\<lparr>f_stored := f_stored s + 1\<rparr>) else task_return ())"
  have "task_each ?f (e # es) = task_bind (?f e) (\<lambda>_. task_each ?f es)" by (rule ext) simp
  moreover have "keeps (settle_kept cfg) (?f e)"
    by (intro kept_bind kept_statements keeps_cases kept_modify kept_pure)
  ultimately show ?case using kept_bind [OF _ Cons] by simp
qed

lemma store_entries_Inr:
  fixes s s' :: "('w, 'z) setst_scheme"
  assumes "store_entries env config cid es s = Some (Inr (), s')"
    and "\<And>c. Claimed c \<in> set es \<Longrightarrow> sc_reward_pool config \<noteq> None"
  shows "\<forall>e \<in> set es. entry_stored cid (d_tables s') e"
  using assms
proof (induction es arbitrary: s)
  case (Cons e es)
  from Cons.prems(1) obtain new and s1 :: "('w, 'z) setst_scheme" where
    one: "store_entry env config cid e s = Some (Inr new, s1)"
    and rest: "store_entries env config cid es (if new then s1\<lparr>f_stored := f_stored s1 + 1\<rparr> else s1) = Some (Inr (), s')"
    by (auto simp: store_entries_def task_bind_Inr_iff task_modify_def split: if_splits)
  let ?s2 = "if new then s1\<lparr>f_stored := f_stored s1 + 1\<rparr> else s1"
  have s2: "d_tables ?s2 = d_tables s1" by simp
  have "entry_stored cid (d_tables s1) e"
    by (rule store_entry_Inr [OF one]) (use Cons.prems(2) in auto)
  moreover have "rows_kept (d_tables ?s2) (d_tables s')"
    using keepsD [OF kept_store_entries rest] by (simp add: settle_kept_def rows_only_def)
  ultimately have "entry_stored cid (d_tables s') e" using stored_kept s2 by metis
  moreover have "\<forall>e \<in> set es. entry_stored cid (d_tables s') e"
    by (rule Cons.IH [OF rest]) (use Cons.prems(2) in auto)
  ultimately show ?case by simp
qed simp

lemma decoded_claims_have_pool:
  "decode_settlement_logs x config logs = Some es \<Longrightarrow> Claimed c \<in> set es \<Longrightarrow> sc_reward_pool config \<noteq> None"
proof (induction logs arbitrary: es)
  case (Cons lg lgs)
  have "sc_reward_pool config \<noteq> None" if "decode_settlement_log x config lg = Some (Some (Claimed c))"
    using that by (auto simp: decode_settlement_log_def decode_settled_def Let_def
        split: if_splits list.splits option.splits dest: sym)
  with Cons show ?case by (auto split: option.splits)
qed simp

lemma i64_saturates_below:
  assumes "u64_of_i64 (i64_of_u64 x) = Some c"
  shows "c \<le> x"
proof (cases "uint x \<le> i64_max")
  case True
  with assms u64_of_i64_of_u64 [OF True] show ?thesis by simp
next
  case False
  with assms have "c = word_of_int i64_max" by (simp add: i64_of_u64_def u64_of_i64_def i64_max_def)
  then have "uint c = i64_max" by (simp add: i64_max_def)
  with False show ?thesis by (simp add: word_le_def)
qed

lemma set_checkpoint_cases:
  fixes s s' :: "('w, 'z) dbst_scheme"
  assumes "set_settlement_checkpoint env cid source b s = Some (r, s')"
  shows "db_only s s' \<and> (d_tables s' = d_tables s \<or> (\<exists>now. d_tables s' = (d_tables s)\<lparr>t_settlement_checkpoints :=
    AList.update (i64_of_u64 cid, source) (i64_of_u64 b, now) (t_settlement_checkpoints (d_tables s))\<rparr>))"
proof -
  obtain now w1 where n: "e_now_ms env (n_world s) = (now, w1)" by (cases "e_now_ms env (n_world s)")
  obtain v w where d: "e_db env ''set_settlement_checkpoint'' w1 = (v, w)"
    by (cases "e_db env ''set_settlement_checkpoint'' w1")
  let ?t = "(d_tables s)\<lparr>t_settlement_checkpoints :=
    AList.update (i64_of_u64 cid, source) (i64_of_u64 b, now) (t_settlement_checkpoints (d_tables s))\<rparr>"
  from assms n d have "s' = s\<lparr>n_world := w, d_tables := d_tables s'\<rparr> \<and> d_tables s' \<in> {d_tables s, ?t}"
    by (cases v) (auto simp: set_settlement_checkpoint_def task_bind_def now_ms_def run_sql_def split: if_splits)
  then show ?thesis unfolding db_only_def by blast
qed

text \<open>After the entries of a chunk are stored, the blocks up to its end are indexed.\<close>

lemma chunk_indexed:
  assumes "logs_trusted env (settlement_filter env config) lo to logs till"
    and "decode_settlement_logs env config logs = Some es" and "\<forall>e \<in> set es. entry_stored cid t e"
    and "indexed_below env config cid t lo" and "sc_from_block config \<le> b" and "b \<le> till"
  shows "block_indexed env config cid t b"
proof (cases "b < lo")
  case True
  with assms(4,5) show ?thesis by (simp add: indexed_below_def)
next
  case False
  with assms(1-3,6) show ?thesis unfolding block_indexed_def not_less by blast
qed

lemma checkpoint_inv:
  fixes s s' :: "('w, 'z) setst_scheme"
  assumes inv: "settled_inv env cfg config cid s"
    and run: "set_settlement_checkpoint env cid (source_key env config) till s = Some (r, s')"
    and all: "\<And>b. sc_from_block config \<le> b \<Longrightarrow> b \<le> till \<Longrightarrow> block_indexed env config cid (d_tables s) b"
  shows "settled_inv env cfg config cid s'" and "f_next_block s' = f_next_block s"
    and "n_chain_id s' = n_chain_id s" and "rows_kept (d_tables s) (d_tables s')"
proof -
  from set_checkpoint_cases [OF run] have db: "db_only s s'" and t: "d_tables s' = d_tables s \<or>
      (\<exists>now. d_tables s' = (d_tables s)\<lparr>t_settlement_checkpoints := AList.update (i64_of_u64 cid, source_key env config)
         (i64_of_u64 till, now) (t_settlement_checkpoints (d_tables s))\<rparr>)" by blast+
  from t show k: "rows_kept (d_tables s) (d_tables s')" by (auto simp: rows_kept_def)
  from db show f: "f_next_block s' = f_next_block s" and c: "n_chain_id s' = n_chain_id s" by (auto simp: db_only_def)
  have net: "net_ok cfg s'" using inv db by (auto simp: settled_inv_def db_only_def net_ok_def)
  have "block_indexed env config cid (d_tables s') b"
    if sc: "stored_checkpoint env config cid (d_tables s') = Some c" and b: "sc_from_block config \<le> b" "b \<le> c" for c b
  proof (cases "d_tables s' = d_tables s")
    case True
    with sc b inv show ?thesis by (simp add: settled_inv_def)
  next
    case False
    with t sc have "u64_of_i64 (i64_of_u64 till) = Some c" by (auto simp: stored_checkpoint_def update_conv')
    then have "b \<le> till" using b(2) i64_saturates_below by (meson order_trans)
    with all b(1) show ?thesis by (blast intro: block_indexed_kept [OF _ k])
  qed
  with inv net f c show "settled_inv env cfg config cid s'"
    unfolding settled_inv_def using indexed_below_kept [OF _ k] by auto
qed

lemma store_chunk_inv:
  fixes s s' :: "('w, 'z) setst_scheme"
  assumes inv: "settled_inv env cfg config cid s" and lo: "f_next_block s = Some lo"
    and trusted: "logs_trusted env (settlement_filter env config) lo to logs till"
    and run: "store_chunk env cfg config cid logs till s = Some (r, s')"
  shows "settled_inv env cfg config cid s' \<and> n_chain_id s' = n_chain_id s \<and>
    f_next_block s' = (case r of Inr _ \<Rightarrow> Some (till + 1) | Inl _ \<Rightarrow> Some lo)"
proof -
  from run obtain es where es: "decode_settlement_logs env config logs = Some es"
    by (auto simp: store_chunk_def task_panic_def split: option.splits)
  let ?store = "(if es = [] then task_return ()
       else task_bind (block_times env cfg (log_blocks es)) (\<lambda>ts.
            store_entries env config cid (map (stamp ts) es))) :: (('w, 'z) setst_scheme, unit) task"
  from run es obtain r1 and s1 :: "('w, 'z) setst_scheme" where store: "?store s = Some (r1, s1)"
    by (cases "?store s") (auto simp: store_chunk_def task_bind_def)
  have "keeps (settle_kept cfg) ?store"
    by (intro keeps_cases kept_bind kept_block_times kept_store_entries kept_pure)
  from keepsD [OF this store] have kept: "settle_kept cfg s s1" .
  note inv1 = settled_inv_kept [OF inv kept]
  have f1: "f_next_block s1 = Some lo" and c1: "n_chain_id s1 = n_chain_id s" using kept lo by (auto simp: settle_kept_def)
  show ?thesis
  proof (cases r1)
    case (Inl e)
    with run es store have "r = Inl e" and "s' = s1" by (auto simp: store_chunk_def task_bind_def)
    with inv1 f1 c1 show ?thesis by simp
  next
    case (Inr u)
    have stored: "\<forall>e \<in> set es. entry_stored cid (d_tables s1) e"
    proof (cases "es = []")
      case False
      with store Inr obtain ts and s0 :: "('w, 'z) setst_scheme" where
        st: "store_entries env config cid (map (stamp ts) es) s0 = Some (Inr (), s1)"
        by (auto simp: task_bind_Inr_iff)
      have pool: "sc_reward_pool config \<noteq> None" if "Claimed c \<in> set (map (stamp ts) es)" for c
      proof -
        from that obtain e where "e \<in> set es" and "stamp ts e = Claimed c" by auto
        with stamp_claimed have "\<exists>c'. Claimed c' \<in> set es" by metis
        with decoded_claims_have_pool [OF es] show ?thesis by blast
      qed
      from store_entries_Inr [OF st pool] show ?thesis by simp
    qed simp
    have below: "indexed_below env config cid (d_tables s1) lo" using inv1 f1 by (simp add: settled_inv_def)
    note all = chunk_indexed [OF trusted es stored below]
    obtain r2 and s2 :: "('w, 'z) setst_scheme" where
      cp: "set_settlement_checkpoint env cid (source_key env config) till s1 = Some (r2, s2)"
      using run es store Inr by (auto simp: store_chunk_def task_bind_def task_map_err_def split: option.splits prod.splits)
    note cpi = checkpoint_inv [OF inv1 cp all]
    show ?thesis
    proof (cases r2)
      case (Inl e)
      with run es store Inr cp have "\<exists>m. r = Inl m" and "s' = s2"
        by (auto simp: store_chunk_def task_bind_def task_map_err_def)
      with cpi f1 c1 show ?thesis by auto
    next
      case r2: (Inr v)
      from run es store Inr cp r2 have r: "r = Inr ()"
        and s': "s' = s2\<lparr>f_next_block := Some (till + 1),
          a_settlements := (a_settlements s2)\<lparr>ss_last_block := Some till\<rparr>\<rparr>"
        by (auto simp: store_chunk_def task_bind_def task_map_err_def task_modify_def on_settlements_def)
      have "indexed_below env config cid (d_tables s2) (till + 1)"
        unfolding indexed_below_def
      proof (intro allI impI)
        fix b
        assume b: "sc_from_block config \<le> b" "b < till + 1"
        then have "b \<le> till" by (cases "till = - 1") (simp_all add: word_less_nat_alt word_le_nat_alt unat_next)
        with b(1) all show "block_indexed env config cid (d_tables s2) b"
          by (blast intro: block_indexed_kept [OF _ cpi(4)])
      qed
      with cpi(1,3) c1 show ?thesis by (simp add: r s' settled_inv_def net_ok_def)
    qed
  qed
qed

lemma store_from_inv:
  fixes env :: "('w, 'e) sysenv_scheme" and s s' :: "('w, 'z) setst_scheme"
  assumes "store_from env cfg config cid target s = Some (r, s')"
    and "settled_inv env cfg config cid s" and "f_next_block s \<noteq> None"
  shows "settled_inv env cfg config cid s'"
proof -
  have "settled_inv env cfg config cid s \<longrightarrow> f_next_block s \<noteq> None \<longrightarrow> settled_inv env cfg config cid (snd (r, s'))"
  proof (rule store_from.raw_induct [where P =
        "\<lambda>(env :: ('w, 'e) sysenv_scheme) cfg config cid target (s :: ('w, 'z) setst_scheme) q.
           settled_inv env cfg config cid s \<longrightarrow> f_next_block s \<noteq> None \<longrightarrow> settled_inv env cfg config cid (snd q)",
        OF _ assms(1)], intro impI)
    fix f and env :: "('w, 'e) sysenv_scheme" and cfg config cid target and s :: "('w, 'z) setst_scheme"
      and q :: "unit res \<times> ('w, 'z) setst_scheme"
    assume IH: "\<And>env cfg config cid target s q. f env cfg config cid target s = Some q \<Longrightarrow>
        settled_inv env cfg config cid s \<longrightarrow> f_next_block s \<noteq> None \<longrightarrow> settled_inv env cfg config cid (snd q)"
      and run: "(if target < the (f_next_block s) then Some (Inr (), s)
        else task_bind (fetch_filtered_logs_chunk env cfg (settlement_filter env config)
               (the (f_next_block s)) target) (\<lambda>logs_end.
             task_bind (store_chunk env cfg config cid (fst logs_end) (snd logs_end)) (\<lambda>_ s1.
               f env cfg config cid target s1)) s) = Some q"
      and inv: "settled_inv env cfg config cid s" and some: "f_next_block s \<noteq> None"
    from some obtain lo where lo: "f_next_block s = Some lo" by blast
    show "settled_inv env cfg config cid (snd q)"
    proof (cases "target < lo")
      case True
      with run lo inv show ?thesis by auto
    next
      case False
      have net: "net_ok cfg s" using inv by (simp add: settled_inv_def)
      from False have "lo \<le> target" by simp
      from fetch_chunk_returns [OF net this, of env "settlement_filter env config"] obtain fr and s1 :: "('w, 'z) setst_scheme"
        where fch: "fetch_filtered_logs_chunk env cfg (settlement_filter env config) lo target s = Some (fr, s1)"
          and ok: "fetch_result_ok env cfg (settlement_filter env config) lo target s fr s1" by blast
      have inv1: "settled_inv env cfg config cid s1" and lo1: "f_next_block s1 = Some lo"
        using ok inv setst_more [of s1 s] lo by (auto simp: fetch_result_ok_def frame_def settled_inv_def)
      show ?thesis
      proof (cases fr)
        case (Inl e)
        with run lo False fch inv1 show ?thesis by (auto simp: task_bind_def)
      next
        case (Inr p)
        obtain logs till where p: "p = (logs, till)" by (cases p)
        from ok Inr p have tr: "logs_trusted env (settlement_filter env config) lo target logs till"
          by (simp add: fetch_result_ok_def)
        from run lo False fch Inr p obtain r2 and s2 :: "('w, 'z) setst_scheme" where
          ch: "store_chunk env cfg config cid logs till s1 = Some (r2, s2)"
          by (auto simp: task_bind_def split: option.splits prod.splits)
        note res = store_chunk_inv [OF inv1 lo1 tr ch]
        show ?thesis
        proof (cases r2)
          case (Inl e)
          with run lo False fch \<open>fr = Inr p\<close> p ch res show ?thesis by (auto simp: task_bind_def)
        next
          case r2: (Inr u)
          with run lo False fch \<open>fr = Inr p\<close> p ch have "f env cfg config cid target s2 = Some q"
            by (auto simp: task_bind_def)
          from IH [OF this] res r2 show ?thesis by simp
        qed
      qed
    qed
  qed
  with assms(2,3) show ?thesis by simp
qed

lemma chain_id_inv:
  fixes s s' :: "('w, 'z) setst_scheme"
  assumes "chain_id env cfg s = Some (r, s')" and "settled_inv env cfg config cid s"
    and "cc_expected_chain_id cfg = Some cid"
  shows "settled_inv env cfg config cid s' \<and> (\<forall>i. r = Inr i \<longrightarrow> i = cid) \<and> f_next_block s' = f_next_block s"
  using chain_id_spec [OF assms(1)] assms(2,3) setst_more [of s' s]
  by (cases r) (auto simp: frame_def settled_inv_def)

lemma start_block_Inr:
  fixes s s' :: "('w, 'z) setst_scheme"
  assumes "start_block env config cid s = Some (r, s')" and inv: "settled_inv env cfg config cid s"
  shows "settled_inv env cfg config cid s' \<and> (\<forall>b. r = Inr b \<longrightarrow> indexed_below env config cid (d_tables s') b)"
proof (cases "f_next_block s")
  case (Some b)
  with assms show ?thesis by (auto simp: start_block_def settled_inv_def)
next
  case None
  let ?get = "get_settlement_checkpoint env cid (source_key env config) :: (('w, 'z) setst_scheme, u64 option) task"
  from assms(1) None obtain r1 where g: "?get s = Some (r1, s')"
    by (auto simp: start_block_def task_bind_def task_map_err_def split: option.splits prod.splits sum.splits)
  have "keeps (settle_kept cfg) ?get"
    unfolding get_settlement_checkpoint_def by (intro kept_bind kept_statements kept_pure)
  from settled_inv_kept [OF inv keepsD [OF this g]] have inv': "settled_inv env cfg config cid s'" .
  moreover have "indexed_below env config cid (d_tables s') b" if "r = Inr b" for b
  proof -
    from that assms(1) None g obtain cp where cp: "r1 = Inr cp"
      and b: "b = (case cp of None \<Rightarrow> sc_from_block config | Some c \<Rightarrow> max (sat_add c 1) (sc_from_block config))"
      by (cases r1) (auto simp: start_block_def task_bind_def task_map_err_def)
    from g cp have "cp = stored_checkpoint env config cid (d_tables s')"
      by (auto simp: get_settlement_checkpoint_def task_bind_Inr_iff run_sql_Inr_iff stored_checkpoint_def)
    then have cov: "block_indexed env config cid (d_tables s') k"
      if "cp = Some c" and "sc_from_block config \<le> k" and "k \<le> c" for c k
    proof -
      from that(1) \<open>cp = stored_checkpoint env config cid (d_tables s')\<close>
      have "stored_checkpoint env config cid (d_tables s') = Some c" by simp
      with inv' that(2,3) show ?thesis unfolding settled_inv_def by blast
    qed
    have "k < sat_add c 1 \<Longrightarrow> k \<le> c" for k c :: u64
      by (simp add: word_less_nat_alt word_le_nat_alt unat_sat_add)
    with cov show ?thesis
      unfolding indexed_below_def b by (auto split: option.splits simp: max_def split: if_splits)
  qed
  ultimately show ?thesis by blast
qed

section \<open>The sync over its life\<close>

text \<open>What keeps the invariant, whether it succeeds or fails.\<close>

definition settles ::
  "('w, 'e) sysenv_scheme \<Rightarrow> chain_config \<Rightarrow> settlement_config \<Rightarrow> u64 \<Rightarrow> (('w, 'z) setst_scheme, 'a) task \<Rightarrow> bool" where
  "settles env cfg config cid m \<longleftrightarrow>
     keeps (\<lambda>s s'. settled_inv env cfg config cid s \<longrightarrow> settled_inv env cfg config cid s') m"

lemma settles_kept: "keeps (settle_kept cfg) m \<Longrightarrow> settles env cfg config cid m"
  unfolding settles_def by (erule keeps_weaken) (auto intro: settled_inv_kept)

lemma settles_bind:
  "settles env cfg config cid m \<Longrightarrow> (\<And>a. settles env cfg config cid (f a)) \<Longrightarrow> settles env cfg config cid (task_bind m f)"
  unfolding settles_def by (rule keeps_bind) (auto simp: transp_def)

lemma settles_try:
  "settles env cfg config cid m \<Longrightarrow> (\<And>r. settles env cfg config cid (f r)) \<Longrightarrow> settles env cfg config cid (task_try m f)"
  unfolding settles_def by (rule keeps_try) (auto simp: transp_def)

lemma settles_chain_id:
  "cc_expected_chain_id cfg = Some cid \<Longrightarrow> settles env cfg config cid (chain_id env cfg)"
  unfolding settles_def by (rule keepsI) (use chain_id_inv in blast)

lemma kept_views:
  "keeps (settle_kept cfg) (safe_head env cfg)" "keeps (settle_kept cfg) (instant_now env)"
  "keeps (settle_kept cfg) (is_cancelled env)"
proof -
  show "keeps (settle_kept cfg) (safe_head env cfg)"
    by (rule keeps_weaken [OF view_calls_quiet(2) kept_quiet])
  show "keeps (settle_kept cfg) (instant_now env)" "keeps (settle_kept cfg) (is_cancelled env)"
    by (rule keepsI; auto simp: instant_now_def is_cancelled_def settle_kept_def net_ok_def split: prod.splits)+
qed

lemma kept_map_err: "keeps (settle_kept cfg) m \<Longrightarrow> keeps (settle_kept cfg) (task_map_err f m)"
  by (rule keeps_map_err)

lemma read_view_quiet: "keeps (quiet cfg) (read_view env cfg what pool name arguments n)"
  unfolding read_view_def retry_rpc_def retry_rpc_attempts_def
  by (intro quiet_bind quiet_pure retry_rpc_from_keeps [OF quiet_trans _ backoff_pause_quiet quiet_refl]
      rpc_request_quiet)

lemma claimable_quiet: "keeps (quiet cfg) (read_claimable env cfg pool n xs :: (('w, 'z) net_scheme, _) task)"
proof (induction xs)
  case Nil
  show ?case by (rule keepsI) (auto simp: reflpD [OF quiet_refl])
next
  case (Cons x xs)
  let ?skip = "task_bind (read_claimable env cfg pool n xs) (\<lambda>(ys, r'). task_return (x # ys, r'))
      :: (('w, 'z) net_scheme, _) task"
  let ?read = "\<lambda>a b. task_try (read_view env cfg ''claimableExit'' pool ''claimableExit'' [a, b] n) (\<lambda>r.
            case r of
              Inl e \<Rightarrow> task_return (x # xs, Inl e)
            | Inr v \<Rightarrow> task_bind (read_claimable env cfg pool n xs) (\<lambda>(ys, r').
                         task_return (x\<lparr>xt_claimable := Some v\<rparr> # ys, r')))
      :: (('w, 'z) net_scheme, _) task"
  have "keeps (quiet cfg) ?skip" and "keeps (quiet cfg) (?read a b)" for a b
    by (intro quiet_bind keeps_try [OF quiet_trans] read_view_quiet quiet_pure keeps_cases Cons)+
  moreover have "read_claimable env cfg pool n (x # xs) =
      (case (x_addr_parse env (xt_exit_address x), x_addr_parse env (xt_fee_asset x)) of
        (Inr a, Inr b) \<Rightarrow> ?read a b | _ \<Rightarrow> ?skip)"
    by (rule ext) (simp split: sum.split)
  ultimately show ?case by (simp split: sum.split)
qed

lemma gauges_quiet: "keeps (quiet cfg) (read_pool_gauges env cfg pool n xs)"
proof -
  have "keeps (quiet cfg) (read_asset env cfg pool n p)" for p
    unfolding read_asset_def Let_def by (intro quiet_bind read_view_quiet quiet_pure)
  then show ?thesis
    unfolding read_pool_gauges_def
    by (intro quiet_bind claimable_quiet keeps_cases quiet_pure keeps_try [OF quiet_trans] keeps_task_map quiet_trans quiet_refl)
qed

lemma kept_gauges: "keeps (settle_kept cfg) (read_pool_gauges env cfg pool n xs :: (('w, 'z) setst_scheme, _) task)"
  by (rule keeps_weaken [OF gauges_quiet kept_quiet])

lemma kept_state: "(\<And>x. keeps (settle_kept cfg) (f x)) \<Longrightarrow> keeps (settle_kept cfg) (\<lambda>s. f s s)"
  by (auto simp: keeps_def)

lemma settles_refresh:
  assumes "cc_expected_chain_id cfg = Some cid"
  shows "settles env cfg config cid (refresh_summary env cfg config :: (('w, 'z) setst_scheme, unit) task)"
proof -
  let ?put = "\<lambda>exits (exits', gauges). on_settlements (\<lambda>y.
      let y1 = y\<lparr>ss_executions := sum_list (map xt_executions exits), ss_exits := exits'\<rparr>
      in case gauges of None \<Rightarrow> y1 | Some (g, n) \<Rightarrow> y1\<lparr>ss_pool := g, ss_pool_read_block := Some n\<rparr>)
      :: (('w, 'z) setst_scheme, unit) task"
  have gauges: "keeps (settle_kept cfg) (task_bind (case (sc_reward_pool config, n) of
        (Some pool, Some block) \<Rightarrow> task_bind (read_pool_gauges env cfg pool block exits) (\<lambda>(exits', g).
            task_return (exits', case g of Inl _ \<Rightarrow> None | Inr gauges \<Rightarrow> Some (gauges, block)))
      | _ \<Rightarrow> task_return (exits, None)) (?put exits))" for exits n
    by (intro kept_bind keeps_cases kept_gauges kept_pure kept_modify)
  have body: "keeps (settle_kept cfg) (\<lambda>s :: ('w, 'z) setst_scheme. let exits = merge_totals settled claimed
      in task_bind (case (sc_reward_pool config, ss_last_block (a_settlements s)) of
        (Some pool, Some block) \<Rightarrow> task_bind (read_pool_gauges env cfg pool block exits) (\<lambda>(exits', g).
            task_return (exits', case g of Inl _ \<Rightarrow> None | Inr gauges \<Rightarrow> Some (gauges, block)))
      | _ \<Rightarrow> task_return (exits, None)) (?put exits) s)" for settled claimed
    using gauges unfolding Let_def keeps_def by blast
  show ?thesis
    unfolding refresh_summary_def paid_settlement_totals_def exit_credit_claim_totals_def
    by (rule settles_bind [OF settles_chain_id [OF assms]], rule settles_kept)
      (intro kept_bind kept_map_err kept_statements kept_pure keeps_cases body)
qed

lemma settles_sync:
  fixes env :: "('w, 'e) sysenv_scheme"
  assumes exp: "cc_expected_chain_id cfg = Some cid"
  shows "settles env cfg config cid (sync_once env cfg config :: (('w, 'z) setst_scheme, nat) task)"
  unfolding settles_def
proof (rule keepsI, intro impI)
  fix s s' :: "('w, 'z) setst_scheme" and r :: "nat res"
  assume run: "sync_once env cfg config s = Some (r, s')" and inv: "settled_inv env cfg config cid s"
  from run obtain r1 and s1 :: "('w, 'z) setst_scheme" where c: "chain_id env cfg s = Some (r1, s1)"
    by (auto simp: sync_once_def task_bind_def split: option.splits prod.splits)
  note inv1 = chain_id_inv [OF c inv exp]
  show "settled_inv env cfg config cid s'"
  proof (cases r1)
    case (Inl e)
    with run c inv1 show ?thesis by (auto simp: sync_once_def task_bind_def)
  next
    case (Inr i)
    with inv1 have i: "i = cid" by simp
    from run c Inr i obtain r2 and s2 :: "('w, 'z) setst_scheme" where b: "start_block env config cid s1 = Some (r2, s2)"
      by (auto simp: sync_once_def task_bind_def split: option.splits prod.splits)
    from start_block_Inr [OF b] inv1 have inv2: "settled_inv env cfg config cid s2"
      and below: "r2 = Inr n \<Longrightarrow> indexed_below env config cid (d_tables s2) n" for n by blast+
    show ?thesis
    proof (cases r2)
      case (Inl e)
      with run c \<open>r1 = Inr i\<close> i b inv2 show ?thesis by (auto simp: sync_once_def task_bind_def)
    next
      case n: (Inr n)
      let ?s = "s2\<lparr>f_next_block := Some n, f_stored := 0\<rparr>"
      have inv3: "settled_inv env cfg config cid ?s" using inv2 below [OF n] by (simp add: settled_inv_def net_ok_def)
      obtain h and s3 :: "('w, 'z) setst_scheme" where h: "safe_head env cfg ?s = Some (h, s3)"
        using safe_head_Some by blast
      have k3: "settle_kept cfg ?s s3" by (rule keepsD [OF kept_views(1) h])
      note inv4 = settled_inv_kept [OF inv3 k3]
      have f3: "f_next_block s3 \<noteq> None" using k3 by (simp add: settle_kept_def)
      show ?thesis
      proof (cases h)
        case (Inl e)
        with run c \<open>r1 = Inr i\<close> i b n h inv4 show ?thesis
          by (auto simp: sync_once_def task_bind_def task_modify_def)
      next
        case (Inr target)
        with run c \<open>r1 = Inr i\<close> i b n h obtain r4 and s4 :: "('w, 'z) setst_scheme" where
          st: "store_from env cfg config cid target s3 = Some (r4, s4)"
          by (auto simp: sync_once_def task_bind_def task_modify_def split: option.splits prod.splits)
        have inv5: "settled_inv env cfg config cid s4" by (rule store_from_inv [OF st inv4 f3])
        let ?fin = "task_bind (now_ms env) (\<lambda>now.
            task_bind (on_settlements (\<lambda>y. y\<lparr>ss_last_synced_at_ms := Some now\<rparr>)) (\<lambda>_ s. task_return (f_stored s) s))
            :: (('w, 'z) setst_scheme, nat) task"
        have "keeps (settle_kept cfg) (\<lambda>s :: ('w, 'z) setst_scheme. task_return (f_stored s) s)"
          by (rule kept_state [of cfg "\<lambda>s. task_return (f_stored s)"]) (rule kept_pure)
        then have "keeps (settle_kept cfg) ?fin" by (intro kept_bind kept_statements kept_modify)
        note fin = settles_kept [OF this, of env config cid, unfolded settles_def]
        show ?thesis
        proof (cases r4)
          case e: (Inl e)
          from run c \<open>r1 = Inr i\<close> i b n h Inr st e have "s' = s4"
            by (simp add: sync_once_def task_bind_def task_modify_def)
          with inv5 show ?thesis by simp
        next
          case u: (Inr u)
          from run c \<open>r1 = Inr i\<close> i b n h Inr st u have "?fin s4 = Some (r, s')"
            by (simp add: sync_once_def task_bind_def task_modify_def)
          from keepsD [OF fin this] inv5 show ?thesis by blast
        qed
      qed
    qed
  qed
qed

lemma kept_note_outcome: "keeps (settle_kept cfg) (note_outcome env outcome)"
  unfolding note_outcome_def by (intro keeps_cases kept_bind kept_modify kept_pure kept_views)

lemma kept_summary_due:
  fixes env :: "('w, 'e) sysenv_scheme"
  shows "keeps (settle_kept cfg) (summary_due env :: (('w, 'z) setst_scheme, bool) task)"
proof -
  have "keeps (settle_kept cfg) (task_bind (instant_now env) (\<lambda>now. task_return (gauge_refresh \<le> now - t))
      :: (('w, 'z) setst_scheme, bool) task)" for t
    by (intro kept_bind kept_views kept_pure)
  then show ?thesis
    using reflpD [OF settle_kept_refl, of cfg] by (auto simp: summary_due_def keeps_def split: option.split_asm)
qed

lemmas settles_pure = kept_pure [THEN settles_kept]

lemma settles_if:
  "settles env cfg config cid m \<Longrightarrow> settles env cfg config cid n \<Longrightarrow> settles env cfg config cid (if b then m else n)"
  by simp

lemma settles_poll:
  fixes env :: "('w, 'e) sysenv_scheme"
  assumes "cc_expected_chain_id cfg = Some cid"
  shows "settles env cfg config cid (settlement_poll env cfg config :: (('w, 'z) setst_scheme, bool) task)"
proof -
  have fin: "settles env cfg config cid ((case r of
        Inr _ \<Rightarrow> task_bind (instant_now env) (\<lambda>now.
          task_bind (task_modify (\<lambda>s. s\<lparr>f_last_summary := Some now\<rparr>)) (\<lambda>_. task_return False))
      | Inl e \<Rightarrow> task_bind (on_settlements (\<lambda>y. y\<lparr>ss_last_error := Some e\<rparr>)) (\<lambda>_. task_return False))
      :: (('w, 'z) setst_scheme, bool) task)" for r :: "unit res"
    by (rule settles_kept) (intro keeps_cases kept_bind kept_views kept_modify kept_pure)
  have rest: "settles env cfg config cid ((case p of (stopping, stored) \<Rightarrow>
       if stopping then task_return True
       else task_bind (summary_due env) (\<lambda>due.
         if 0 < stored \<or> due
         then task_try (refresh_summary env cfg config) (\<lambda>r.
                case r of
                  Inr _ \<Rightarrow> task_bind (instant_now env) (\<lambda>now.
                    task_bind (task_modify (\<lambda>s. s\<lparr>f_last_summary := Some now\<rparr>)) (\<lambda>_. task_return False))
                | Inl e \<Rightarrow> task_bind (on_settlements (\<lambda>y. y\<lparr>ss_last_error := Some e\<rparr>)) (\<lambda>_. task_return False))
         else task_return False)) :: (('w, 'z) setst_scheme, bool) task)" for p :: "bool \<times> nat"
    by (cases p) (simp only: prod.case,
      intro settles_if settles_pure settles_bind settles_kept [OF kept_summary_due] settles_try settles_refresh assms fin)
  show ?thesis
    unfolding settlement_poll_def
    by (intro settles_try settles_sync assms settles_bind settles_kept [OF kept_note_outcome] rest)
qed

text \<open>
  The life of the sync: its polls, the other tasks of the process, which leave its tables and its
  variables alone and share the client (the chain id they may cache is the expected one), and a new
  process over the same database, which knows nothing but the tables.
\<close>

inductive settlement_step ::
  "('w, 'e) sysenv_scheme \<Rightarrow> chain_config \<Rightarrow> settlement_config \<Rightarrow> u64 \<Rightarrow>
   ('w, 'z) setst_scheme \<Rightarrow> ('w, 'z) setst_scheme \<Rightarrow> bool"
  for env :: "('w, 'e) sysenv_scheme" and cfg config cid where
  poll_step: "settlement_poll env cfg config s = Some (r, s') \<Longrightarrow> settlement_step env cfg config cid s s'"
| elsewhere_step: "net_ok cfg s' \<Longrightarrow> n_chain_id s' \<in> {n_chain_id s, cid} \<Longrightarrow> f_next_block s' = f_next_block s \<Longrightarrow>
    rows_only (d_tables s) (d_tables s') \<Longrightarrow> settlement_step env cfg config cid s s'"
| restart_step: "net_ok cfg s' \<Longrightarrow> n_chain_id s' = 0 \<Longrightarrow> f_next_block s' = None \<Longrightarrow> d_tables s' = d_tables s \<Longrightarrow>
    settlement_step env cfg config cid s s'"

lemma settlement_step_inv:
  fixes env :: "('w, 'e) sysenv_scheme" and s s' :: "('w, 'z) setst_scheme"
  assumes "settlement_step env cfg config cid s s'" and inv: "settled_inv env cfg config cid s"
    and exp: "cc_expected_chain_id cfg = Some cid"
  shows "settled_inv env cfg config cid s'"
  using assms(1)
proof (cases rule: settlement_step.cases)
  case (poll_step r)
  from keepsD [OF settles_poll [OF exp, unfolded settles_def] poll_step] inv show ?thesis by blast
next
  case elsewhere_step
  let ?s = "s'\<lparr>n_chain_id := n_chain_id s\<rparr>"
  have "settle_kept cfg s ?s" using elsewhere_step by (simp add: settle_kept_def net_ok_def)
  from settled_inv_kept [OF inv this] elsewhere_step(2) inv show ?thesis
    by (auto simp: settled_inv_def net_ok_def)
next
  case restart_step
  with inv show ?thesis by (simp add: settled_inv_def)
qed

lemma settlement_life_inv:
  fixes env :: "('w, 'e) sysenv_scheme" and s s' :: "('w, 'z) setst_scheme"
  assumes "(settlement_step env cfg config cid)\<^sup>*\<^sup>* s s'" and "settled_inv env cfg config cid s"
    and "cc_expected_chain_id cfg = Some cid"
  shows "settled_inv env cfg config cid s'"
  using assms by (induction rule: rtranclp_induct) (auto intro: settlement_step_inv)

text \<open>
  C4: no settlement is skipped. Over any life of the sync (polls that succeed or fail anywhere, other
  tasks, restarts of the process), when the database holds a checkpoint for these contracts, every
  block from the configured first one up to the checkpoint was read in a chunk of logs that one endpoint
  served whole and whose head check that endpoint passed, and each settlement and each claim among
  those logs has its row.
\<close>

theorem settlement_never_skips:
  fixes env :: "('w, 'e) sysenv_scheme" and s0 s :: "('w, 'z) setst_scheme"
  assumes "cc_expected_chain_id cfg = Some cid" and "net_ok cfg s0" and "n_chain_id s0 = 0"
    and "f_next_block s0 = None" and "stored_checkpoint env config cid (d_tables s0) = None"
    and "(settlement_step env cfg config cid)\<^sup>*\<^sup>* s0 s"
    and "stored_checkpoint env config cid (d_tables s) = Some c"
    and "sc_from_block config \<le> b" and "b \<le> c"
  shows "\<exists>lo to logs till es. lo \<le> b \<and> b \<le> till \<and>
    logs_trusted env (settlement_filter env config) lo to logs till \<and>
    decode_settlement_logs env config logs = Some es \<and>
    (\<forall>p. Settled p \<in> set es \<longrightarrow> map_of (t_settlements (d_tables s))
       (i64_of_u64 cid, ps_tx_hash p, i64_of_u64 (ps_log_index p)) \<noteq> None) \<and>
    (\<forall>q. Claimed q \<in> set es \<longrightarrow> map_of (t_claims (d_tables s))
       (i64_of_u64 cid, xc_tx_hash q, i64_of_u64 (xc_log_index q)) \<noteq> None)"
proof -
  have "settled_inv env cfg config cid s0" using assms(2-5) by (simp add: settled_inv_def)
  from settlement_life_inv [OF assms(6) this assms(1)] assms(7-9)
  have "block_indexed env config cid (d_tables s) b" unfolding settled_inv_def by blast
  then show ?thesis unfolding block_indexed_def entry_stored_def by fastforce
qed

definition demo_settle_cfg :: settlement_config where
  "demo_settle_cfg = \<lparr>sc_entry_point = 0xee, sc_reward_pool = None, sc_from_block = 900\<rparr>"

definition demo_settle :: "unit setst" where
  "demo_settle = app.extend demo_app (setst.fields None None 0)"

lemma demo_settle_sel [simp]:
  "n_chain_id demo_settle = 421614" "preferred (n_transport demo_settle) = 0" "d_tables demo_settle = empty_tables"
  "f_next_block demo_settle = None" "f_stored demo_settle = 0" "f_last_summary demo_settle = None"
  "n_chunk demo_settle = chunk_new 50000 500 1000000" "a_settlements demo_settle = default_settlement_status"
  by (simp_all add: demo_settle_def demo_app_defs setst.defs)

lemma demo_sys_served [simp]:
  "e_get_logs demo_sys q i w = (Served [], w)" "e_block_number demo_sys u i w = (Served 1000, w)"
  "e_chain_id demo_sys u i w = (Served 421614, w)"
  by (simp_all add: demo_sys_def demo_defs sysenv.defs)

lemma demo_fetch:
  fixes s :: "(unit, 'z) net_scheme"
  assumes "preferred (n_transport s) = 0" and "n_chunk s = chunk_new 50000 500 1000000"
  shows "\<exists>s'. fetch_filtered_logs_chunk demo_sys demo_cfg base 900 980 s = Some (Inr ([], 980), s')"
proof -
  have w: "window_end s 900 980 = 980"
    using assms(2) by (simp add: window_end_def chunk_new_def clamp_word_def sat_add_def sat_sub_def min_def)
  have "\<exists>s1. logs_served_by (n_transport s1) = 0 \<and> get_logs demo_sys demo_cfg base 900 980 s = Some (Inr [], s1)"
    using assms(1) by (simp add: get_logs_def rpc_request_def demo_cfg_def request_def Let_def upt_rec)
  then obtain s1 where z: "logs_served_by (n_transport s1) = 0"
    and l: "get_logs demo_sys demo_cfg base 900 980 s = Some (Inr [], s1)" by blast
  have "\<exists>s2. check_logs_endpoint_head demo_sys demo_cfg 980 980 s1 = Some (Inr (), s2)"
    using z by (simp add: check_logs_endpoint_head_def head_check_window_def Let_def block_number_on_def
        demo_cfg_def sat_sub_def)
  with l show ?thesis
    by (auto simp: fetch_filtered_logs_chunk_def fetch_from.simps w fetch_attempt_def task_bind_def task_try_def
        task_modify_def task_return_def)
qed

lemma demo_settle_ok: "net_ok demo_cfg demo_settle"
  using demo_cfg_ok by (simp add: net_ok_def demo_settle_def demo_app_defs setst.defs)

text \<open>One poll of a new process: blocks 900 to 980 hold no settlement, and 980 becomes the checkpoint.\<close>

lemma demo_settlement_poll:
  "\<exists>s'. settlement_poll demo_sys demo_cfg demo_settle_cfg (demo_settle\<lparr>n_chain_id := 0\<rparr>) = Some (Inr False, s') \<and>
     stored_checkpoint demo_sys demo_settle_cfg 421614 (d_tables s') = Some 980"
proof -
  let ?s = "demo_settle\<lparr>n_chain_id := 0\<rparr>"
  let ?f = "settlement_filter demo_sys demo_settle_cfg"
  have c: "chain_id demo_sys demo_cfg ?s = Some (Inr 421614, demo_settle)"
    by (simp add: chain_id_def as_u64_def demo_cfg_def [THEN arg_cong, of cc_expected_chain_id]
        task_bind_def task_modify_def task_return_def)
  let ?s1 = "demo_settle\<lparr>f_next_block := Some 900, f_stored := 0\<rparr>"
  have b: "start_block demo_sys demo_settle_cfg 421614 demo_settle = Some (Inr 900, demo_settle)"
    by (simp add: start_block_def get_settlement_checkpoint_def query_def empty_tables_def task_bind_def
        task_map_err_def task_return_def demo_settle_cfg_def)
  have h: "safe_head demo_sys demo_cfg ?s1 = Some (Inr 980, ?s1)"
    by (simp add: safe_head_def current_block_def task_bind_def task_return_def demo_cfg_def
        [THEN arg_cong, of cc_confirmations] sat_sub_def)
  have p1: "preferred (n_transport ?s1) = 0" "n_chunk ?s1 = chunk_new 50000 500 1000000" by simp_all
  obtain s2 :: "unit setst" where f: "fetch_filtered_logs_chunk demo_sys demo_cfg ?f 900 980 ?s1 = Some (Inr ([], 980), s2)"
    using demo_fetch [OF p1] by blast
  have ok1: "net_ok demo_cfg ?s1" using demo_settle_ok by (simp add: net_ok_def)
  from fetch_chunk_returns [OF ok1, of 900 980 demo_sys ?f] f
  have "net.more s2 = net.more ?s1" and cid: "n_chain_id s2 = 421614"
    by (auto simp: fetch_result_ok_def frame_def)
  note same = setst_more [OF this(1)] app_more_served [OF this(1)]
  let ?t = "(d_tables s2)\<lparr>t_settlement_checkpoints := [((421614, source_key demo_sys demo_settle_cfg), (980, 1700000000000))]\<rparr>"
  let ?s3 = "s2\<lparr>d_tables := ?t, f_next_block := Some 981, a_settlements := (a_settlements s2)\<lparr>ss_last_block := Some 980\<rparr>\<rparr>"
  have t2: "d_tables s2 = empty_tables" using same by simp
  have st: "store_chunk demo_sys demo_cfg demo_settle_cfg 421614 [] 980 s2 = Some (Inr (), ?s3)"
    by (simp add: store_chunk_def set_settlement_checkpoint_def task_bind_def task_return_def task_modify_def
        task_map_err_def on_settlements_def t2 empty_tables_def i64_of_u64_def i64_max_def)
  have done3: "store_from demo_sys demo_cfg demo_settle_cfg 421614 980 ?s3 = Some (Inr (), ?s3)"
    by (subst store_from.simps) simp
  have "store_from demo_sys demo_cfg demo_settle_cfg 421614 980 ?s1 = Some (Inr (), ?s3)"
    by (subst store_from.simps) (simp add: f st done3 task_bind_def del: task_bind_return)
  then have once: "sync_once demo_sys demo_cfg demo_settle_cfg ?s = Some (Inr (f_stored s2),
      ?s3\<lparr>a_settlements := (a_settlements ?s3)\<lparr>ss_last_synced_at_ms := Some 1700000000000\<rparr>\<rparr>)"
    using c b h by (simp add: sync_once_def task_bind_def task_modify_def task_return_def on_settlements_def)
  have "chain_id demo_sys demo_cfg s = Some (Inr 421614, s)" if "n_chain_id s = 421614" for s :: "unit setst"
    using that by (simp add: chain_id_def)
  with once cid t2 same show ?thesis
    by (simp add: settlement_poll_def task_try_def note_outcome_def summary_due_def refresh_summary_def
        task_bind_def task_return_def task_modify_def on_settlements_def instant_now_def
        paid_settlement_totals_def query_def settlement_totals_def settlement_rows_of_def merge_totals_def
        task_map_err_def demo_settle_cfg_def Let_def stored_checkpoint_def u64_of_i64_def empty_tables_def
        i64_of_u64_def i64_max_def)
qed

theorem settlement_never_skips_witness:
  "\<exists>s lo to logs till es. stored_checkpoint demo_sys demo_settle_cfg 421614 (d_tables (s :: unit setst)) = Some 980 \<and>
     lo \<le> 950 \<and> 950 \<le> till \<and> logs_trusted demo_sys (settlement_filter demo_sys demo_settle_cfg) lo to logs till \<and>
     decode_settlement_logs demo_sys demo_settle_cfg logs = Some es"
proof -
  let ?s = "demo_settle\<lparr>n_chain_id := 0\<rparr>"
  obtain s' where run: "settlement_poll demo_sys demo_cfg demo_settle_cfg ?s = Some (Inr False, s')"
    and cp: "stored_checkpoint demo_sys demo_settle_cfg 421614 (d_tables s') = Some 980"
    using demo_settlement_poll by blast
  have steps: "(settlement_step demo_sys demo_cfg demo_settle_cfg 421614)\<^sup>*\<^sup>* ?s s'"
    by (rule r_into_rtranclp) (rule poll_step [OF run])
  have e: "cc_expected_chain_id demo_cfg = Some 421614" by (simp add: demo_cfg_def)
  have ok: "net_ok demo_cfg ?s" using demo_settle_ok by (simp add: net_ok_def)
  have z: "n_chain_id ?s = 0" "f_next_block ?s = None"
    "stored_checkpoint demo_sys demo_settle_cfg 421614 (d_tables ?s) = None"
    by (simp_all add: stored_checkpoint_def empty_tables_def)
  have r: "sc_from_block demo_settle_cfg \<le> 950" "(950 :: u64) \<le> 980" by (simp_all add: demo_settle_cfg_def)
  from settlement_never_skips [OF e ok z steps cp r] cp show ?thesis by blast
qed

section \<open>Storing again stores nothing\<close>

text \<open>The key a log is stored under: one of the settlements, or one of the claims. A claim is not
  stored where no reward pool is configured.\<close>

definition entry_key :: "settlement_config \<Rightarrow> u64 \<Rightarrow> settlement_log \<Rightarrow> (log_key + log_key) set" where
  "entry_key config cid e =
     (case e of
        Settled p \<Rightarrow> {Inl (settlement_key cid p)}
      | Claimed c \<Rightarrow> (if sc_reward_pool config = None then {} else {Inr (claim_key cid c)}))"

definition entry_keys :: "settlement_config \<Rightarrow> u64 \<Rightarrow> settlement_log list \<Rightarrow> (log_key + log_key) set" where
  "entry_keys config cid es = (\<Union>e \<in> set es. entry_key config cid e)"

definition stored_keys :: "tables \<Rightarrow> (log_key + log_key) set" where
  "stored_keys t = dom (map_of (t_settlements t)) <+> dom (map_of (t_claims t))"

lemma stored_keys_other:
  "insert_settlement_row x cid ep p t = Inr (new, t') \<Longrightarrow> t_claims t' = t_claims t"
  "insert_claim_row x cid pool c t = Inr (new, t') \<Longrightarrow> t_settlements t' = t_settlements t"
  by (auto simp: insert_settlement_row_def insert_claim_row_def Let_def split: sum.splits option.splits)

lemma store_entry_keys:
  assumes "store_entry env config cid e s = Some (Inr new, s')"
  shows "stored_keys (d_tables s') = entry_key config cid e \<union> stored_keys (d_tables s)"
    and "new \<longleftrightarrow> \<not> entry_key config cid e \<subseteq> stored_keys (d_tables s)"
proof -
  have "stored_keys (d_tables s') = entry_key config cid e \<union> stored_keys (d_tables s) \<and>
      (new \<longleftrightarrow> \<not> entry_key config cid e \<subseteq> stored_keys (d_tables s))"
  proof (cases e)
    case (Settled p)
    with assms have run: "run_sql env ''insert_paid_settlement''
        (insert_settlement_row env cid (sc_entry_point config) p) s = Some (Inr new, s')"
      by (simp add: store_entry_def insert_paid_settlement_def)
    then have "t_claims (d_tables s') = t_claims (d_tables s)"
      by (auto simp: run_sql_Inr_iff dest: stored_keys_other(1))
    with paid.stored [OF run] show ?thesis by (auto simp: stored_keys_def entry_key_def Settled)
  next
    case (Claimed c)
    show ?thesis
    proof (cases "sc_reward_pool config")
      case None
      with assms Claimed show ?thesis by (auto simp: store_entry_def entry_key_def task_return_def)
    next
      case (Some pool)
      with assms Claimed have run: "run_sql env ''insert_exit_credit_claim''
          (insert_claim_row env cid pool c) s = Some (Inr new, s')"
        by (simp add: store_entry_def insert_exit_credit_claim_def)
      then have "t_settlements (d_tables s') = t_settlements (d_tables s)"
        by (auto simp: run_sql_Inr_iff dest: stored_keys_other(2))
      with claims.stored [OF run] show ?thesis by (auto simp: stored_keys_def entry_key_def Claimed Some)
    qed
  qed
  then show "stored_keys (d_tables s') = entry_key config cid e \<union> stored_keys (d_tables s)"
    and "new \<longleftrightarrow> \<not> entry_key config cid e \<subseteq> stored_keys (d_tables s)" by blast+
qed

lemma map_err_Some:
  assumes "task_map_err f m s = Some (r, s')"
  obtains r0 where "m s = Some (r0, s')" and "r0 = Inr a \<longleftrightarrow> r = Inr a"
proof -
  have "\<exists>r0. m s = Some (r0, s') \<and> (r0 = Inr a \<longleftrightarrow> r = Inr a)"
    using assms by (auto simp: task_map_err_def split: option.splits sum.splits prod.splits)
  then show thesis using that by blast
qed

lemma store_entry_again:
  assumes "store_entry env config cid e s = Some (r, s')"
    and "entry_key config cid e \<subseteq> stored_keys (d_tables s)"
  shows "d_tables s' = d_tables s \<and> r \<noteq> Inr True"
proof (cases e)
  case (Settled p)
  from assms(1) [unfolded Settled store_entry_def insert_paid_settlement_def settlement_log.case]
  obtain r0 where
    "run_sql env ''insert_paid_settlement'' (insert_settlement_row env cid (sc_entry_point config) p) s = Some (r0, s')"
    and "r0 = Inr True \<longleftrightarrow> r = Inr True"
    by (rule map_err_Some)
  moreover have "settlement_key cid p \<in> dom (map_of (t_settlements (d_tables s)))"
    using assms(2) by (auto simp: entry_key_def stored_keys_def Settled)
  ultimately show ?thesis using paid.again by metis
next
  case (Claimed c)
  show ?thesis
  proof (cases "sc_reward_pool config")
    case None
    with assms(1) Claimed show ?thesis by (auto simp: store_entry_def task_return_def)
  next
    case (Some pool)
    from assms(1) [unfolded Claimed Some store_entry_def insert_exit_credit_claim_def
        settlement_log.case option.case]
    obtain r0 where
      "run_sql env ''insert_exit_credit_claim'' (insert_claim_row env cid pool c) s = Some (r0, s')"
      and "r0 = Inr True \<longleftrightarrow> r = Inr True"
      by (rule map_err_Some)
    moreover have "claim_key cid c \<in> dom (map_of (t_claims (d_tables s)))"
      using assms(2) by (auto simp: entry_key_def stored_keys_def Claimed Some)
    ultimately show ?thesis using claims.again by metis
  qed
qed

lemma store_entry_count:
  fixes s s' :: "('w, 'z) setst_scheme"
  assumes "store_entry env config cid e s = Some (r, s')"
  shows "f_stored s' = f_stored s"
  using keepsD [OF tables_store_entry assms] by (auto simp: on_tables_def db_only_def)

lemma store_entries_keys:
  fixes s s' :: "('w, 'z) setst_scheme"
  assumes "store_entries env config cid es s = Some (Inr u, s')"
  shows "stored_keys (d_tables s') = entry_keys config cid es \<union> stored_keys (d_tables s) \<and>
    f_stored s' = f_stored s + card (entry_keys config cid es - stored_keys (d_tables s))"
  using assms
proof (induction es arbitrary: s)
  case (Cons e es)
  from Cons.prems obtain new and s1 :: "('w, 'z) setst_scheme" where
    one: "store_entry env config cid e s = Some (Inr new, s1)"
    and rest: "store_entries env config cid es (if new then s1\<lparr>f_stored := f_stored s1 + 1\<rparr> else s1) = Some (Inr u, s')"
    by (auto simp: store_entries_def task_bind_Inr_iff task_modify_def split: if_splits)
  let ?K = "entry_keys config cid es" and ?k = "entry_key config cid e" and ?T = "stored_keys (d_tables s)"
  have d: "d_tables (if new then s1\<lparr>f_stored := f_stored s1 + 1\<rparr> else s1) = d_tables s1" by simp
  have f: "f_stored (if new then s1\<lparr>f_stored := f_stored s1 + 1\<rparr> else s1) = f_stored s + (if new then 1 else 0)"
    using store_entry_count [OF one] by simp
  note k = store_entry_keys [OF one]
  note IH = Cons.IH [OF rest, unfolded d f k(1)]
  have all: "entry_keys config cid (e # es) = ?k \<union> ?K" by (simp add: entry_keys_def)
  have fin: "finite ?K" by (auto simp: entry_keys_def entry_key_def split: settlement_log.split)
  have "card ((?k \<union> ?K) - ?T) = (if new then 1 else 0) + card (?K - (?k \<union> ?T))"
  proof (cases new)
    case True
    with k(2) obtain x where x: "?k = {x}" "x \<notin> ?T"
      by (cases e) (auto simp: entry_key_def split: if_splits)
    then have "(?k \<union> ?K) - ?T = insert x (?K - (?k \<union> ?T))" by auto
    with x(1) fin show ?thesis using True by simp
  next
    case False
    with k(2) have "(?k \<union> ?K) - ?T = ?K - (?k \<union> ?T)" by auto
    with False show ?thesis by simp
  qed
  with IH show ?case unfolding all by auto
qed (simp add: entry_keys_def store_entries_def)

lemma store_entries_again:
  fixes s s' :: "('w, 'z) setst_scheme"
  assumes "store_entries env config cid es s = Some (r, s')"
    and "entry_keys config cid es \<subseteq> stored_keys (d_tables s)"
  shows "d_tables s' = d_tables s \<and> f_stored s' = f_stored s"
  using assms
proof (induction es arbitrary: s)
  case (Cons e es)
  have here: "entry_key config cid e \<subseteq> stored_keys (d_tables s)"
    and there: "entry_keys config cid es \<subseteq> stored_keys (d_tables s)"
    using Cons.prems(2) by (auto simp: entry_keys_def)
  obtain r1 and s1 :: "('w, 'z) setst_scheme" where one: "store_entry env config cid e s = Some (r1, s1)"
    using Cons.prems(1) by (auto simp: store_entries_def task_bind_def split: option.splits)
  note known = store_entry_again [OF one here] and count = store_entry_count [OF one]
  show ?case
  proof (cases r1)
    case (Inl err)
    with Cons.prems(1) one known count show ?thesis by (auto simp: store_entries_def task_bind_def)
  next
    case (Inr new)
    with known have "\<not> new" by auto
    with Cons.prems(1) one Inr have "store_entries env config cid es s1 = Some (r, s')"
      by (simp add: store_entries_def task_bind_def task_return_def)
    with Cons.IH [of s1] known count there show ?thesis by simp
  qed
qed (simp add: store_entries_def)

lemma keys_kept: "rows_kept t t' \<Longrightarrow> stored_keys t \<subseteq> stored_keys t'"
  by (auto simp: rows_kept_def stored_keys_def)

text \<open>
  C33: indexing settlement logs again is harmless. Storing decoded settlements and claims counts each
  log once, however often it is in the list, if it was not there; afterwards the logs stored are those
  and the ones before. Whatever else is stored in between, storing any of them again, in any order
  and as often as one likes, changes no table and counts none, also where a statement fails.
\<close>

theorem settlement_replay_stores_nothing:
  fixes s s1 s2 s3 :: "('w, 'z) setst_scheme"
  assumes "store_entries env config cid es s = Some (Inr u, s1)"
    and "rows_kept (d_tables s1) (d_tables s2)"
    and "entry_keys config cid again \<subseteq> entry_keys config cid es"
    and "store_entries env config cid again s2 = Some (r, s3)"
  shows "stored_keys (d_tables s1) = entry_keys config cid es \<union> stored_keys (d_tables s) \<and>
    f_stored s1 = f_stored s + card (entry_keys config cid es - stored_keys (d_tables s)) \<and>
    d_tables s3 = d_tables s2 \<and> f_stored s3 = f_stored s2"
proof -
  note first = store_entries_keys [OF assms(1)]
  have "entry_keys config cid again \<subseteq> stored_keys (d_tables s2)"
    using assms(3) first keys_kept [OF assms(2)] by blast
  from store_entries_again [OF assms(4) this] first show ?thesis by blast
qed

definition demo_claim :: exit_credit_claim where
  "demo_claim =
     \<lparr>xc_tx_hash = ''0x36'', xc_log_index = 4, xc_block_number = 950, xc_block_timestamp = 6,
      xc_exit_address = ''0xe1'', xc_recipient = ''0xe2'', xc_asset = ''0xa1'', xc_amount = ''40''\<rparr>"

theorem settlement_replay_stores_nothing_witness:
  "\<exists>s1 s3. store_entries demo_sys (demo_settle_cfg\<lparr>sc_reward_pool := Some 0xcc\<rparr>) 421614
       [Settled demo_settlement, Claimed demo_claim] demo_settle = Some (Inr (), s1) \<and> f_stored s1 = 2 \<and>
     store_entries demo_sys (demo_settle_cfg\<lparr>sc_reward_pool := Some 0xcc\<rparr>) 421614
       [Claimed demo_claim, Settled demo_settlement, Claimed demo_claim] s1 = Some (Inr (), s3) \<and>
     f_stored s3 = 2 \<and> d_tables s3 = d_tables s1"
proof -
  let ?config = "demo_settle_cfg\<lparr>sc_reward_pool := Some 0xcc\<rparr>"
  let ?es = "[Settled demo_settlement, Claimed demo_claim]"
  let ?again = "[Claimed demo_claim, Settled demo_settlement, Claimed demo_claim]"
  note run = store_entries_def store_entry_def insert_paid_settlement_def insert_exit_credit_claim_def
    insert_settlement_row_def insert_claim_row_def demo_settlement_def demo_claim_def task_bind_def
    task_map_err_def task_modify_def task_return_def Let_def
  obtain s1 where s1: "store_entries demo_sys ?config 421614 ?es demo_settle = Some (Inr (), s1)"
    by (simp add: run empty_tables_def)
  have same: "entry_keys ?config 421614 ?again \<subseteq> entry_keys ?config 421614 ?es"
    by (auto simp: entry_keys_def)
  have none: "entry_keys ?config 421614 ?es - stored_keys (d_tables demo_settle) =
      {Inl (settlement_key 421614 demo_settlement), Inr (claim_key 421614 demo_claim)}"
    by (auto simp: entry_keys_def entry_key_def stored_keys_def empty_tables_def)
  obtain s3 where s3: "store_entries demo_sys ?config 421614 ?again s1 = Some (Inr (), s3)"
    using s1 by (auto simp: run empty_tables_def)
  from settlement_replay_stores_nothing [OF s1 rows_kept_refl same s3] none s1 s3 show ?thesis by simp
qed


section \<open>A poll always comes back\<close>

text \<open>No endpoint gives a log whose index does not fit, which is the decoder's panic.\<close>

definition logs_decode :: "('w, 'e) sysenv_scheme \<Rightarrow> settlement_config \<Rightarrow> bool" where
  "logs_decode env config \<longleftrightarrow>
     (\<forall>i q logs. endpoint_gave (e_get_logs env) i q logs \<longrightarrow> decode_settlement_logs env config logs \<noteq> None)"

definition ids_fit :: "('w, 'e) sysenv_scheme \<Rightarrow> bool" where
  "ids_fit env \<longleftrightarrow> (\<forall>i n. endpoint_gave (e_chain_id env) i () n \<longrightarrow> as_u64 n \<noteq> None)"

lemma runs_chain_id:
  fixes env :: "('w, 'e) env_scheme"
  assumes "\<forall>i n. endpoint_gave (e_chain_id env) i () n \<longrightarrow> as_u64 n \<noteq> None"
  shows "runs cfg (chain_id env cfg :: (('w, 'z) net_scheme, u64) task)"
proof (rule runsI)
  fix s :: "('w, 'z) net_scheme"
  assume ok: "net_ok cfg s"
  let ?req = "rpc_request cfg ''eth_chainId'' (e_chain_id env) ()
      (\<lambda>e. ''Failed to get chain id: '' @ x_provider_error env e)"
  obtain r0 and s1 :: "('w, 'z) net_scheme" where req: "?req s = Some (r0, s1)"
    using rpc_request_Some [of cfg "''eth_chainId''" "e_chain_id env" "()"] by blast
  have "\<exists>r s'. chain_id env cfg s = Some (r, s')"
  proof (cases r0)
    case (Inl e)
    with req show ?thesis by (simp add: chain_id_def task_bind_def)
  next
    case (Inr n)
    from rpc_request_served [OF ok req [unfolded Inr]] assms obtain i where "as_u64 n = Some i" by blast
    with req Inr show ?thesis
      by (simp add: chain_id_def task_bind_def task_modify_def task_return_def task_fail_def split: option.split)
  qed
  then show "\<exists>r s'. chain_id env cfg s = Some (r, s') \<and> net_ok cfg s'"
    using chain_id_spec ok by (meson frame_net_ok)
qed

lemma runs_block_times: "runs cfg (block_times env cfg bs)"
  unfolding block_times_def by (intro runs_map runs_bind runs_retry runs_views runs_pure)

lemma runs_store_entry: "runs cfg (store_entry env config cid e :: (('w, 'z) dbst_scheme, bool) task)"
  unfolding store_entry_def insert_paid_settlement_def insert_exit_credit_claim_def
  by (auto split: settlement_log.split option.split intro!: runs_map_err runs_sql runs_pure)

lemma runs_each:
  fixes f :: "'x \<Rightarrow> (('w, 'z) net_scheme, unit) task"
  assumes "\<And>x. runs cfg (f x)"
  shows "runs cfg (task_each f xs)"
proof (induction xs)
  case Nil
  show ?case by (simp add: runs_def)
next
  case (Cons x xs)
  have "task_each f (x # xs) = task_bind (f x) (\<lambda>_. task_each f xs)" by (rule ext) simp
  then show ?case using Cons assms by (auto intro!: runs_bind)
qed

lemma runs_settings:
  "runs cfg (task_modify (\<lambda>s :: ('w, 'z) setst_scheme. s\<lparr>f_stored := g s\<rparr>))"
  "runs cfg (task_modify (\<lambda>s :: ('w, 'z) setst_scheme. s\<lparr>f_next_block := nb\<rparr>))"
  "runs cfg (task_modify (\<lambda>s :: ('w, 'z) setst_scheme. s\<lparr>f_next_block := nb, f_stored := n\<rparr>))"
  "runs cfg (task_modify (\<lambda>s :: ('w, 'z) setst_scheme. s\<lparr>f_last_summary := t\<rparr>))"
  "runs cfg (on_settlements f :: (('w, 'z) app_scheme, unit) task)"
  unfolding on_settlements_def by (rule runs_modify; simp add: net_ok_def)+

lemma runs_set_checkpoint: "runs cfg (set_settlement_checkpoint env cid src n :: (('w, 'z) dbst_scheme, unit) task)"
  unfolding set_settlement_checkpoint_def by (intro runs_bind runs_now runs_sql)

lemma runs_store_chunk:
  fixes env :: "('w, 'e) sysenv_scheme"
  assumes "decode_settlement_logs env config logs \<noteq> None"
  shows "runs cfg (store_chunk env cfg config cid logs till :: (('w, 'z) setst_scheme, unit) task)"
proof -
  from assms obtain es where es: "decode_settlement_logs env config logs = Some es" by blast
  show ?thesis
    unfolding store_chunk_def es option.case store_entries_def
    by (intro runs_bind runs_cases runs_pure runs_block_times runs_each runs_store_entry runs_settings
        runs_map_err runs_set_checkpoint)
qed

lemma store_chunk_next:
  "store_chunk env cfg config cid logs till s = Some (Inr u, s') \<Longrightarrow> f_next_block s' = Some (till + 1)"
  by (auto simp: store_chunk_def task_panic_def task_bind_Inr_iff task_modify_def on_settlements_def
      split: option.splits)

lemma store_from_returns:
  fixes env :: "('w, 'e) sysenv_scheme" and s :: "('w, 'z) setst_scheme"
  assumes dec: "logs_decode env config" and top: "target \<noteq> - 1"
  shows "net_ok cfg s \<Longrightarrow> f_next_block s = Some lo \<Longrightarrow>
    \<exists>r s'. store_from env cfg config cid target s = Some (r, s') \<and> net_ok cfg s'"
proof (induction "unat target + 1 - unat lo" arbitrary: lo s rule: less_induct)
  case less
  show ?case
  proof (cases "target < lo")
    case True
    with less.prems show ?thesis by (subst store_from.simps) simp
  next
    case False
    then have le: "lo \<le> target" by simp
    let ?f = "settlement_filter env config"
    from fetch_chunk_returns [OF less.prems(1) le, of env ?f] obtain fr and s1 :: "('w, 'z) setst_scheme" where
      f: "fetch_filtered_logs_chunk env cfg ?f lo target s = Some (fr, s1)"
      and ok: "fetch_result_ok env cfg ?f lo target s fr s1" by blast
    have net1: "net_ok cfg s1" using ok less.prems(1) by (simp add: fetch_result_ok_def frame_def)
    show ?thesis
    proof (cases fr)
      case (Inl e)
      with f less.prems(2) False net1 show ?thesis by (subst store_from.simps) (simp add: task_bind_def)
    next
      case (Inr p)
      obtain logs till where p: "p = (logs, till)" by (cases p)
      from ok Inr p have till: "lo \<le> till" "till \<le> target" and tr: "logs_trusted env ?f lo target logs till"
        by (auto simp: fetch_result_ok_def)
      from tr dec have "decode_settlement_logs env config logs \<noteq> None"
        unfolding logs_trusted_def logs_decode_def by blast
      from runsD [OF runs_store_chunk [OF this] net1] obtain r2 and s2 :: "('w, 'z) setst_scheme" where
        ch: "store_chunk env cfg config cid logs till s1 = Some (r2, s2)" and net2: "net_ok cfg s2" by blast
      show ?thesis
      proof (cases r2)
        case (Inl e)
        with f less.prems(2) False \<open>fr = Inr p\<close> p ch net2 show ?thesis
          by (subst store_from.simps) (simp add: task_bind_def)
      next
        case r2: (Inr u)
        from store_chunk_next [OF ch [unfolded r2]] have nx: "f_next_block s2 = Some (till + 1)" .
        have "till \<noteq> - 1" using till(2) top by (metis word_order.extremum_uniqueI)
        then have "unat (till + 1) = unat till + 1" by (rule unat_next)
        moreover have "unat lo \<le> unat till" and "unat till \<le> unat target" using till by (simp_all add: word_le_nat_alt)
        ultimately have "unat target + 1 - unat (till + 1) < unat target + 1 - unat lo" by simp
        from less.hyps [OF this net2 nx] f less.prems(2) False \<open>fr = Inr p\<close> p ch r2 show ?thesis
          by (subst store_from.simps) (simp add: task_bind_def)
      qed
    qed
  qed
qed

lemma runs_state: "(\<And>x. runs cfg (f x)) \<Longrightarrow> runs cfg (\<lambda>s. f (g s) s)"
  by (auto simp: runs_def)

lemma runs_start_block:
  fixes env :: "('w, 'e) sysenv_scheme"
  shows "runs cfg (start_block env config cid :: (('w, 'z) setst_scheme, u64) task)"
proof -
  have "runs cfg (get_settlement_checkpoint env cid src :: (('w, 'z) setst_scheme, _) task)" for src
    unfolding get_settlement_checkpoint_def by (intro runs_bind runs_sql runs_pure)
  then have "runs cfg (task_bind (task_map_err f (get_settlement_checkpoint env cid src)) (\<lambda>c. task_return (h c))
      :: (('w, 'z) setst_scheme, u64) task)" for f src h
    by (intro runs_bind runs_map_err runs_pure)
  then show ?thesis
    by (auto simp: runs_def start_block_def split: option.split)
qed

lemma runs_sync_once:
  fixes env :: "('w, 'e) sysenv_scheme"
  assumes "head_bounded env cfg" and "logs_decode env config" and "ids_fit env"
  shows "runs cfg (sync_once env cfg config :: (('w, 'z) setst_scheme, nat) task)"
proof -
  let ?fin = "task_bind (now_ms env) (\<lambda>now. task_bind (on_settlements (\<lambda>y. y\<lparr>ss_last_synced_at_ms := Some now\<rparr>))
      (\<lambda>_ s. task_return (f_stored s) s)) :: (('w, 'z) setst_scheme, nat) task"
  have "runs cfg (\<lambda>s :: ('w, 'z) setst_scheme. task_return (f_stored s) s)"
    by (rule runs_state [of cfg task_return f_stored]) (rule runs_pure)
  then have fin: "runs cfg ?fin" by (intro runs_bind runs_now runs_settings)
  have body: "runs cfg (task_bind (task_modify (\<lambda>s. s\<lparr>f_next_block := Some b, f_stored := 0\<rparr>)) (\<lambda>_.
      task_bind (safe_head env cfg) (\<lambda>target. task_bind (store_from env cfg config cid target) (\<lambda>_. ?fin)))
      :: (('w, 'z) setst_scheme, nat) task)" for b cid
  proof (rule runsI)
    fix s :: "('w, 'z) setst_scheme"
    assume "net_ok cfg s"
    then have ok: "net_ok cfg (s\<lparr>f_next_block := Some b, f_stored := 0\<rparr>)" by (simp add: net_ok_def)
    from runsD [OF runs_views(2) this, of env] obtain h and s1 :: "('w, 'z) setst_scheme" where
      h: "safe_head env cfg (s\<lparr>f_next_block := Some b, f_stored := 0\<rparr>) = Some (h, s1)" and ok1: "net_ok cfg s1" by blast
    from keepsD [OF kept_views(1) h] have lo: "f_next_block s1 = Some b" by (simp add: settle_kept_def)
    show "\<exists>r s'. task_bind (task_modify (\<lambda>s. s\<lparr>f_next_block := Some b, f_stored := 0\<rparr>)) (\<lambda>_.
      task_bind (safe_head env cfg) (\<lambda>target. task_bind (store_from env cfg config cid target) (\<lambda>_. ?fin))) s =
      Some (r, s') \<and> net_ok cfg s'"
    proof (cases h)
      case (Inl e)
      with h ok1 show ?thesis by (simp add: task_bind_def task_modify_def)
    next
      case (Inr target)
      have "target \<noteq> - 1" using safe_head_bound [OF h [unfolded Inr] assms(1) ok] .
      from store_from_returns [OF assms(2) this ok1 lo] obtain r2 and s2 :: "('w, 'z) setst_scheme" where
        st: "store_from env cfg config cid target s1 = Some (r2, s2)" and ok2: "net_ok cfg s2" by blast
      from runsD [OF fin ok2] h Inr st ok2 show ?thesis
        by (cases r2) (simp_all add: task_bind_def task_modify_def)
    qed
  qed
  show ?thesis
    unfolding sync_once_def
    by (intro runs_bind runs_start_block runs_chain_id assms(3) [unfolded ids_fit_def] body)
qed

lemma runs_read_view: "runs cfg (read_view env cfg what pool name arguments n)"
  unfolding read_view_def by (intro runs_bind runs_retry runs_rpc runs_pure)

lemma runs_claimable:
  fixes env :: "('w, 'e) sysenv_scheme"
  shows "runs cfg (read_claimable env cfg pool n xs :: (('w, 'z) net_scheme, _) task)"
proof (induction xs)
  case Nil
  show ?case by (simp add: runs_def)
next
  case (Cons x xs)
  let ?skip = "task_bind (read_claimable env cfg pool n xs) (\<lambda>(ys, r'). task_return (x # ys, r'))
      :: (('w, 'z) net_scheme, _) task"
  let ?read = "\<lambda>a b. task_try (read_view env cfg ''claimableExit'' pool ''claimableExit'' [a, b] n) (\<lambda>r.
            case r of
              Inl e \<Rightarrow> task_return (x # xs, Inl e)
            | Inr v \<Rightarrow> task_bind (read_claimable env cfg pool n xs) (\<lambda>(ys, r').
                         task_return (x\<lparr>xt_claimable := Some v\<rparr> # ys, r')))
      :: (('w, 'z) net_scheme, _) task"
  have "runs cfg ?skip" and "runs cfg (?read a b)" for a b
    by (intro runs_bind runs_try runs_read_view runs_pure runs_cases Cons)+
  moreover have "read_claimable env cfg pool n (x # xs) =
      (case (x_addr_parse env (xt_exit_address x), x_addr_parse env (xt_fee_asset x)) of
        (Inr a, Inr b) \<Rightarrow> ?read a b | _ \<Rightarrow> ?skip)"
    by (rule ext) (simp split: sum.split)
  ultimately show ?case by (simp split: sum.split)
qed

lemma runs_gauges:
  fixes env :: "('w, 'e) sysenv_scheme"
  shows "runs cfg (read_pool_gauges env cfg pool n xs :: (('w, 'z) net_scheme, _) task)"
proof -
  have "runs cfg (read_asset env cfg pool n p :: (('w, 'z) net_scheme, _) task)" for p
    unfolding read_asset_def Let_def by (intro runs_bind runs_read_view runs_pure)
  then show ?thesis
    unfolding read_pool_gauges_def
    by (intro runs_bind runs_try runs_claimable runs_pure runs_cases runs_map)
qed

lemma runs_refresh_summary:
  fixes env :: "('w, 'e) sysenv_scheme"
  assumes "ids_fit env"
  shows "runs cfg (refresh_summary env cfg config :: (('w, 'z) setst_scheme, unit) task)"
proof -
  let ?m = "\<lambda>exits n. task_bind (case (sc_reward_pool config, n) of
        (Some pool, Some block) \<Rightarrow> task_bind (read_pool_gauges env cfg pool block exits) (\<lambda>(exits', g).
            task_return (exits', case g of Inl _ \<Rightarrow> None | Inr gauges \<Rightarrow> Some (gauges, block)))
      | _ \<Rightarrow> task_return (exits, None)) (\<lambda>(exits', gauges). on_settlements (\<lambda>y.
      let y1 = y\<lparr>ss_executions := sum_list (map xt_executions exits), ss_exits := exits'\<rparr>
      in case gauges of None \<Rightarrow> y1 | Some (g, n) \<Rightarrow> y1\<lparr>ss_pool := g, ss_pool_read_block := Some n\<rparr>))
      :: (('w, 'z) setst_scheme, unit) task"
  have "runs cfg (?m exits n)" for exits n
    by (intro runs_bind runs_cases runs_gauges runs_pure runs_settings)
  then have body: "runs cfg (\<lambda>s :: ('w, 'z) setst_scheme. let exits = merge_totals settled claimed
      in ?m exits (ss_last_block (a_settlements s)) s)" for settled claimed
    unfolding Let_def runs_def by blast
  show ?thesis
    unfolding refresh_summary_def paid_settlement_totals_def exit_credit_claim_totals_def
    by (intro runs_bind runs_chain_id assms [unfolded ids_fit_def] runs_map_err runs_sql runs_pure runs_cases body)
qed

lemma settlement_poll_runs:
  fixes env :: "('w, 'e) sysenv_scheme"
  assumes "head_bounded env cfg" and "logs_decode env config" and "ids_fit env"
  shows "runs cfg (settlement_poll env cfg config :: (('w, 'z) setst_scheme, bool) task)"
proof -
  have note_out: "runs cfg (note_outcome env o' :: (('w, 'z) setst_scheme, bool \<times> nat) task)" for o'
    unfolding note_outcome_def by (intro runs_cases runs_bind runs_settings runs_pure runs_cancelled)
  have "runs cfg (task_bind (instant_now env) (\<lambda>now. task_return (gauge_refresh \<le> now - t))
      :: (('w, 'z) setst_scheme, bool) task)" for t
    by (intro runs_bind runs_instant runs_pure)
  then have due: "runs cfg (summary_due env :: (('w, 'z) setst_scheme, bool) task)"
    by (auto simp: runs_def summary_due_def split: option.split)
  show ?thesis
    unfolding settlement_poll_def
    by (intro runs_try runs_bind runs_sync_once runs_refresh_summary assms note_out due runs_cases runs_pure
        runs_instant runs_settings)
qed

lemma poll_never_fails:
  "settlement_poll env cfg config s = Some (r, s') \<Longrightarrow> \<exists>b. r = Inr b"
  by (auto simp: settlement_poll_def task_try_def note_outcome_def summary_due_def task_bind_def is_cancelled_def
      instant_now_def on_settlements_def task_modify_def task_return_def
      split: option.splits prod.splits sum.splits if_splits)

text \<open>
  C21: a poll of the settlement sync comes back and its errors stay inside: from any healthy state,
  whatever the endpoints and the database do, it ends with the loop's decision and a healthy client,
  under three conditions on the answers of the endpoints: no log of a settlement event has an index
  and no chain id is above 64 bits, either of which makes the poll panic, and, when no confirmations
  are configured, no endpoint claims the largest 64-bit block number as the head, for which the poll
  would loop.
\<close>

theorem settlement_poll_returns:
  fixes env :: "('w, 'e) sysenv_scheme" and s :: "('w, 'z) setst_scheme"
  assumes "net_ok cfg s" and "head_bounded env cfg" and "logs_decode env config" and "ids_fit env"
  shows "\<exists>stop s'. settlement_poll env cfg config s = Some (Inr stop, s') \<and> net_ok cfg s'"
  using runsD [OF settlement_poll_runs [OF assms(2-4)] assms(1)] poll_never_fails by metis

theorem settlement_poll_returns_witness:
  "\<exists>stop s'. settlement_poll demo_sys demo_cfg demo_settle_cfg demo_settle = Some (Inr stop, s') \<and> net_ok demo_cfg s'"
proof -
  have "endpoint_gave (e_get_logs demo_sys) i q logs \<Longrightarrow> logs = []" for i q logs
    by (simp add: endpoint_gave_def)
  then have d: "logs_decode demo_sys demo_settle_cfg" unfolding logs_decode_def by fastforce
  have f: "ids_fit demo_sys" by (auto simp: ids_fit_def endpoint_gave_def as_u64_def)
  from settlement_poll_returns [OF demo_settle_ok demo_head_bounded d f] show ?thesis .
qed

text \<open>
  A read of the pool that fails half way: the claimable amounts read before the failure stay in the
  list that is published, although the balances beside it are still those of an earlier block.
\<close>

lemma partial_claimable_published:
  assumes "x_addr_parse env (xt_exit_address x) = Inr a" and "x_addr_parse env (xt_fee_asset x) = Inr b"
    and "x_addr_parse env (xt_exit_address y) = Inr c" and "x_addr_parse env (xt_fee_asset y) = Inr d"
    and "read_view env cfg ''claimableExit'' pool ''claimableExit'' [a, b] n s = Some (Inr v, s1)"
    and "read_view env cfg ''claimableExit'' pool ''claimableExit'' [c, d] n s1 = Some (Inl e, s2)"
  shows "read_pool_gauges env cfg pool n [x, y] s = Some (Inr ([x\<lparr>xt_claimable := Some v\<rparr>, y], Inl e), s2)"
  using assms by (simp add: read_pool_gauges_def task_try_def task_bind_def task_return_def)

end
