(* ===== verification/Subscriber.thy ===== *)
theory Subscriber
  imports Reconcile
begin

text \<open>
  Model of \<^verbatim>\<open>src/node/subscriber.rs\<close> and \<^verbatim>\<open>src/node/events.rs\<close>: what is done
  with the events and metrics of a node, which nodes are subscribed to and under which URL, the flush
  of the lifetime totals, and the uptime check. The HTTP and event streams themselves are not
  modelled: an operation takes the answer that was read as an argument, and the uptime check takes
  the outcome of a request as a function of its URL and the world.
\<close>

section \<open>Events\<close>

datatype ingest_event =
    NodeStarted u64 string
  | PeerConnected string string
  | PeerDisconnected string string
  | TopologyAdd string u8 string string
  | TopologyRemove string string
  | PacketProcessed u64 string

text \<open>The JSON of an event, tagged with its kind.\<close>

definition event_fields :: "ingest_event \<Rightarrow> (string \<times> json) list" where
  "event_fields e =
     (case e of
        NodeStarted t i \<Rightarrow> [(''kind'', JString ''node_started''), (''timestamp'', JInt (uint t)), (''node_id'', JString i)]
      | PeerConnected p i \<Rightarrow> [(''kind'', JString ''peer_connected''), (''peer_id'', JString p), (''node_id'', JString i)]
      | PeerDisconnected p i \<Rightarrow> [(''kind'', JString ''peer_disconnected''), (''peer_id'', JString p), (''node_id'', JString i)]
      | TopologyAdd a r st i \<Rightarrow> [(''kind'', JString ''topology_add''), (''address'', JString a), (''role'', JInt (uint r)),
                                (''stake'', JString st), (''node_id'', JString i)]
      | TopologyRemove a i \<Rightarrow> [(''kind'', JString ''topology_remove''), (''address'', JString a), (''node_id'', JString i)]
      | PacketProcessed d i \<Rightarrow> [(''kind'', JString ''packet_processed''), (''duration_ms'', JInt (uint d)),
                                (''node_id'', JString i)])"

definition is_republishable :: "ingest_event \<Rightarrow> bool" where
  "is_republishable e \<longleftrightarrow> (case e of PacketProcessed _ _ \<Rightarrow> False | _ \<Rightarrow> True)"

text \<open>None: not a change of a known member; Some role: the role to publish, if any.\<close>

definition chain_view_of_topology_event ::
  "('w, 'z) app_scheme \<Rightarrow> ingest_event \<Rightarrow> u8 option option" where
  "chain_view_of_topology_event s e =
     (case e of
        TopologyAdd a _ _ _ \<Rightarrow>
          (case map_of (a_nodes s) (to_lowercase a) of
             Some n \<Rightarrow> if registered_node n then Some (Some (ns_role n)) else None
           | None \<Rightarrow> None)
      | TopologyRemove a _ \<Rightarrow>
          (case map_of (a_nodes s) (to_lowercase a) of Some _ \<Rightarrow> Some None | None \<Rightarrow> None)
      | _ \<Rightarrow> Some None)"

definition dedup_key :: "ingest_event \<Rightarrow> string option" where
  "dedup_key e =
     (case e of
        TopologyAdd a _ _ _ \<Rightarrow> Some (''topo_add:'' @ a)
      | TopologyRemove a _ \<Rightarrow> Some (''topo_remove:'' @ a)
      | _ \<Rightarrow> None)"

definition pass_dedup ::
  "('w, 'e) sysenv_scheme \<Rightarrow> string option \<Rightarrow> (('w, 'z) app_scheme, bool) task" where
  "pass_dedup env key s =
     (case key of
        None \<Rightarrow> Some (Inr True, s)
      | Some k \<Rightarrow>
          (case e_instant env (n_world s) of
             (now, w) \<Rightarrow>
               (case dedup_check now k (a_topo_dedup s) of
                  (fresh, d) \<Rightarrow> Some (Inr fresh, s\<lparr>n_world := w, a_topo_dedup := d\<rparr>))))"

definition published_event :: "string \<Rightarrow> ingest_event \<Rightarrow> u8 option \<Rightarrow> json" where
  "published_event node_address e chain_role =
     JObject ((case chain_role of None \<Rightarrow> id | Some r \<Rightarrow> AList.update ''role'' (JInt (uint r)))
       (AList.update ''node_address'' (JString node_address) (event_fields e)))"

definition push_event :: "json \<Rightarrow> json list \<Rightarrow> json list" where
  "push_event raw buffer =
     (let b = buffer @ [raw] in drop (length b - max_recent_events) b)"

definition process_event ::
  "('w, 'e) sysenv_scheme \<Rightarrow> string \<Rightarrow> ingest_event \<Rightarrow> (('w, 'z) app_scheme, unit) task" where
  "process_event env node_address e s =
     (if \<not> is_republishable e then Some (Inr (), s)
      else case chain_view_of_topology_event s e of
             None \<Rightarrow> Some (Inr (), s)
           | Some chain_role \<Rightarrow>
               task_bind (pass_dedup env (dedup_key e)) (\<lambda>fresh.
                 if fresh
                 then task_modify (\<lambda>s. broadcast_event (published_event node_address e chain_role)
                        (s\<lparr>a_recent_events :=
                             push_event (published_event node_address e chain_role) (a_recent_events s)\<rparr>))
                 else task_return ()) s)"

section \<open>Metrics\<close>

definition is_registered_member :: "('w, 'z) app_scheme \<Rightarrow> string \<Rightarrow> bool" where
  "is_registered_member s address =
     (case map_of (a_nodes s) address of Some n \<Rightarrow> registered_node n | None \<Rightarrow> False)"

text \<open>\<open>now_ms\<close> of this file: a clock before the epoch counts as zero.\<close>

definition unix_ms :: "('w, 'e) sysenv_scheme \<Rightarrow> (('w, 'z) dbst_scheme, i64) task" where
  "unix_ms env = task_bind (now_ms env) (\<lambda>t. task_return (max 0 t))"

definition mark_clean :: "string \<Rightarrow> ('w, 'z) app_scheme \<Rightarrow> ('w, 'z) app_scheme" where
  "mark_clean address s =
     s\<lparr>a_metric_offsets := map_rows (\<lambda>a off. if a = address then off\<lparr>no_dirty := False\<rparr> else off)
         (a_metric_offsets s)\<rparr>"

text \<open>A save that fails is only logged.\<close>

definition save_offset ::
  "('w, 'e) sysenv_scheme \<Rightarrow> i64 \<Rightarrow> string \<times> node_offset \<Rightarrow> (('w, 'z) app_scheme, unit) task" where
  "save_offset env ts p =
     task_try (save_metric_offset env (fst p) (snd p) ts) (\<lambda>r.
       case r of Inl _ \<Rightarrow> task_return () | Inr _ \<Rightarrow> task_modify (mark_clean (fst p)))"

definition apply_lifetime_offsets ::
  "('w, 'e) sysenv_scheme \<Rightarrow> string \<Rightarrow> structured_metrics \<Rightarrow> (('w, 'z) app_scheme, structured_metrics) task" where
  "apply_lifetime_offsets env address parsed =
     task_bind (instant_now env) (\<lambda>now s.
       let off = (case map_of (a_metric_offsets s) address of Some off \<Rightarrow> off | None \<Rightarrow> default_offset)
       in case observe parsed now off of
            (off1, seen) \<Rightarrow>
              let off2 = off1\<lparr>no_adjusting := ob_adjusted seen\<rparr>;
                  live = apply_offset off1 parsed;
                  s1 = s\<lparr>a_metric_offsets := AList.update address off2 (a_metric_offsets s)\<rparr>
              in if ob_restarted seen
                 then task_bind (unix_ms env) (\<lambda>ts.
                      task_bind (save_offset env ts (address, off2)) (\<lambda>_. task_return live)) s1
                 else Some (Inr live, s1))"

text \<open>What a scrape of a node's metrics read: a request or a body that failed changes nothing.\<close>

datatype scrape = ScrapeFailed | Scraped "string option" structured_metrics

definition metrics_tick ::
  "('w, 'e) sysenv_scheme \<Rightarrow> string \<Rightarrow> scrape \<Rightarrow> (('w, 'z) app_scheme, unit) task" where
  "metrics_tick env address reply s =
     (case reply of
        ScrapeFailed \<Rightarrow> Some (Inr (), s)
      | Scraped header parsed \<Rightarrow>
          if \<not> is_registered_member s address then Some (Inr (), s)
          else task_bind (apply_lifetime_offsets env address (fill_build_version header parsed)) (\<lambda>m.
               task_modify (\<lambda>s. broadcast_metrics address m
                 (s\<lparr>a_metrics := AList.update address m (a_metrics s)\<rparr>))) s)"

datatype pow_read = PowFailed | PowRead "u32 option"

definition pow_tick :: "string \<Rightarrow> pow_read \<Rightarrow> ('w, 'z) app_scheme \<Rightarrow> ('w, 'z) app_scheme" where
  "pow_tick address reply s =
     (case reply of
        PowFailed \<Rightarrow> s
      | PowRead r \<Rightarrow>
          if \<not> is_registered_member s address then s
          else (case r of
                  Some d \<Rightarrow> s\<lparr>a_pow_difficulties := AList.update address d (a_pow_difficulties s)\<rparr>
                | None \<Rightarrow> s\<lparr>a_pow_difficulties := AList.delete address (a_pow_difficulties s)\<rparr>))"

definition pending_offsets :: "('w, 'z) app_scheme \<Rightarrow> (string \<times> node_offset) list" where
  "pending_offsets s = filter (\<lambda>(a, off). no_dirty off \<or> \<not> is_zero (no_last_raw off)) (a_metric_offsets s)"

definition flush_dirty_offsets :: "('w, 'e) sysenv_scheme \<Rightarrow> (('w, 'z) app_scheme, unit) task" where
  "flush_dirty_offsets env s =
     task_bind (unix_ms env) (\<lambda>ts. task_each (save_offset env ts) (pending_offsets s)) s"

section \<open>Subscriptions\<close>

text \<open>The URL each running subscription was started with.\<close>

record 'w subst = "'w app" +
  u_active :: "(string \<times> string) list"

definition plan_subscription_changes ::
  "(string \<times> string) list \<Rightarrow> (string \<times> string) list \<Rightarrow> string list \<times> string list" where
  "plan_subscription_changes active current =
     (sort (map fst (filter (\<lambda>(a, url). map_of current a \<noteq> Some url) active)),
      sort (map fst (filter (\<lambda>(a, url). map_of active a \<noteq> Some url) current)))"

definition resolve_base_url :: "('w, 'e) sysenv_scheme \<Rightarrow> string \<Rightarrow> u16 \<Rightarrow> string option" where
  "resolve_base_url env admin_url admin_port =
     (let allow = (\<lambda>url. if url_allowed_with env url (e_allow_private env) then Some url else None)
      in if admin_url \<noteq> [] then allow admin_url
         else if 0 < admin_port then allow (''http://127.0.0.1:'' @ nat_str (unat admin_port))
         else None)"

definition current_targets :: "('w, 'e) sysenv_scheme \<Rightarrow> ('w, 'z) app_scheme \<Rightarrow> (string \<times> string) list" where
  "current_targets env s =
     List.map_filter (\<lambda>(a, n). map_option (\<lambda>url. (a, url)) (resolve_base_url env (ns_admin_url n) (ns_admin_port n)))
       (a_nodes s)"

definition stop_subscription :: "string \<Rightarrow> ('w, 'z) subst_scheme \<Rightarrow> ('w, 'z) subst_scheme" where
  "stop_subscription a s =
     (if map_of (u_active s) a = None then s
      else s\<lparr>u_active := AList.delete a (u_active s), a_metrics := AList.delete a (a_metrics s),
             a_pow_difficulties := AList.delete a (a_pow_difficulties s)\<rparr>)"

definition start_subscription ::
  "(string \<times> string) list \<Rightarrow> string \<Rightarrow> ('w, 'z) subst_scheme \<Rightarrow> ('w, 'z) subst_scheme" where
  "start_subscription current a s =
     (case map_of current a of
        None \<Rightarrow> s
      | Some url \<Rightarrow> s\<lparr>u_active := AList.update a url (u_active s)\<rparr>)"

definition manage_tick :: "('w, 'e) sysenv_scheme \<Rightarrow> ('w, 'z) subst_scheme \<Rightarrow> ('w, 'z) subst_scheme" where
  "manage_tick env s =
     (let current = current_targets env s
      in case plan_subscription_changes (u_active s) current of
           (stop, start) \<Rightarrow> fold (start_subscription current) start (fold stop_subscription stop s))"

section \<open>Uptime\<close>

definition needs_status_update :: "('w, 'z) app_scheme \<Rightarrow> string \<Rightarrow> node_status \<Rightarrow> bool" where
  "needs_status_update s address st =
     (case map_of (a_nodes s) address of
        Some n \<Rightarrow> registered_node n \<and> ns_status n \<noteq> st
      | None \<Rightarrow> False)"

definition set_node_status :: "string \<Rightarrow> node_status \<Rightarrow> ('w, 'z) app_scheme \<Rightarrow> ('w, 'z) app_scheme" where
  "set_node_status address st s =
     s\<lparr>a_nodes := map_rows (\<lambda>a n. if a = address then n\<lparr>ns_status := st\<rparr> else n) (a_nodes s)\<rparr>"

definition apply_status_change ::
  "('w, 'e) sysenv_scheme \<Rightarrow> string \<Rightarrow> bool \<Rightarrow> (('w, 'z) app_scheme, bool) task" where
  "apply_status_change env address reachable s =
     (let st = (if reachable then Online else Offline)
      in if \<not> needs_status_update s address st then Some (Inr False, s)
         else task_try (update_node_status env address st) (\<lambda>r s1.
                case r of
                  Inl _ \<Rightarrow> Some (Inr False, s1)
                | Inr _ \<Rightarrow>
                    if needs_status_update s1 address st
                    then Some (Inr True, set_node_status address st s1)
                    else Some (Inr False, s1)) s)"

text \<open>The requests of a check go out twenty at a time and are answered in any order; here one
  follows the other. A URL that may not be contacted is not requested.\<close>

definition probe_node ::
  "('w, 'e) sysenv_scheme \<Rightarrow> (string \<Rightarrow> 'w \<Rightarrow> bool \<times> 'w) \<Rightarrow> string \<times> string \<Rightarrow>
   (('w, 'z) net_scheme, string \<times> bool) task" where
  "probe_node env get p s =
     (if \<not> url_allowed_with env (snd p) (e_allow_private env) then Some (Inr (fst p, False), s)
      else case get (snd p @ ''/metrics/json'') (n_world s) of
             (reachable, w) \<Rightarrow> Some (Inr (fst p, reachable), s\<lparr>n_world := w\<rparr>))"

definition record_probe ::
  "('w, 'e) sysenv_scheme \<Rightarrow> string \<times> bool \<Rightarrow> (('w, 'z) app_scheme, bool) task" where
  "record_probe env p =
     task_try (upsert_reputation env (fst p) (snd p)) (\<lambda>_. apply_status_change env (fst p) (snd p))"

definition note_genesis ::
  "('w, 'e) sysenv_scheme \<Rightarrow> u64 \<Rightarrow> bool \<Rightarrow> (('w, 'z) app_scheme, unit) task" where
  "note_genesis env interval_secs probed s =
     (if a_network_genesis_ms s = None \<and> probed
      then task_try (ensure_network_genesis env (i64_of_u64 (sat_mul interval_secs 1000))) (\<lambda>r.
             case r of
               Inr genesis \<Rightarrow> task_modify (\<lambda>s. s\<lparr>a_network_genesis_ms := genesis\<rparr>)
             | Inl _ \<Rightarrow> task_return ()) s
      else Some (Inr (), s))"

definition uptime_tick ::
  "('w, 'e) sysenv_scheme \<Rightarrow> (string \<Rightarrow> 'w \<Rightarrow> bool \<times> 'w) \<Rightarrow> u64 \<Rightarrow> (('w, 'z) app_scheme, unit) task" where
  "uptime_tick env get interval_secs =
     task_try (load_all_uptime_targets env) (\<lambda>r.
       case r of
         Inl _ \<Rightarrow> task_return ()
       | Inr targets \<Rightarrow>
           task_bind (task_map (probe_node env get) targets) (\<lambda>results.
           task_bind (task_map (record_probe env) results) (\<lambda>changed.
           task_bind (task_modify (\<lambda>s. if True \<in> set changed then broadcast_cluster_snapshot s else s)) (\<lambda>_.
           task_try (decay_stale_scores env 6) (\<lambda>_. note_genesis env interval_secs (results \<noteq> []))))))"

section \<open>What is published\<close>

lemma push_event_last: "push_event raw buffer = drop (length buffer + 1 - 200) buffer @ [raw] \<and>
    length (push_event raw buffer) \<le> 200"
  by (auto simp: push_event_def Let_def max_recent_events_def)

lemma published_fields:
  "map_of (case published_event a e r of JObject fs \<Rightarrow> fs | _ \<Rightarrow> []) ''node_address'' = Some (JString a)"
  "map_of (case published_event a e (Some role) of JObject fs \<Rightarrow> fs | _ \<Rightarrow> []) ''role'' = Some (JInt (uint role))"
  by (cases r; simp add: published_event_def update_conv')+

lemma process_event_cases:
  fixes s s' :: "('w, 'z) app_scheme"
  assumes "process_event env a e s = Some (r, s')"
  shows "r = Inr () \<and> a_nodes s' = a_nodes s \<and>
    (a_sent s' = a_sent s \<and> a_recent_events s' = a_recent_events s \<or>
     (\<exists>chain_role. is_republishable e \<and> chain_view_of_topology_event s e = Some chain_role \<and>
        a_sent s' = a_sent s @ [EventMsg (published_event a e chain_role)] \<and>
        a_recent_events s' = push_event (published_event a e chain_role) (a_recent_events s)))"
proof (cases "is_republishable e \<and> chain_view_of_topology_event s e \<noteq> None")
  case False
  with assms show ?thesis by (auto simp: process_event_def split: if_splits)
next
  case True
  then obtain cr where cr: "chain_view_of_topology_event s e = Some cr" by blast
  obtain fresh and s1 :: "('w, 'z) app_scheme" where d: "pass_dedup env (dedup_key e) s = Some (Inr fresh, s1)"
    and same: "a_nodes s1 = a_nodes s" "a_sent s1 = a_sent s" "a_recent_events s1 = a_recent_events s"
    by (cases "dedup_key e"; cases "e_instant env (n_world s)";
        cases "dedup_check (fst (e_instant env (n_world s))) (the (dedup_key e)) (a_topo_dedup s)")
      (auto simp: pass_dedup_def)
  with assms True cr show ?thesis
    by (cases fresh) (auto simp: process_event_def task_bind_def task_modify_def task_return_def
        broadcast_event_def send_def)
qed


definition demo_subscriber :: "unit app" where
  "demo_subscriber = demo_app\<lparr>a_nodes := [(''0xaa'', node_of_row demo_sys False demo_row)]\<rparr>"


section \<open>Who is subscribed to\<close>

lemma fold_stop:
  fixes s :: "('w, 'z) subst_scheme"
  shows "map_of (u_active (fold stop_subscription as s)) a = (if a \<in> set as then None else map_of (u_active s) a)"
    and "map_of (a_metrics (fold stop_subscription as s)) a =
      (if a \<in> set as \<and> map_of (u_active s) a \<noteq> None then None else map_of (a_metrics s) a)"
    and "map_of (a_pow_difficulties (fold stop_subscription as s)) a =
      (if a \<in> set as \<and> map_of (u_active s) a \<noteq> None then None else map_of (a_pow_difficulties s) a)"
    and "a_nodes (fold stop_subscription as s) = a_nodes s"
proof -
  have one: "map_of (u_active (stop_subscription b t)) a = (if a = b then None else map_of (u_active t) a)"
    "map_of (a_metrics (stop_subscription b t)) a =
      (if a = b \<and> map_of (u_active t) b \<noteq> None then None else map_of (a_metrics t) a)"
    "map_of (a_pow_difficulties (stop_subscription b t)) a =
      (if a = b \<and> map_of (u_active t) b \<noteq> None then None else map_of (a_pow_difficulties t) a)"
    "a_nodes (stop_subscription b t) = a_nodes t" for b and t :: "('w, 'z) subst_scheme"
    by (auto simp: stop_subscription_def delete_conv')
  show "map_of (u_active (fold stop_subscription as s)) a = (if a \<in> set as then None else map_of (u_active s) a)"
    by (induction as arbitrary: s) (auto simp: one)
  show "map_of (a_metrics (fold stop_subscription as s)) a =
      (if a \<in> set as \<and> map_of (u_active s) a \<noteq> None then None else map_of (a_metrics s) a)"
    by (induction as arbitrary: s) (auto simp: one)
  show "map_of (a_pow_difficulties (fold stop_subscription as s)) a =
      (if a \<in> set as \<and> map_of (u_active s) a \<noteq> None then None else map_of (a_pow_difficulties s) a)"
    by (induction as arbitrary: s) (auto simp: one)
  show "a_nodes (fold stop_subscription as s) = a_nodes s"
    by (induction as arbitrary: s) (auto simp: one)
qed

lemma fold_start:
  fixes s :: "('w, 'z) subst_scheme"
  shows "map_of (u_active (fold (start_subscription cur) as s)) a =
      (if a \<in> set as \<and> map_of cur a \<noteq> None then map_of cur a else map_of (u_active s) a)"
    and "a_metrics (fold (start_subscription cur) as s) = a_metrics s"
    and "a_pow_difficulties (fold (start_subscription cur) as s) = a_pow_difficulties s"
proof -
  have one: "map_of (u_active (start_subscription cur b t)) a =
      (if a = b \<and> map_of cur b \<noteq> None then map_of cur b else map_of (u_active t) a)"
    "a_metrics (start_subscription cur b t) = a_metrics t"
    "a_pow_difficulties (start_subscription cur b t) = a_pow_difficulties t" for b and t :: "('w, 'z) subst_scheme"
    by (auto simp: start_subscription_def update_conv' split: option.split)
  show "map_of (u_active (fold (start_subscription cur) as s)) a =
      (if a \<in> set as \<and> map_of cur a \<noteq> None then map_of cur a else map_of (u_active s) a)"
    by (induction as arbitrary: s) (auto simp: one)
  show "a_metrics (fold (start_subscription cur) as s) = a_metrics s"
    "a_pow_difficulties (fold (start_subscription cur) as s) = a_pow_difficulties s"
    by (induction as arbitrary: s) (auto simp: one)
qed

lemma plan_sets:
  assumes "distinct (map fst active)" and "distinct (map fst current)"
    and "plan_subscription_changes active current = (stop, start)"
  shows "a \<in> set stop \<longleftrightarrow> (\<exists>url. map_of active a = Some url \<and> map_of current a \<noteq> Some url)"
    and "a \<in> set start \<longleftrightarrow> (\<exists>url. map_of current a = Some url \<and> map_of active a \<noteq> Some url)"
proof -
  have "stop = sort (map fst (filter (\<lambda>(a, url). map_of current a \<noteq> Some url) active))"
    and "start = sort (map fst (filter (\<lambda>(a, url). map_of active a \<noteq> Some url) current))"
    using assms(3) by (auto simp: plan_subscription_changes_def)
  then show "a \<in> set stop \<longleftrightarrow> (\<exists>url. map_of active a = Some url \<and> map_of current a \<noteq> Some url)"
    and "a \<in> set start \<longleftrightarrow> (\<exists>url. map_of current a = Some url \<and> map_of active a \<noteq> Some url)"
    using assms(1,2) by (auto simp: image_iff Bex_def map_of_eq_Some_iff)
qed

lemma map_filter_keys:
  assumes "distinct (map fst xs)"
  shows "map_of (List.map_filter (\<lambda>(a, n). map_option (\<lambda>u. (a, u)) (f n)) xs) a = Option.bind (map_of xs a) f"
    and "distinct (map fst (List.map_filter (\<lambda>(a, n). map_option (\<lambda>u. (a, u)) (f n)) xs))"
proof -
  let ?g = "List.map_filter (\<lambda>(a, n). map_option (\<lambda>u. (a, u)) (f n))"
  have keys: "set (map fst (?g ys)) \<subseteq> set (map fst ys)" for ys
    by (force simp: List.map_filter_def split: option.splits)
  have none: "map_of (?g ys) b = None" if "b \<notin> fst ` set ys" for b ys
    using keys [of ys] that by (auto simp: map_of_eq_None_iff)
  have step: "?g ((b, n) # ys) = (case f n of None \<Rightarrow> ?g ys | Some u \<Rightarrow> (b, u) # ?g ys)" for b n ys
    by (simp add: List.map_filter_def split: option.split)
  have "map_of (?g xs) a = Option.bind (map_of xs a) f \<and> distinct (map fst (?g xs))"
    using assms
  proof (induction xs)
    case Nil
    then show ?case by (simp add: List.map_filter_def)
  next
    case (Cons p ys)
    obtain b n where p: "p = (b, n)" by (cases p)
    from Cons.prems p have "b \<notin> fst ` set ys" by simp
    with none [OF this] keys [of ys] Cons p show ?case
      by (auto simp: step split: option.split)
  qed
  then show "map_of (?g xs) a = Option.bind (map_of xs a) f" and "distinct (map fst (?g xs))" by blast+
qed

lemma resolved_allowed:
  "resolve_base_url env u p = Some url \<Longrightarrow> url_allowed_with env url (e_allow_private env)"
  by (auto simp: resolve_base_url_def Let_def split: if_splits)

text \<open>
  C14: one pass of the subscription manager makes the subscriptions follow the registry. Afterwards a
  node is subscribed to exactly when its admin address resolves to a URL that may be contacted, under
  that URL, which is never a private address outside a testnet; a subscription that was stopped, because
  the node left or moved, leaves no metrics and no difficulty behind; an unchanged one keeps them.
\<close>

theorem subscriptions_follow_registry:
  fixes env :: "('w, 'e) sysenv_scheme" and s :: "('w, 'z) subst_scheme"
  assumes "distinct (map fst (a_nodes s))" and "distinct (map fst (u_active s))"
  shows "map_of (u_active (manage_tick env s)) a =
      Option.bind (map_of (a_nodes s) a) (\<lambda>n. resolve_base_url env (ns_admin_url n) (ns_admin_port n)) \<and>
    (\<forall>url. map_of (u_active (manage_tick env s)) a = Some url \<longrightarrow> url_allowed_with env url (e_allow_private env)) \<and>
    (if map_of (u_active s) a \<noteq> None \<and> map_of (u_active (manage_tick env s)) a \<noteq> map_of (u_active s) a
     then map_of (a_metrics (manage_tick env s)) a = None \<and> map_of (a_pow_difficulties (manage_tick env s)) a = None
     else map_of (a_metrics (manage_tick env s)) a = map_of (a_metrics s) a \<and>
       map_of (a_pow_difficulties (manage_tick env s)) a = map_of (a_pow_difficulties s) a)"
proof -
  let ?cur = "current_targets env s"
  let ?f = "\<lambda>n. resolve_base_url env (ns_admin_url n) (ns_admin_port n)"
  obtain stop start where plan: "plan_subscription_changes (u_active s) ?cur = (stop, start)"
    by (cases "plan_subscription_changes (u_active s) ?cur")
  have cur: "map_of ?cur a = Option.bind (map_of (a_nodes s) a) ?f" and d: "distinct (map fst ?cur)"
    unfolding current_targets_def by (rule map_filter_keys [OF assms(1)])+
  have tick: "manage_tick env s = fold (start_subscription ?cur) start (fold stop_subscription stop s)"
    by (simp add: manage_tick_def plan)
  note sets = plan_sets [OF assms(2) d plan, of a]
  have act: "map_of (u_active (manage_tick env s)) a = map_of ?cur a"
    unfolding tick fold_start fold_stop using sets by (cases "map_of ?cur a"; cases "map_of (u_active s) a") auto
  have "map_of (a_metrics (manage_tick env s)) a = (if a \<in> set stop then None else map_of (a_metrics s) a)"
    and "map_of (a_pow_difficulties (manage_tick env s)) a = (if a \<in> set stop then None else map_of (a_pow_difficulties s) a)"
    unfolding tick fold_start fold_stop using sets by auto
  moreover have "a \<in> set stop \<longleftrightarrow> map_of (u_active s) a \<noteq> None \<and> map_of ?cur a \<noteq> map_of (u_active s) a"
    using sets by auto
  moreover have "Option.bind (map_of (a_nodes s) a) ?f = Some url \<Longrightarrow> url_allowed_with env url (e_allow_private env)" for url
    by (auto simp: bind_eq_Some_conv dest: resolved_allowed)
  ultimately show ?thesis unfolding act cur by simp
qed

text \<open>A node that moved to a new public address, and one that left.\<close>

definition demo_subs_env :: "unit sysenv" where
  "demo_subs_env = demo_sys\<lparr>x_url_parse := (\<lambda>_. Some \<lparr>url_scheme = ''http'', url_host = Some ''8.8.8.8'', url_port = Some 9001\<rparr>)\<rparr>"

definition demo_subs :: "unit subst" where
  "demo_subs = app.extend (demo_app
     \<lparr>a_nodes := [(''0xaa'', (node_of_row demo_sys False demo_row)\<lparr>ns_admin_url := ''http://8.8.8.8:9001''\<rparr>)]\<rparr>)
     (subst.fields [(''0xaa'', ''http://9.9.9.9:9001''), (''0xcc'', ''http://1.1.1.1:9001'')])"

theorem subscriptions_follow_registry_witness:
  "map_of (u_active (manage_tick demo_subs_env demo_subs)) ''0xaa'' = Some ''http://8.8.8.8:9001'' \<and>
   map_of (u_active (manage_tick demo_subs_env demo_subs)) ''0xcc'' = None"
proof -
  have nodes: "a_nodes demo_subs = [(''0xaa'', (node_of_row demo_sys False demo_row)\<lparr>ns_admin_url := ''http://8.8.8.8:9001''\<rparr>)]"
    and act: "u_active demo_subs = [(''0xaa'', ''http://9.9.9.9:9001''), (''0xcc'', ''http://1.1.1.1:9001'')]"
    by (simp_all add: demo_subs_def demo_app_defs subst.defs)
  have d: "distinct (map fst (a_nodes demo_subs))" "distinct (map fst (u_active demo_subs))"
    by (simp_all add: nodes act)
  have "is_public_ip (the (parse_ip (trim_brackets ''8.8.8.8''))) \<and> parse_ip (trim_brackets ''8.8.8.8'') \<noteq> None"
    by code_simp
  then have "url_allowed_with demo_subs_env ''http://8.8.8.8:9001'' False"
    by (auto simp: url_allowed_with_def demo_subs_env_def)
  moreover have "e_allow_private demo_subs_env = False"
    by (simp add: demo_subs_env_def demo_sys_def env.defs sysenv.defs)
  ultimately have "resolve_base_url demo_subs_env ''http://8.8.8.8:9001'' p = Some ''http://8.8.8.8:9001''" for p
    by (simp add: resolve_base_url_def)
  with subscriptions_follow_registry [OF d, of demo_subs_env "''0xaa''"]
    subscriptions_follow_registry [OF d, of demo_subs_env "''0xcc''"]
  show ?thesis by (simp add: nodes)
qed

end
