(* ===== verification/Api.thy ===== *)
theory Api
  imports Seed Settlement Subscriber
begin

text \<open>
  Model of the request handlers of \<^verbatim>\<open>src/api.rs\<close>: health, state, reputation, settlements,
  the seed topology and the live connection. A response is its status code with the values the
  handler puts into its JSON; the JSON rendering and the HTTP and WebSocket transport are not modelled.
\<close>

section \<open>Health\<close>

text \<open>The sync status as clients see it: the error only as its public summary.\<close>

definition public_sync :: "sync_status \<Rightarrow> sync_status" where
  "public_sync y = y\<lparr>sy_last_error := map_option public_error_summary (sy_last_error y)\<rparr>"

definition public_settlements :: "settlement_status \<Rightarrow> settlement_status" where
  "public_settlements y = y\<lparr>ss_last_error := map_option public_error_summary (ss_last_error y)\<rparr>"

record health_body =
  hb_status :: string
  hb_error :: "string option"
  hb_sync_age_secs :: "u64 option"
  hb_max_sync_age_secs :: "u64 option"
  hb_chain :: sync_status

definition handle_healthz ::
  "('w, 'e) sysenv_scheme \<Rightarrow> (('w, 'z) app_scheme, nat \<times> health_body) task" where
  "handle_healthz env s =
     (let chain = a_sync s
      in task_bind (now_ms env) (\<lambda>now.
         task_try (ping env) (\<lambda>r.
         task_return (case r of
             Inr _ \<Rightarrow> (200, \<lparr>hb_status = ''ok'', hb_error = None,
                             hb_sync_age_secs = sync_age_secs chain now,
                             hb_max_sync_age_secs = None, hb_chain = public_sync chain\<rparr>)
           | Inl _ \<Rightarrow> (503, \<lparr>hb_status = ''degraded'', hb_error = Some ''database unavailable'',
                             hb_sync_age_secs = sync_age_secs chain now,
                             hb_max_sync_age_secs = None, hb_chain = public_sync chain\<rparr>)))) s)"

definition handle_healthz_sync ::
  "('w, 'e) sysenv_scheme \<Rightarrow> u64 \<Rightarrow> (('w, 'z) app_scheme, nat \<times> health_body) task" where
  "handle_healthz_sync env max_sync_age_secs s =
     (let chain = a_sync s
      in task_bind (now_ms env) (\<lambda>now.
         task_try (ping env) (\<lambda>r.
           let problem = (case r of
                  Inl _ \<Rightarrow> Some ''database unavailable''
                | Inr _ \<Rightarrow> (case check_health chain now max_sync_age_secs of
                             Inl reason \<Rightarrow> Some (unhealthy_text reason) | Inr _ \<Rightarrow> None))
           in task_return (if problem = None then 200 else 503,
                \<lparr>hb_status = (if problem = None then ''ok'' else ''unhealthy''), hb_error = problem,
                 hb_sync_age_secs = sync_age_secs chain now, hb_max_sync_age_secs = Some max_sync_age_secs,
                 hb_chain = public_sync chain\<rparr>))) s)"

section \<open>Reputation and state\<close>

text \<open>None in the body is the error object of a failed query.\<close>

definition handle_get_reputation ::
  "('w, 'e) sysenv_scheme \<Rightarrow> (('w, 'z) app_scheme, nat \<times> node_reputation list option) task" where
  "handle_get_reputation env =
     task_try (get_reputation_ranking env) (\<lambda>r.
     task_return (case r of Inr ranking \<Rightarrow> (200, Some ranking) | Inl _ \<Rightarrow> (500, None)))"

record state_body =
  sb_nodes :: "node_state list"
  sb_metrics :: "(string \<times> structured_metrics) list"
  sb_recent_events :: "json list"
  sb_reputation :: "node_reputation list"
  sb_network_totals :: cumulative
  sb_scraped_node_count :: nat
  sb_maximum_cost_is_lower_bound :: bool
  sb_network_genesis_ms :: "i64 option"
  sb_network_reputation_avg :: "f64 option"
  sb_indexer :: sync_status
  sb_settlements :: settlement_status

definition or_insert :: "string \<times> 'v \<Rightarrow> (string \<times> 'v) list \<Rightarrow> (string \<times> 'v) list" where
  "or_insert p m = (if map_of m (fst p) = None then AList.update (fst p) (snd p) m else m)"

text \<open>The nodes in memory; an empty memory is filled from the database first.\<close>

definition nodes_for_state ::
  "('w, 'e) sysenv_scheme \<Rightarrow> chain_config \<Rightarrow> (('w, 'z) app_scheme, node_state list) task" where
  "nodes_for_state env cfg s =
     (if a_nodes s \<noteq> [] then Some (Inr (map snd (a_nodes s)), s)
      else task_try (load_registry_nodes env (cc_registry_hex cfg)) (\<lambda>r s1.
             case r of
               Inl _ \<Rightarrow> Some (Inr [], s1)
             | Inr rows \<Rightarrow>
                 if rows = [] then Some (Inr [], s1)
                 else let s2 = s1\<lparr>a_nodes := fold or_insert rows (a_nodes s1)\<rparr>
                      in Some (Inr (map snd (a_nodes s2)), s2)) s)"

text \<open>The mean of the scores: a sum of doubles divided by their number, which is at least one.\<close>

definition divide_by_count :: "f64 \<Rightarrow> nat \<Rightarrow> f64" where
  "divide_by_count x n = (case x of Fin a \<Rightarrow> to_f64 (a / of_nat n) | _ \<Rightarrow> x)"

definition mean_score :: "node_reputation list \<Rightarrow> f64 option" where
  "mean_score rs =
     (if rs = [] then None
      else Some (divide_by_count (foldl f_add (Fin 0) (map nrp_score rs)) (length rs)))"

definition handle_get_state ::
  "('w, 'e) sysenv_scheme \<Rightarrow> chain_config \<Rightarrow> (('w, 'z) app_scheme, state_body) task" where
  "handle_get_state env cfg =
     task_bind (nodes_for_state env cfg) (\<lambda>found s0.
       let nodes = sort_key ns_address found;
           metrics = filter (\<lambda>(a, _). a \<in> set (map ns_address nodes)) (a_metrics s0);
           events = a_recent_events s0
       in task_try (get_reputation_ranking env) (\<lambda>r s.
            let reputation = (case r of Inr rs \<Rightarrow> rs | Inl _ \<Rightarrow> [])
            in Some (Inr
                 \<lparr>sb_nodes = nodes, sb_metrics = metrics, sb_recent_events = events,
                  sb_reputation = reputation, sb_network_totals = network_totals (map snd (a_metric_offsets s)),
                  sb_scraped_node_count = length (a_metric_offsets s), sb_maximum_cost_is_lower_bound = True,
                  sb_network_genesis_ms = a_network_genesis_ms s,
                  sb_network_reputation_avg = mean_score reputation,
                  sb_indexer = public_sync (a_sync s),
                  sb_settlements = public_settlements (a_settlements s)\<rparr>, s)) s0)"

section \<open>Settlements\<close>

definition settlement_limit_default :: u32 where "settlement_limit_default = 50"
definition settlement_limit_max :: u32 where "settlement_limit_max = 500"

definition settlement_limit :: "u32 option \<Rightarrow> nat" where
  "settlement_limit limit =
     unat (clamp_word (case limit of Some n \<Rightarrow> n | None \<Rightarrow> settlement_limit_default) 1 settlement_limit_max)"

record settlements_body =
  tb_status :: settlement_status
  tb_recent :: "paid_settlement list"
  tb_recent_claims :: "exit_credit_claim list"

definition handle_get_settlements ::
  "('w, 'e) sysenv_scheme \<Rightarrow> u32 option \<Rightarrow> (('w, 'z) app_scheme, nat \<times> settlements_body option) task" where
  "handle_get_settlements env limit s =
     (let status = a_settlements s; n = settlement_limit limit;
          body = (\<lambda>recent claims. (200, Some \<lparr>tb_status = public_settlements status, tb_recent = recent,
                                             tb_recent_claims = claims\<rparr>))
      in case (sy_chain_id (a_sync s), ss_entry_point status) of
           (Some cid, Some entry_point) \<Rightarrow>
             task_try (recent_paid_settlements env cid entry_point n) (\<lambda>r1.
             task_try (case ss_reward_pool status of
                 Some pool \<Rightarrow> recent_exit_credit_claims env cid pool n
               | None \<Rightarrow> task_return []) (\<lambda>r2.
             task_return (case (r1, r2) of
                 (Inr settlements, Inr claims) \<Rightarrow> body settlements claims
               | _ \<Rightarrow> (500, None)))) s
         | _ \<Rightarrow> Some (Inr (body [] []), s))"

section \<open>Seed topology and the live connection\<close>

definition handle_seed_topology ::
  "('w, 'e) sysenv_scheme \<Rightarrow> chain_config \<Rightarrow> u32 \<Rightarrow> (('w, 'z) seedst_scheme, nat \<times> seed_snapshot option) task" where
  "handle_seed_topology env cfg max_pow =
     task_try (build_seed_topology env cfg max_pow) (\<lambda>r.
     task_return (case r of Inr snap \<Rightarrow> (200, Some snap) | Inl _ \<Rightarrow> (503, None)))"

text \<open>
  What a live connection receives from the broadcast channel, each time with the nodes in memory then,
  and whether each frame could be sent. The frames sent, the last one possibly in vain.
\<close>

datatype received = Message message | Lagged nat | Closed

fun ws_loop :: "(received \<times> node_state list) list \<Rightarrow> bool list \<Rightarrow> message list" where
  "ws_loop [] oks = []"
| "ws_loop ((Closed, nodes) # rs) oks = []"
| "ws_loop ((r, nodes) # rs) [] = []"
| "ws_loop ((Message m, nodes) # rs) (ok # oks) = m # (if ok then ws_loop rs oks else [])"
| "ws_loop ((Lagged n, nodes) # rs) (ok # oks) = ClusterMsg nodes # (if ok then ws_loop rs oks else [])"

definition handle_ws_connection ::
  "node_state list \<Rightarrow> (received \<times> node_state list) list \<Rightarrow> bool list \<Rightarrow> message list" where
  "handle_ws_connection nodes rs oks =
     (case oks of [] \<Rightarrow> [] | ok # oks' \<Rightarrow> ClusterMsg nodes # (if ok then ws_loop rs oks' else []))"

section \<open>What the handlers answer\<close>

lemma settlement_limit_bounds: "1 \<le> settlement_limit limit \<and> settlement_limit limit \<le> 500"
  by (auto simp: settlement_limit_def clamp_word_def settlement_limit_max_def word_le_nat_alt not_less Suc_le_eq unat_gt_0)

lemma healthz_sync_ok_iff:
  "handle_healthz_sync env max_age s = Some (Inr (code, body), s') \<Longrightarrow>
     code = 200 \<longleftrightarrow> hb_error body = None"
  by (auto simp: handle_healthz_sync_def Let_def task_bind_def task_try_def task_return_def
      split: option.splits prod.splits sum.splits if_splits)

lemma healthz_needs_database_only:
  fixes s :: "('w, 'z) app_scheme"
  shows "\<exists>code body s'. handle_healthz env s = Some (Inr (code, body), s') \<and>
    (code = 200 \<or> code = 503 \<and> hb_error body = Some ''database unavailable'')"
proof -
  obtain now w where n: "e_now_ms env (n_world s) = (now, w)" by (cases "e_now_ms env (n_world s)")
  obtain r s' where "ping env (s\<lparr>n_world := w\<rparr>) = Some (r, s')"
    using run_sql_Some [of env "''ping''" "query (\<lambda>t. ())"] unfolding ping_def by blast
  with n show ?thesis
    by (cases r) (simp_all add: handle_healthz_def Let_def task_bind_def now_ms_def task_try_def task_return_def)
qed

end
