(* ===== verification/Supervisor.thy ===== *)
theory Supervisor
  imports Reconcile
begin

text \<open>
  What the supervisor of the registry sync guarantees over every run of attempts and ticks: it is
  never stuck, its replay progress stays sound, an unverified set needs two full replays that
  disagreed, and forced replays are at least ten minutes apart.
\<close>

section \<open>Live steps\<close>

text \<open>Live steps may change what is served; they keep the client's invariant and the progress.\<close>

definition live :: "chain_config \<Rightarrow> ('w, 'z) app_scheme \<Rightarrow> ('w, 'z) app_scheme \<Rightarrow> bool" where
  "live cfg s s' \<longleftrightarrow> (net_ok cfg s \<longrightarrow> app.more s' = app.more s \<and> net_ok cfg s')"

definition works :: "chain_config \<Rightarrow> (('w, 'z) app_scheme, 'a) task \<Rightarrow> bool" where
  "works cfg m \<longleftrightarrow> (\<forall>s. net_ok cfg s \<longrightarrow> (\<exists>r s'. m s = Some (r, s') \<and> live cfg s s'))"

lemma live_trans: "live cfg s s1 \<Longrightarrow> live cfg s1 s2 \<Longrightarrow> live cfg s s2"
  by (auto simp: live_def)

lemma live_net_ok: "live cfg s s' \<Longrightarrow> net_ok cfg s \<Longrightarrow> net_ok cfg s'"
  by (simp add: live_def)

lemma worksD: "works cfg m \<Longrightarrow> net_ok cfg s \<Longrightarrow> \<exists>r s'. m s = Some (r, s') \<and> live cfg s s'"
  by (simp add: works_def)

lemma works_try:
  fixes m :: "(('w, 'z) app_scheme, 'a) task"
  assumes "works cfg m" and "\<And>r. works cfg (f r)"
  shows "works cfg (task_try m f)"
  unfolding works_def
proof (intro allI impI)
  fix s :: "('w, 'z) app_scheme"
  assume ok: "net_ok cfg s"
  from worksD [OF assms(1) ok] obtain r s1 where m: "m s = Some (r, s1)" and l: "live cfg s s1" by blast
  from worksD [OF assms(2) live_net_ok [OF l ok]] obtain r2 s2 where
    "f r s1 = Some (r2, s2)" and "live cfg s1 s2" by blast
  with m live_trans [OF l] show "\<exists>r s'. task_try m f s = Some (r, s') \<and> live cfg s s'"
    by (auto simp: task_try_def)
qed

lemma task_bind_try: "task_bind m f = task_try m (\<lambda>r. case r of Inl e \<Rightarrow> task_fail e | Inr a \<Rightarrow> f a)"
  by (rule ext) (auto simp: task_bind_def task_try_def task_fail_def split: option.split sum.split prod.split)

lemma works_pure:
  "works cfg (task_return a)" "works cfg (task_fail e)"
  by (simp_all add: works_def live_def task_return_def task_fail_def)

lemma works_bind:
  fixes m :: "(('w, 'z) app_scheme, 'a) task"
  assumes "works cfg m" and "\<And>a. works cfg (f a)"
  shows "works cfg (task_bind m f)"
proof -
  have "works cfg (case r of Inl e \<Rightarrow> task_fail e | Inr a \<Rightarrow> f a)" for r
    using assms(2) by (cases r) (simp_all add: works_pure)
  with assms(1) show ?thesis unfolding task_bind_try by (rule works_try)
qed

lemma works_modify: "(\<And>s. live cfg s (f s)) \<Longrightarrow> works cfg (task_modify f)"
  by (simp add: works_def task_modify_def)

lemma works_cases:
  "works cfg m \<Longrightarrow> (\<And>a. works cfg (f a)) \<Longrightarrow> works cfg (case v of None \<Rightarrow> m | Some a \<Rightarrow> f a)"
  "(\<And>a. works cfg (g a)) \<Longrightarrow> (\<And>a. works cfg (f a)) \<Longrightarrow> works cfg (case w of Inl a \<Rightarrow> g a | Inr a \<Rightarrow> f a)"
  "works cfg m \<Longrightarrow> works cfg n \<Longrightarrow> works cfg (if b then m else n)"
  "(\<And>a b. works cfg (h a b)) \<Longrightarrow> works cfg (case p of (a, b) \<Rightarrow> h a b)"
  by (cases v; cases w; cases p; auto)+

lemma works_untouched:
  fixes m :: "(('w, 'z) app_scheme, 'a) task"
  assumes "runs cfg m" and "keeps (untouched cfg) m"
  shows "works cfg m"
  using assms unfolding works_def live_def runs_def by (metis keepsD untouched_def)

lemma works_state: "(\<And>s. works cfg (f s)) \<Longrightarrow> works cfg (\<lambda>s. f s s)"
  by (simp add: works_def)

lemma works_statement:
  fixes m :: "(('w, 'z) app_scheme, 'a) task"
  assumes "runs cfg m" and "keeps db_only m"
  shows "works cfg m"
  unfolding works_def
proof (intro allI impI)
  fix s :: "('w, 'z) app_scheme"
  assume "net_ok cfg s"
  from runsD [OF assms(1) this] obtain r s' where m: "m s = Some (r, s')" and ok: "net_ok cfg s'" by blast
  from keepsD [OF assms(2) m] have "app.more s' = app.more s" by (auto simp: db_only_def)
  with m ok show "\<exists>r s'. m s = Some (r, s') \<and> live cfg s s'" by (auto simp: live_def)
qed

lemma works_view: "runs cfg m \<Longrightarrow> keeps (quiet cfg) m \<Longrightarrow> works cfg m"
  by (rule works_untouched) (auto elim: keeps_weaken untouched_quiet)

lemma works_now: "works cfg (now_ms env)"
  by (rule works_statement [OF runs_now now_ms_db])

lemma works_instant: "works cfg (instant_now env)" and works_cancelled: "works cfg (is_cancelled env)"
  by (auto simp: works_def live_def instant_now_def is_cancelled_def net_ok_def split: prod.split)

lemma works_marks:
  "works cfg (mark_synced env block v)" "works cfg (mark_caught_up env block head)"
  unfolding mark_synced_def mark_caught_up_def
  by (intro works_bind works_now works_modify; simp add: live_def net_ok_def)+

lemma live_updates:
  "live cfg s (broadcast_cluster_snapshot s') \<longleftrightarrow> live cfg s s'"
  "live cfg s (bump_topology_version s') \<longleftrightarrow> live cfg s s'"
  by (simp_all add: live_def net_ok_def broadcast_cluster_snapshot_def send_def bump_topology_version_def)

lemma live_fields [simp]:
  "live cfg s (s\<lparr>a_nodes := n\<rparr>)" "live cfg s (s\<lparr>a_sync := y\<rparr>)" "live cfg s (s\<lparr>a_probe_now := b\<rparr>)"
  "live cfg s (s\<lparr>a_nodes := n, a_metrics := m, a_pow_difficulties := d\<rparr>)"
  by (simp_all add: live_def net_ok_def)

lemma works_refresh:
  assumes "profiles_decode env cfg"
  shows "works cfg (refresh_chain_node env cfg a)"
proof -
  have info: "works cfg (retry_rpc env ''relayer profile'' (fetch_node_info env cfg a))"
    by (rule works_view [OF runs_retry [OF runs_node_info [OF assms]]])
      (unfold retry_rpc_def retry_rpc_attempts_def,
        rule retry_rpc_from_keeps [OF quiet_trans view_calls_quiet(7) backoff_pause_quiet quiet_refl])
  let ?store = "\<lambda>n. task_try (upsert_node env n) (\<lambda>r. case r of Inl e \<Rightarrow> task_return ()
      | Inr _ \<Rightarrow> task_modify (\<lambda>s. broadcast_cluster_snapshot (s\<lparr>a_nodes := AList.update (ns_address n) n (a_nodes s)\<rparr>)))"
  have store: "works cfg (?store n)" for n
    by (intro works_try works_statement runs_statements statements_db_only works_cases works_pure works_modify)
      (simp add: live_updates)
  have "works cfg (\<lambda>s. ?store (refreshed_node env cfg (live_chain_id s)
      (\<lambda>addr. map_option ns_status (map_of (a_nodes s) addr)) i) s)" for i
    by (rule works_state [of cfg "\<lambda>s. ?store (refreshed_node env cfg (live_chain_id s)
      (\<lambda>addr. map_option ns_status (map_of (a_nodes s) addr)) i)"]) (rule store)
  then show ?thesis
    unfolding refresh_chain_node_def Let_def by (intro works_try info works_cases works_pure)
qed

lemma works_remove: "works cfg (remove_chain_node env a)"
  unfolding remove_chain_node_def Let_def
  by (intro works_try works_statement runs_statements statements_db_only works_cases works_pure works_modify)
    (simp add: live_updates)

lemma works_event:
  assumes "profiles_decode env cfg"
  shows "works cfg (process_chain_event env cfg event)"
  unfolding process_chain_event_def
  by (cases event)
    (auto intro!: works_bind works_refresh [OF assms] works_remove works_modify works_pure)

lemma process_logs_Cons:
  "process_logs env cfg (lg # logs) changed = (case decode_log env cfg lg of
      None \<Rightarrow> process_logs env cfg logs changed
    | Some event \<Rightarrow> task_bind (process_chain_event env cfg event) (\<lambda>c. process_logs env cfg logs (changed \<or> c)))"
  by (rule ext) (simp split: option.split)

lemma works_logs:
  assumes "profiles_decode env cfg"
  shows "works cfg (process_logs env cfg logs changed)"
proof (induction logs arbitrary: changed)
  case Nil
  show ?case by (simp add: works_def live_def)
next
  case (Cons lg logs)
  then show ?case unfolding process_logs_Cons by (intro works_cases works_bind works_event [OF assms])
qed

lemma works_live_chunk:
  assumes "profiles_decode env cfg"
  shows "works cfg (live_chunk env cfg logs till changed :: (('w, 'z) app_scheme, bool) task)"
proof -
  let ?rest = "\<lambda>changed'. task_bind (task_modify (\<lambda>s. s\<lparr>a_sync := (a_sync s)\<lparr>sy_last_block := Some till\<rparr>\<rparr>)) (\<lambda>_.
       task_return changed')"
  let ?put = "\<lambda>s. set_checkpoint env (live_chain_id s) (cc_registry_hex cfg) till"
  have "works cfg (task_try (?put s0) (\<lambda>_. ?rest ch))" for s0 :: "('w, 'z) app_scheme" and ch
    by (intro works_try works_statement runs_statements statements_db_only works_bind works_modify works_pure live_fields)
  note put = this
  have "works cfg (\<lambda>s :: ('w, 'z) app_scheme. task_try (?put s) (\<lambda>_. ?rest ch) s)" for ch
    by (rule works_state [of cfg "\<lambda>s. task_try (?put s) (\<lambda>_. ?rest ch)"]) (rule put)
  then show ?thesis
    unfolding live_chunk_def by (intro works_bind works_logs [OF assms])
qed

text \<open>Steps of the live loop handle every error themselves.\<close>

definition nofail :: "('s, 'a) task \<Rightarrow> bool" where
  "nofail m \<longleftrightarrow> (\<forall>s e s'. m s \<noteq> Some (Inl e, s'))"

lemma nofail_bind: "nofail m \<Longrightarrow> (\<And>a. nofail (f a)) \<Longrightarrow> nofail (task_bind m f)"
  by (auto simp: nofail_def task_bind_Inl_iff)

lemma nofail_try: "(\<And>r. nofail (f r)) \<Longrightarrow> nofail (task_try m f)"
  by (auto simp: nofail_def task_try_def split: option.splits)

lemma nofail_simple [simp]: "nofail (task_return a)" "nofail (task_modify g)" "nofail (now_ms env)"
    "nofail (instant_now env)" "nofail (is_cancelled env)" "nofail (backoff_pause env n b c)" "nofail (poll_wait env d)"
  by (auto simp: nofail_def task_return_def now_ms_def instant_now_def is_cancelled_def backoff_pause_def
      poll_wait_def split: prod.splits option.splits)

lemma nofail_lambda: "(\<And>r s0. nofail (f r)) \<Longrightarrow> nofail (\<lambda>s. task_try (g s) f s)"
  "(\<And>r n. nofail (h n r)) \<Longrightarrow> nofail (\<lambda>s. task_try (g s) (h (k s)) s)"
  by (auto simp: nofail_def task_try_def split: option.splits)

lemma nofail_cases:
  "nofail m \<Longrightarrow> (\<And>a. nofail (f a)) \<Longrightarrow> nofail (case v of None \<Rightarrow> m | Some a \<Rightarrow> f a)"
  "(\<And>a. nofail (g a)) \<Longrightarrow> (\<And>a. nofail (f a)) \<Longrightarrow> nofail (case w of Inl a \<Rightarrow> g a | Inr a \<Rightarrow> f a)"
  "nofail m \<Longrightarrow> nofail n \<Longrightarrow> nofail (if b then m else n)"
  "(\<And>a b. nofail (h a b)) \<Longrightarrow> nofail (case p of (a, b) \<Rightarrow> h a b)"
  by (cases v; cases w; cases p; auto)+

lemma nofail_event: "nofail (process_chain_event env cfg event)"
  unfolding process_chain_event_def refresh_chain_node_def remove_chain_node_def Let_def
  by (cases event) (simp_all, (intro nofail_bind nofail_try nofail_cases nofail_simple nofail_lambda)+)

lemma nofail_logs: "nofail (process_logs env cfg logs changed)"
proof (induction logs arbitrary: changed)
  case Nil
  show ?case by (simp add: nofail_def)
next
  case (Cons lg logs)
  then show ?case unfolding process_logs_Cons by (intro nofail_cases nofail_bind nofail_event)
qed

lemma nofail_live_chunk: "nofail (live_chunk env cfg logs till changed)"
  unfolding live_chunk_def by (intro nofail_bind nofail_logs nofail_lambda(1) nofail_simple)

lemma worksE:
  assumes "works cfg m" and "nofail m" and "net_ok cfg s"
  obtains a s' where "m s = Some (Inr a, s')" and "live cfg s s'"
proof -
  from worksD [OF assms(1,3)] obtain r s' where m: "m s = Some (r, s')" and l: "live cfg s s'" by blast
  with assms(2) have "r \<noteq> Inl e" for e by (auto simp: nofail_def)
  with m l that show thesis by (cases r) auto
qed

section \<open>Catching up always ends\<close>

lemma catch_up_returns:
  fixes s :: "('w, 'z) app_scheme"
  assumes dec: "profiles_decode env cfg"
  shows "net_ok cfg s \<Longrightarrow> \<exists>lb ch stop s'. catch_up env cfg target last_block changed s = Some (Inr (lb, ch, stop), s') \<and>
    live cfg s s' \<and> last_block \<le> lb \<and> (last_block \<le> target \<longrightarrow> lb \<le> target)"
proof (induction "unat target - unat last_block" arbitrary: last_block changed s rule: less_induct)
  case less
  show ?case
  proof (cases "target \<le> last_block")
    case True
    then show ?thesis by (subst catch_up.simps) (auto simp: live_def)
  next
    case False
    then have lt: "unat last_block < unat target" by (simp add: not_le word_less_nat_alt)
    have "last_block \<noteq> - 1"
    proof
      assume "last_block = - 1"
      with lt have "18446744073709551615 < unat target" by (simp add: unat_all_ones)
      with unat_u64_le [of target] show False by linarith
    qed
    then have suc: "unat (last_block + 1) = unat last_block + 1" by (rule unat_next)
    with lt have le: "last_block + 1 \<le> target" by (simp add: word_le_nat_alt)
    from fetch_chunk_returns [OF less.prems le, of env "registry_filter cfg"] obtain fr s1 where
      f: "fetch_logs_chunk env cfg (last_block + 1) target s = Some (fr, s1)"
      and ok: "fetch_result_ok env cfg (registry_filter cfg) (last_block + 1) target s fr s1"
      unfolding fetch_logs_chunk_def registry_filter_def by auto
    have l1: "live cfg s s1" using ok less.prems app_more_served(4) [of s1 s]
      by (auto simp: fetch_result_ok_def frame_def live_def)
    note net1 = live_net_ok [OF l1 less.prems]
    show ?thesis
    proof (cases fr)
      case (Inl e)
      from worksE [OF works_cancelled nofail_simple(5) net1, of env] obtain stop s2 where
        "is_cancelled env s1 = Some (Inr stop, s2)" and "live cfg s1 s2" .
      with f Inl False live_trans [OF l1] show ?thesis
        by (subst catch_up.simps) (auto simp: task_try_def task_bind_def)
    next
      case (Inr p)
      obtain logs till where p: "p = (logs, till)" by (cases p)
      from ok Inr p have till: "last_block + 1 \<le> till" "till \<le> target" by (auto simp: fetch_result_ok_def)
      from worksE [OF works_live_chunk [OF dec] nofail_live_chunk net1, of logs till changed] obtain ch s2 where
        c: "live_chunk env cfg logs till changed s1 = Some (Inr ch, s2)" and l2: "live cfg s1 s2" .
      from till suc have lbt: "unat last_block < unat till" "unat till \<le> unat target"
        by (simp_all add: word_le_nat_alt)
      then have "unat target - unat till < unat target - unat last_block" by simp
      from less.hyps [OF this live_net_ok [OF l2 net1], of ch] obtain lb ch' stop s' where
        r: "catch_up env cfg target till ch s2 = Some (Inr (lb, ch', stop), s')" and l3: "live cfg s2 s'"
        and b: "till \<le> lb" "till \<le> target \<longrightarrow> lb \<le> target" by blast
      have "catch_up env cfg target last_block changed s = Some (Inr (lb, ch', stop), s')"
        using f Inr p c r False by (subst catch_up.simps) (simp add: task_try_def task_bind_def)
      moreover have "last_block \<le> lb" using lbt(1) b(1) by (simp add: word_le_nat_alt)
      ultimately show ?thesis using live_trans [OF live_trans [OF l1 l2] l3] b till(2) by blast
    qed
  qed
qed

section \<open>One tick\<close>

lemma works_note: "works cfg (note_check env not_before el r)" and nofail_note: "nofail (note_check env not_before el r)"
  unfolding note_check_def Let_def
  by (auto intro!: works_cases works_bind works_modify works_instant works_pure nofail_cases nofail_bind
      simp: note_verified_def)

lemma works_check: "works cfg (live_check env cfg not_before el :: (('w, 'z) app_scheme, _) task)"
proof -
  let ?check = "\<lambda>now (s :: ('w, 'z) app_scheme). task_try (verify_membership env cfg (live_members env s) (el_last_block el))
      (note_check env not_before (el\<lparr>el_last_verified := now\<rparr>))"
  have "works cfg (?check now s)" for now s
    by (intro works_try works_note works_view [OF runs_views(7) view_calls_quiet(9)])
  note check = this
  have "works cfg (\<lambda>s. ?check now s s)" for now
    by (rule works_state [of cfg "?check now"]) (rule check)
  then show ?thesis unfolding live_check_def by (intro works_bind works_instant)
qed

lemma nofail_check: "nofail (live_check env cfg not_before el)"
  unfolding live_check_def by (intro nofail_bind nofail_simple nofail_lambda(1) nofail_note)

lemma catch_up_Inr:
  fixes env :: "('w, 'e) sysenv_scheme" and s :: "('w, 'z) app_scheme"
  assumes "catch_up env cfg target last_block changed s = Some q"
  shows "\<exists>v. fst q = Inr v"
proof (rule catch_up.raw_induct [where P =
      "\<lambda>(env :: ('w, 'e) sysenv_scheme) cfg target lb c (s :: ('w, 'z) app_scheme) q. \<exists>v. fst q = Inr v", OF _ assms])
  fix f and env :: "('w, 'e) sysenv_scheme" and cfg target last_block changed and s :: "('w, 'z) app_scheme" and q
  assume IH: "\<And>env cfg target lb c s q. f env cfg target lb c s = Some q \<Longrightarrow> \<exists>v. fst q = Inr v"
    and run: "(if target \<le> last_block then Some (Inr (last_block, changed, False), s)
      else task_try (fetch_logs_chunk env cfg (last_block + 1) target)
            (\<lambda>r s1. case r of
                Inl e \<Rightarrow> task_bind (is_cancelled env) (\<lambda>stop s2. Some (Inr (last_block, changed, stop), s2)) s1
              | Inr logs_end \<Rightarrow> task_bind (live_chunk env cfg (fst logs_end) (snd logs_end) changed)
                     (f env cfg target (snd logs_end)) s1) s) = Some q"
  show "\<exists>v. fst q = Inr v"
  proof (cases "target \<le> last_block")
    case True
    with run show ?thesis by auto
  next
    case False
    with run obtain r :: "(log list \<times> u64) res" and s1 :: "('w, 'z) app_scheme" where r: "(case r of
          Inr logs_end \<Rightarrow>
            task_bind (live_chunk env cfg (fst logs_end) (snd logs_end) changed)
              (\<lambda>changed' s2. f env cfg target (snd logs_end) changed' s2) s1
        | Inl e \<Rightarrow>
            task_bind (is_cancelled env) (\<lambda>stop s2. Some (Inr (last_block, changed, stop), s2)) s1) = Some q"
      by (auto simp: task_try_def split: option.splits)
    show ?thesis
    proof (cases r)
      case (Inl e)
      with r show ?thesis
        using nofail_simple(5) [of env] by (auto simp: task_bind_def is_cancelled_def split: prod.splits)
    next
      case (Inr le)
      with r have *: "task_bind (live_chunk env cfg (fst le) (snd le) changed)
              (\<lambda>changed' s2. f env cfg target (snd le) changed' s2) s1 = Some q" by simp
      then obtain x s2 where l: "live_chunk env cfg (fst le) (snd le) changed s1 = Some (x, s2)"
        by (auto simp: task_bind_def split: option.splits)
      with nofail_live_chunk obtain c where "x = Inr c" unfolding nofail_def by (cases x) blast+
      with * l IH show ?thesis by (auto simp: task_bind_def)
    qed
  qed
qed

lemma nofail_catch_up: "nofail (catch_up env cfg target b c)"
  unfolding nofail_def by (auto dest: catch_up_Inr)

lemma works_tick:
  assumes "profiles_decode env cfg"
  shows "works cfg (event_tick env cfg not_before el :: (('w, 'z) app_scheme, _) task)"
proof -
  have cu: "works cfg (catch_up env cfg target b c :: (('w, 'z) app_scheme, _) task)" for target b c
    unfolding works_def using catch_up_returns [OF assms] by blast
  have af: "works cfg (after_catch_up env b t c :: (('w, 'z) app_scheme, _) task)" for b t c
    unfolding after_catch_up_def
    by (intro works_bind works_cases works_marks works_pure works_modify) (simp_all add: live_updates, simp add: live_def)
  show ?thesis
    unfolding event_tick_def Let_def
    by (intro works_try works_view runs_views view_calls_quiet works_cases works_pure works_bind cu af
        works_check works_instant)
qed

text \<open>The same of steps that may panic: whenever they come back, they are live steps.\<close>

lemma live_reflp: "reflp (live cfg)" and live_transp: "transp (live cfg)"
  by (auto simp: live_def reflp_def transp_def)

lemmas lv_bind = keeps_bind [OF live_transp]
lemmas lv_try = keeps_try [OF live_transp]
lemmas lv_pure = keeps_pure [OF live_reflp]

lemma lv_modify: "(\<And>s. live cfg s (f s)) \<Longrightarrow> keeps (live cfg) (task_modify f)"
  by (auto simp: keeps_def task_modify_def)

lemma lv_view: "keeps (quiet cfg) m \<Longrightarrow> keeps (live cfg) m"
  by (erule keeps_weaken) (auto dest!: untouched_quiet simp: untouched_def live_def)

lemma lv_statement: "keeps db_only m \<Longrightarrow> keeps (live cfg) m"
  by (erule keeps_weaken) (auto simp: db_only_def live_def net_ok_def)

lemma lv_clock: "keeps (live cfg) (instant_now env)" "keeps (live cfg) (is_cancelled env)"
  "keeps (live cfg) (now_ms env)"
  by (auto simp: keeps_def live_def instant_now_def is_cancelled_def now_ms_def net_ok_def split: prod.splits)

lemma keeps_read: "(\<And>x. keeps R (F x)) \<Longrightarrow> keeps R (\<lambda>s. F (g s) s)"
  by (auto simp: keeps_def)

lemma lv_refresh: "keeps (live cfg) (refresh_chain_node env cfg a :: (('w, 'z) app_scheme, unit) task)"
proof -
  let ?store = "\<lambda>n. task_try (upsert_node env n) (\<lambda>r. case r of Inl e \<Rightarrow> task_return ()
      | Inr _ \<Rightarrow> task_modify (\<lambda>s. broadcast_cluster_snapshot (s\<lparr>a_nodes := AList.update (ns_address n) n (a_nodes s)\<rparr>)))
      :: (('w, 'z) app_scheme, unit) task"
  have info: "keeps (live cfg) (retry_rpc env ''relayer profile'' (fetch_node_info env cfg a))"
    unfolding retry_rpc_def retry_rpc_attempts_def
    by (rule lv_view [OF retry_rpc_from_keeps [OF quiet_trans view_calls_quiet(7) backoff_pause_quiet quiet_refl]])
  have "keeps (live cfg) (?store n)" for n
    by (intro lv_try lv_statement statements_db_only keeps_cases lv_pure lv_modify) (simp add: live_updates)
  from keeps_read [of _ ?store, OF this] show ?thesis
    unfolding refresh_chain_node_def Let_def by (intro lv_try info keeps_cases lv_pure)
qed

lemma lv_remove: "keeps (live cfg) (remove_chain_node env a)"
  unfolding remove_chain_node_def Let_def
  by (intro lv_try lv_statement statements_db_only keeps_cases lv_pure lv_modify) (simp add: live_updates)

lemma lv_event: "keeps (live cfg) (process_chain_event env cfg event)"
  unfolding process_chain_event_def
  by (cases event) (auto intro!: lv_bind lv_refresh lv_remove lv_modify lv_pure)

lemma lv_logs: "keeps (live cfg) (process_logs env cfg logs changed)"
proof (induction logs arbitrary: changed)
  case Nil
  show ?case by (rule keepsI) (simp add: reflpD [OF live_reflp])
next
  case (Cons lg logs)
  then show ?case unfolding process_logs_Cons by (intro keeps_cases lv_bind lv_event)
qed

lemma lv_live_chunk: "keeps (live cfg) (live_chunk env cfg logs till changed :: (('w, 'z) app_scheme, bool) task)"
proof -
  let ?put = "\<lambda>c i. task_try (set_checkpoint env i (cc_registry_hex cfg) till) (\<lambda>_.
       task_bind (task_modify (\<lambda>s. s\<lparr>a_sync := (a_sync s)\<lparr>sy_last_block := Some till\<rparr>\<rparr>)) (\<lambda>_.
       task_return c)) :: (('w, 'z) app_scheme, bool) task"
  have "keeps (live cfg) (?put c i)" for c i
    by (intro lv_try lv_statement statements_db_only lv_bind lv_modify lv_pure live_fields)
  from keeps_read [of _ "?put _", OF this] show ?thesis
    unfolding live_chunk_def by (intro lv_bind lv_logs)
qed

lemma lv_fetch:
  fixes s s' :: "('w, 'z) app_scheme"
  assumes "fetch_logs_chunk env cfg lo hi s = Some (r, s')" and "lo \<le> hi"
  shows "live cfg s s'"
  unfolding live_def
proof
  assume ok: "net_ok cfg s"
  from fetch_chunk_returns [OF ok assms(2), of env "registry_filter cfg"] assms(1)
  have "net.more s' = net.more s" "net_ok cfg s'"
    using ok by (auto simp: fetch_logs_chunk_def registry_filter_def fetch_result_ok_def frame_def)
  with app_more_served(4) [of s' s] show "app.more s' = app.more s \<and> net_ok cfg s'" by simp
qed

lemma next_block_le: "\<not> target \<le> last_block \<Longrightarrow> last_block + 1 \<le> (target :: u64)"
  by (simp add: not_le inc_le)

lemma lv_catch_up:
  fixes env :: "('w, 'e) sysenv_scheme" and s s' :: "('w, 'z) app_scheme"
  assumes "catch_up env cfg target last_block changed s = Some (r, s')"
  shows "live cfg s s'"
proof -
  have "live cfg s (snd (r, s'))"
  proof (rule catch_up.raw_induct [where P =
        "\<lambda>(env :: ('w, 'e) sysenv_scheme) cfg target lb c (s :: ('w, 'z) app_scheme) q. live cfg s (snd q)",
        OF _ assms])
    fix f and env :: "('w, 'e) sysenv_scheme" and cfg target last_block changed and s :: "('w, 'z) app_scheme"
      and q :: "(u64 \<times> bool \<times> bool) res \<times> ('w, 'z) app_scheme"
    assume IH: "\<And>env cfg target lb c s q. f env cfg target lb c s = Some q \<Longrightarrow> live cfg s (snd q)"
      and run: "(if target \<le> last_block then Some (Inr (last_block, changed, False), s)
        else task_try (fetch_logs_chunk env cfg (last_block + 1) target)
              (\<lambda>r s1. case r of
                  Inl e \<Rightarrow> task_bind (is_cancelled env) (\<lambda>stop s2. Some (Inr (last_block, changed, stop), s2)) s1
                | Inr logs_end \<Rightarrow> task_bind (live_chunk env cfg (fst logs_end) (snd logs_end) changed)
                       (f env cfg target (snd logs_end)) s1) s) = Some q"
    show "live cfg s (snd q)"
    proof (cases "target \<le> last_block")
      case True
      with run show ?thesis by (auto simp: reflpD [OF live_reflp])
    next
      case False
      have rest: "keeps (live cfg) (\<lambda>s1. case r of
                  Inl e \<Rightarrow> task_bind (is_cancelled env) (\<lambda>stop s2. Some (Inr (last_block, changed, stop), s2)) s1
                | Inr logs_end \<Rightarrow> task_bind (live_chunk env cfg (fst logs_end) (snd logs_end) changed)
                       (f env cfg target (snd logs_end)) s1)" for r :: "(log list \<times> u64) res"
      proof (cases r)
        case (Inl e)
        have "keeps (live cfg) (task_bind (is_cancelled env)
            (\<lambda>stop (s2 :: ('w, 'z) app_scheme). Some (Inr (last_block, changed, stop), s2)))"
          by (intro lv_bind lv_clock keepsI) (auto simp: reflpD [OF live_reflp])
        with Inl show ?thesis by simp
      next
        case (Inr p)
        have "keeps (live cfg) (task_bind (live_chunk env cfg (fst p) (snd p) changed) (f env cfg target (snd p)))"
          by (intro lv_bind lv_live_chunk keepsI) (use IH in force)
        with Inr show ?thesis by simp
      qed
      from run False obtain r1 s1 where fch: "fetch_logs_chunk env cfg (last_block + 1) target s = Some (r1, s1)"
        by (auto simp: task_try_def split: option.splits)
      from live_trans [OF lv_fetch [OF fch next_block_le [OF False]] keepsD [OF rest]] run False fch show ?thesis
        by (cases q) (auto simp: task_try_def)
    qed
  qed
  then show ?thesis by simp
qed

lemma lv_check: "keeps (live cfg) (live_check env cfg not_before el :: (('w, 'z) app_scheme, _) task)"
proof -
  have noted: "keeps (live cfg) (note_check env not_before el r :: (('w, 'z) app_scheme, _) task)" for el r
    unfolding note_check_def Let_def note_verified_def
    by (intro keeps_cases lv_bind lv_modify lv_clock lv_pure live_fields)
  let ?check = "\<lambda>now members. task_try (verify_membership env cfg members (el_last_block el))
      (note_check env not_before (el\<lparr>el_last_verified := now\<rparr>)) :: (('w, 'z) app_scheme, _) task"
  have "keeps (live cfg) (?check now members)" for now members
    by (intro lv_try noted lv_view view_calls_quiet)
  from keeps_read [of _ "?check _", OF this] show ?thesis
    unfolding live_check_def by (intro lv_bind lv_clock)
qed

lemma lv_marks: "keeps (live cfg) (mark_caught_up env block head)"
  unfolding mark_caught_up_def by (intro lv_bind lv_clock lv_modify live_fields)

lemma lv_tick: "keeps (live cfg) (event_tick env cfg not_before el :: (('w, 'z) app_scheme, _) task)"
proof -
  have cu: "keeps (live cfg) (catch_up env cfg target b c :: (('w, 'z) app_scheme, _) task)" for target b c
    by (rule keepsI) (rule lv_catch_up)
  have af: "keeps (live cfg) (after_catch_up env b t c :: (('w, 'z) app_scheme, _) task)" for b t c
    unfolding after_catch_up_def
    by (intro lv_bind keeps_cases lv_marks lv_pure lv_modify) (simp add: live_updates, simp add: live_def)
  show ?thesis
    unfolding event_tick_def Let_def
    by (intro lv_try lv_view view_calls_quiet keeps_cases lv_pure lv_bind cu af lv_check lv_clock)
qed

lemma nofail_tick: "nofail (event_tick env cfg not_before el :: (('w, 'z) app_scheme, _) task)"
proof -
  have "nofail (after_catch_up env b t c :: (('w, 'z) app_scheme, _) task)" for b t c
    unfolding after_catch_up_def mark_caught_up_def by (intro nofail_bind nofail_cases nofail_simple)
  with nofail_catch_up show ?thesis
    unfolding event_tick_def Let_def
    by (intro nofail_try nofail_bind nofail_cases nofail_check nofail_simple)
qed

section \<open>The supervisor\<close>

text \<open>The clock does not go back.\<close>

definition clock_ok :: "('w, 'e) sysenv_scheme \<Rightarrow> bool" where
  "clock_ok env \<longleftrightarrow> (\<forall>w t w1 t1 w2. e_instant env w = (t, w1) \<longrightarrow> e_instant env w1 = (t1, w2) \<longrightarrow> t \<le> t1)"

text \<open>A live check asks for a replay only at a time at or after the earliest one allowed.\<close>

lemma live_check_resync:
  fixes s s' :: "('w, 'z) app_scheme"
  assumes "live_check env cfg not_before el s = Some (Inr (el', Some (Resync reason)), s')"
  shows "\<exists>t w. e_instant env w = (t, n_world s') \<and> not_before \<le> t"
proof -
  from assms obtain now r and s2 :: "('w, 'z) app_scheme" where
    "note_check env not_before (el\<lparr>el_last_verified := now\<rparr>) r s2 = Some (Inr (el', Some (Resync reason)), s')"
    by (auto simp: live_check_def task_bind_Inr_iff task_try_def split: option.splits)
  then show ?thesis
    by (auto simp: note_check_def task_bind_Inr_iff instant_now_Inr should_force_resync_def Let_def
        split: sum.splits if_splits) blast
qed

lemma event_tick_resync:
  fixes s s' :: "('w, 'z) app_scheme"
  assumes "event_tick env cfg not_before el s = Some (Inr (el', Some (Resync reason)), s')"
  shows "\<exists>t w. e_instant env w = (t, n_world s') \<and> not_before \<le> t"
  using assms
  by (auto simp: event_tick_def task_bind_Inr_iff task_try_def Let_def
      split: option.splits prod.splits sum.splits if_splits) (metis live_check_resync)+

text \<open>
  The attempt made in this state is a full replay that disagrees: the sync ends in a mismatch, and
  the registry gave another count or fingerprint than that of the set replayed from the deployment
  block to the last block.
\<close>

definition replay_disagreed ::
  "('w, 'e) sysenv_scheme \<Rightarrow> chain_config \<Rightarrow> ('w, 'z) sup_state \<Rightarrow> bool" where
  "replay_disagreed env cfg c \<longleftrightarrow> (case c of (l, s) \<Rightarrow>
     sl_mode l = Attempting \<and>
     (\<exists>w reason s1 p. e_cancelled env (n_world s) = (False, w) \<and>
        initial_chain_sync env cfg (sl_force_full l) (full_replay_mismatch_tolerance \<le> sl_full_mismatches l)
          (s\<lparr>n_world := w\<rparr>) = Some (Inl (Mismatch reason), s1) \<and>
        v_progress s1 = Some p \<and> full_replay_denied env cfg p))"

text \<open>The steps of \<open>chain_sync_steps\<close> with the states they went through, the latest first.\<close>

inductive sup_trace ::
  "('w, 'e) sysenv_scheme \<Rightarrow> chain_config \<Rightarrow> ('w, 'z) sup_state \<Rightarrow> ('w, 'z) sup_state list \<Rightarrow>
   ('w, 'z) sup_state \<Rightarrow> bool"
  for env cfg c where
  trace_start: "sup_trace env cfg c [] c"
| trace_step: "sup_trace env cfg c cs (l, s) \<Longrightarrow> sl_mode l \<noteq> Stopped \<Longrightarrow>
    sup_task env cfg l s = Some (Inr l', s') \<Longrightarrow> sup_trace env cfg c ((l, s) # cs) (l', s')"

lemma trace_of_steps: "chain_sync_steps env cfg c c' \<longleftrightarrow> (\<exists>cs. sup_trace env cfg c cs c')"
proof
  show "chain_sync_steps env cfg c c' \<Longrightarrow> \<exists>cs. sup_trace env cfg c cs c'"
    by (induction rule: chain_sync_steps.induct) (blast intro: sup_trace.intros)+
  have "sup_trace env cfg c cs c' \<Longrightarrow> chain_sync_steps env cfg c c'" for cs
    by (induction rule: sup_trace.induct) (blast intro: chain_sync_steps.intros)+
  then show "\<exists>cs. sup_trace env cfg c cs c' \<Longrightarrow> chain_sync_steps env cfg c c'" by blast
qed

text \<open>The full replays that disagreed since the supervisor last followed blocks, or started.\<close>

definition disagreements ::
  "('w, 'e) sysenv_scheme \<Rightarrow> chain_config \<Rightarrow> ('w, 'z) sup_state list \<Rightarrow> ('w, 'z) sup_state list" where
  "disagreements env cfg cs = filter (replay_disagreed env cfg) (takeWhile (\<lambda>c. sl_mode (fst c) = Attempting) cs)"

definition sup_inv ::
  "('w, 'e) sysenv_scheme \<Rightarrow> chain_config \<Rightarrow> ('w, 'z) sup_state \<Rightarrow> bool" where
  "sup_inv env cfg c \<longleftrightarrow> (case c of (l, s) \<Rightarrow>
     sup_ok env cfg s \<and>
     (\<forall>el not_before. sl_mode l = Following el not_before \<longrightarrow> sl_full_mismatches l = 0 \<and>
        (\<forall>t. sl_last_forced_resync l = Some t \<longrightarrow> not_before = t + min_resync_interval)))"

text \<open>
  What one step of the supervisor respects: only leaving the live loop forces a replay, and then not
  within ten minutes of the last one; an attempt counts up exactly when it was a full replay that
  disagreed; an unverified set is followed only at the tolerated count.
\<close>

definition forces_replay :: "sup_loop \<Rightarrow> sup_loop \<Rightarrow> bool" where
  "forces_replay l l' \<longleftrightarrow> (\<exists>el nb. sl_mode l = Following el nb) \<and> sl_mode l' = Attempting"

definition sup_respects ::
  "('w, 'e) sysenv_scheme \<Rightarrow> chain_config \<Rightarrow> ('w, 'z) sup_state \<Rightarrow> ('w, 'z) sup_state \<Rightarrow> bool" where
  "sup_respects env cfg c c' \<longleftrightarrow> (case (c, c') of ((l, s), (l', s')) \<Rightarrow>
     (forces_replay l l' \<longrightarrow> sl_force_full l' \<and> sl_full_mismatches l' = sl_full_mismatches l \<and>
        (\<exists>t' w. sl_last_forced_resync l' = Some t' \<and> e_instant env w = (t', n_world s') \<and>
           (clock_ok env \<longrightarrow> (\<forall>t. sl_last_forced_resync l = Some t \<longrightarrow> t + min_resync_interval \<le> t')))) \<and>
     (\<not> forces_replay l l' \<longrightarrow> sl_last_forced_resync l' = sl_last_forced_resync l) \<and>
     (sl_mode l = Attempting \<longrightarrow> sl_mode l' = Attempting \<longrightarrow>
        sl_full_mismatches l' = sl_full_mismatches l + (if replay_disagreed env cfg c then 1 else 0)) \<and>
     (sl_mode l = Attempting \<longrightarrow> (\<exists>el nb. sl_mode l' = Following el nb) \<longrightarrow>
        sy_verified (a_sync s') = Some False \<longrightarrow> full_replay_mismatch_tolerance \<le> sl_full_mismatches l))"

lemma sup_ok_world [simp]:
  "sup_ok env cfg (s\<lparr>n_world := w\<rparr>) \<longleftrightarrow> sup_ok env cfg s"
  "sup_ok env cfg (s\<lparr>n_jitter := j\<rparr>) \<longleftrightarrow> sup_ok env cfg s"
  "sup_ok env cfg (s\<lparr>a_sync := y\<rparr>) \<longleftrightarrow> sup_ok env cfg s"
  by (simp_all add: sup_ok_def net_ok_def)

lemma sup_ok_none: "net_ok cfg s \<Longrightarrow> v_progress s = None \<Longrightarrow> sup_ok env cfg s"
  by (simp add: sup_ok_def)

lemma live_sup_ok:
  fixes s s' :: "('w, 'z) sup_scheme"
  assumes "live cfg s s'" and "sup_ok env cfg s"
  shows "sup_ok env cfg s'"
proof -
  from assms have more: "app.more s' = app.more s" and ok: "net_ok cfg s'" by (auto simp: live_def sup_ok_def)
  from more have "v_progress s' = v_progress s" by (cases s; cases s') simp
  with assms(2) ok show ?thesis by (simp add: sup_ok_def)
qed

lemma quiet_sup_ok:
  fixes s s' :: "('w, 'z) sup_scheme"
  shows "quiet cfg s s' \<Longrightarrow> sup_ok env cfg s \<Longrightarrow> sup_ok env cfg s'"
  by (rule live_sup_ok) (auto dest!: untouched_quiet simp: untouched_def live_def)

lemma retry_later_step:
  fixes s :: "('w, 'z) sup_scheme"
  assumes "sup_ok env cfg s"
  shows "\<exists>l' s'. retry_later env e l s = Some (Inr l', s') \<and> sup_ok env cfg s' \<and>
    sl_mode l' \<in> {Stopped, Attempting} \<and> sl_last_forced_resync l' = sl_last_forced_resync l \<and>
    sl_full_mismatches l' = sl_full_mismatches l"
proof -
  obtain stopping w where c: "e_cancelled env (n_world s) = (stopping, w)" by (cases "e_cancelled env (n_world s)")
  let ?s = "s\<lparr>n_world := w, a_sync := (a_sync s)
      \<lparr>sy_phase := Retrying, sy_attempts := of_nat (sl_attempt l + 1), sy_last_error := Some e\<rparr>\<rparr>"
  obtain b s2 where p: "backoff_pause env (sl_attempt l + 1) sync_backoff_base sync_backoff_cap ?s = Some (Inr b, s2)"
    using backoff_pause_Some [OF retry_small(2)] by blast
  have "sup_ok env cfg ?s" using assms by (simp add: sup_ok_def net_ok_def)
  then have "sup_ok env cfg s2" by (rule quiet_sup_ok [OF keepsD [OF backoff_pause_quiet p]])
  with c p assms show ?thesis
    by (auto simp: retry_later_def is_cancelled_def task_bind_def task_return_def task_modify_def Let_def)
qed

lemma follow_step:
  fixes s :: "('w, 'z) sup_scheme"
  shows "\<exists>el nb w. follow env last_block l s = Some (Inr (l\<lparr>sl_attempt := 0, sl_full_mismatches := 0,
       sl_mode := Following el nb\<rparr>), s\<lparr>n_world := w\<rparr>) \<and>
    (\<forall>t. sl_last_forced_resync l = Some t \<longrightarrow> nb = t + min_resync_interval)"
  by (cases "sl_last_forced_resync l")
    (auto simp: follow_def task_bind_def task_return_def instant_now_def split: prod.split)

lemma attempt_step:
  fixes s :: "('w, 'z) sup_scheme"
  assumes run: "attempt_sync env cfg l (s\<lparr>n_world := w\<rparr>) = Some (r, s')" and c: "e_cancelled env (n_world s) = (False, w)"
    and ok: "sup_ok env cfg s" and "head_bounded env cfg" and mode: "sl_mode l = Attempting"
  shows "\<exists>l'. r = Inr l' \<and> sup_inv env cfg (l', s') \<and> sup_respects env cfg (l, s) (l', s')"
proof -
  let ?accept = "full_replay_mismatch_tolerance \<le> sl_full_mismatches l"
  from run obtain r1 s1 where i: "initial_chain_sync env cfg (sl_force_full l) ?accept (s\<lparr>n_world := w\<rparr>) = Some (r1, s1)"
    by (auto simp: attempt_sync_def split: option.splits)
  from ok have "sup_ok env cfg (s\<lparr>n_world := w\<rparr>)" by simp
  from i this assms(4) show ?thesis
  proof (rule initial_sync_ok)
    fix e
    assume r1: "r1 = Inl e" and ok1: "sup_ok env cfg s1" and mis: "mismatch_ok env cfg e s1"
    then have ok': "sup_ok env cfg (s1\<lparr>v_progress := None\<rparr>)" by (simp add: sup_ok_def net_ok_def)
    show ?thesis
    proof (cases e)
      case (RpcError m)
      have "\<not> replay_disagreed env cfg (l, s)"
        using i r1 RpcError c by (auto simp: replay_disagreed_def)
      with retry_later_step [OF ok1, of m l] show ?thesis
        using run i r1 RpcError mode
        by (auto simp: attempt_sync_def sup_inv_def sup_respects_def forces_replay_def)
    next
      case (Mismatch m)
      let ?l = "l\<lparr>sl_full_mismatches := sl_full_mismatches l + 1, sl_force_full := True\<rparr>"
      have "replay_disagreed env cfg (l, s)"
        using i r1 Mismatch c mis mode by (auto simp: replay_disagreed_def mismatch_ok_def)
      with retry_later_step [OF ok', of "''full replay disagrees with registry: '' @ m" ?l] show ?thesis
        using run i r1 Mismatch mode
        by (auto simp: attempt_sync_def sup_inv_def sup_respects_def forces_replay_def)
    qed
  next
    fix target and s0 :: "('w, 'z) sup_scheme"
    assume r1: "r1 = Inr target" and fin: "sync_done env cfg (n_chain_id s1) ?accept target s0 s1"
    then have ok1: "sup_ok env cfg s1"
      by (auto simp: sync_done_def reconciled_def sup_ok_def net_ok_def)
    from fin have ver: "sy_verified (a_sync s1) = Some False \<Longrightarrow> ?accept"
      by (auto simp: sync_done_def reconciled_def verdict_at_def)
    from follow_step [of env target l s1] show ?thesis
      using run i r1 ok1 ver mode
      by (fastforce simp: attempt_sync_def sup_inv_def sup_respects_def forces_replay_def)
  qed
qed

lemma tick_step:
  fixes s :: "('w, 'z) sup_scheme"
  assumes run: "follow_tick env cfg el not_before l s = Some (r, s')" and inv: "sup_inv env cfg (l, s)"
    and mode: "sl_mode l = Following el not_before"
  shows "\<exists>l'. r = Inr l' \<and> sup_inv env cfg (l', s') \<and> sup_respects env cfg (l, s) (l', s')"
proof -
  from inv have ok: "sup_ok env cfg s" and zero: "sl_full_mismatches l = 0"
    and nb: "\<And>t. sl_last_forced_resync l = Some t \<Longrightarrow> not_before = t + min_resync_interval"
    using mode by (auto simp: sup_inv_def)
  obtain stop w where p: "e_pause env (cc_poll_interval cfg) (n_world s) = (stop, w)"
    by (cases "e_pause env (cc_poll_interval cfg) (n_world s)")
  let ?s = "s\<lparr>n_world := w\<rparr>"
  note defs = follow_tick_def poll_wait_def task_bind_def task_return_def sup_inv_def sup_respects_def
    forces_replay_def
  show ?thesis
  proof (cases stop)
    case True
    with run p ok mode show ?thesis by (auto simp: defs)
  next
    case False
    have okw: "sup_ok env cfg ?s" using ok by simp
    from run p False obtain q1 s1 where t1: "event_tick env cfg not_before el ?s = Some (q1, s1)"
      by (auto simp: follow_tick_def poll_wait_def task_bind_def split: option.splits)
    with nofail_tick obtain q where q1: "q1 = Inr q" unfolding nofail_def by (cases q1) blast+
    note t = t1 [unfolded q1]
    have ok1: "sup_ok env cfg s1" using live_sup_ok [OF keepsD [OF lv_tick t] okw] .
    obtain el' exit where q: "q = (el', exit)" by (cases q)
    consider "exit = None" | "exit = Some Shutdown" | reason where "exit = Some (Resync reason)"
      by (cases exit) (auto, metis loop_exit.exhaust)
    then show ?thesis
    proof cases
      case 1
      with run p False t q ok1 nb zero mode show ?thesis by (auto simp: defs)
    next
      case 2
      with run p False t q ok1 mode show ?thesis by (auto simp: defs)
    next
      case (3 reason)
      from event_tick_resync [OF t [unfolded q 3]] obtain u w0 where
        u: "e_instant env w0 = (u, n_world s1)" "not_before \<le> u" by blast
      obtain t' w2 where t': "e_instant env (n_world s1) = (t', w2)" by (cases "e_instant env (n_world s1)")
      with u have "clock_ok env \<Longrightarrow> not_before \<le> t'" unfolding clock_ok_def by (meson le_trans)
      with nb have "clock_ok env \<Longrightarrow> sl_last_forced_resync l = Some t0 \<Longrightarrow> t0 + min_resync_interval \<le> t'" for t0
        by auto
      moreover have "sup_ok env cfg (s1\<lparr>n_world := w2, v_progress := None, a_sync := y\<rparr>)" for y
        using ok1 by (simp add: sup_ok_def net_ok_def)
      ultimately show ?thesis
        using run p False t q 3 t' mode
        by (auto simp: defs task_modify_def instant_now_def)
    qed
  qed
qed

lemma sup_step:
  fixes s :: "('w, 'z) sup_scheme"
  assumes run: "sup_task env cfg l s = Some (r, s')" and inv: "sup_inv env cfg (l, s)"
    and hb: "head_bounded env cfg" and "sl_mode l \<noteq> Stopped"
  shows "\<exists>l'. r = Inr l' \<and> sup_inv env cfg (l', s') \<and> sup_respects env cfg (l, s) (l', s')"
proof (cases "sl_mode l")
  case Stopped
  with assms(4) show ?thesis by simp
next
  case (Following el not_before)
  with run have "follow_tick env cfg el not_before l s = Some (r, s')" by (simp add: sup_task_def)
  from tick_step [OF this inv Following] show ?thesis .
next
  case Attempting
  obtain stopping w where c: "e_cancelled env (n_world s) = (stopping, w)" by (cases "e_cancelled env (n_world s)")
  from inv have ok: "sup_ok env cfg s" by (simp add: sup_inv_def)
  show ?thesis
  proof (cases stopping)
    case True
    with run Attempting c ok show ?thesis
      by (auto simp: sup_task_def start_attempt_def is_cancelled_def task_bind_def task_return_def sup_inv_def
          sup_respects_def forces_replay_def)
  next
    case False
    with run Attempting c have "attempt_sync env cfg l (s\<lparr>n_world := w\<rparr>) = Some (r, s')"
      by (simp add: sup_task_def start_attempt_def is_cancelled_def task_bind_def)
    moreover from c False have "e_cancelled env (n_world s) = (False, w)" by simp
    ultimately show ?thesis using ok hb Attempting by (rule attempt_step)
  qed
qed

text \<open>It can step unless an answer makes the profile decoder or the reading of the chain id panic.\<close>

lemma sup_returns:
  fixes s :: "('w, 'z) sup_scheme"
  assumes inv: "sup_inv env cfg (l, s)" and hb: "head_bounded env cfg" and dec: "profiles_decode env cfg"
    and ids: "\<forall>i n. endpoint_gave (e_chain_id env) i () n \<longrightarrow> as_u64 n \<noteq> None"
  shows "\<exists>r s'. sup_task env cfg l s = Some (r, s')"
proof (cases "sl_mode l")
  case Stopped
  then show ?thesis by (simp add: sup_task_def task_return_def)
next
  case (Following el not_before)
  obtain stop w where p: "e_pause env (cc_poll_interval cfg) (n_world s) = (stop, w)"
    by (cases "e_pause env (cc_poll_interval cfg) (n_world s)")
  have "net_ok cfg (s\<lparr>n_world := w\<rparr>)" using inv by (simp add: sup_inv_def sup_ok_def net_ok_def)
  from worksD [OF works_tick [OF dec] this, of not_before el] obtain q s1 where
    "event_tick env cfg not_before el (s\<lparr>n_world := w\<rparr>) = Some (q, s1)" by blast
  with p Following show ?thesis
    by (auto simp: sup_task_def follow_tick_def poll_wait_def task_bind_def task_return_def task_modify_def
        instant_now_def split: sum.split option.split loop_exit.split prod.split)
next
  case Attempting
  obtain stopping w where c: "e_cancelled env (n_world s) = (stopping, w)" by (cases "e_cancelled env (n_world s)")
  have ok: "sup_ok env cfg (s\<lparr>n_world := w\<rparr>)" using inv by (simp add: sup_inv_def)
  from initial_sync_returns [OF ok hb dec ids] obtain r1 s1 where
    i: "initial_chain_sync env cfg (sl_force_full l) (full_replay_mismatch_tolerance \<le> sl_full_mismatches l)
      (s\<lparr>n_world := w\<rparr>) = Some (r1, s1)" by blast
  have later: "\<exists>r s'. retry_later env e k t = Some (r, s')" if "sup_ok env cfg t" for e k and t :: "('w, 'z) sup_scheme"
    using retry_later_step [OF that] by blast
  have ok1: "sup_ok env cfg s1" if "r1 = Inl e" for e
    using i ok hb that by (auto elim!: initial_sync_ok)
  have "\<exists>r s'. attempt_sync env cfg l (s\<lparr>n_world := w\<rparr>) = Some (r, s')"
  proof (cases r1)
    case (Inr target)
    with i follow_step [of env target l s1] show ?thesis by (auto simp: attempt_sync_def)
  next
    case (Inl e)
    from ok1 [OF Inl] have "sup_ok env cfg (s1\<lparr>v_progress := None\<rparr>)" by (simp add: sup_ok_def net_ok_def)
    with i Inl later ok1 [OF Inl] show ?thesis by (cases e) (simp_all add: attempt_sync_def)
  qed
  with Attempting c show ?thesis
    by (cases stopping) (simp_all add: sup_task_def start_attempt_def is_cancelled_def task_bind_def task_return_def)
qed

lemma trace_inv:
  fixes c' :: "('w, 'z) sup_state"
  assumes "sup_trace env cfg (sup_start, s0) cs c'" and "sup_inv env cfg (sup_start, s0)" and hb: "head_bounded env cfg"
  shows "sup_inv env cfg c' \<and>
    (sl_mode (fst c') = Attempting \<longrightarrow> sl_full_mismatches (fst c') = length (disagreements env cfg cs))"
  using assms(1,2)
proof (induction rule: sup_trace.induct)
  case trace_start
  then show ?case by (simp add: disagreements_def sup_start_def)
next
  case (trace_step cs l s l' s')
  then have inv: "sup_inv env cfg (l, s)"
    and cnt: "sl_mode l = Attempting \<Longrightarrow> sl_full_mismatches l = length (disagreements env cfg cs)" by auto
  from sup_step [OF trace_step.hyps(3) inv hb trace_step.hyps(2)]
  have inv': "sup_inv env cfg (l', s')" and res: "sup_respects env cfg (l, s) (l', s')" by simp_all
  have "sl_full_mismatches l' = length (disagreements env cfg ((l, s) # cs))" if m': "sl_mode l' = Attempting"
  proof (cases "sl_mode l")
    case Attempting
    with res m' cnt show ?thesis by (simp add: sup_respects_def disagreements_def)
  next
    case (Following el nb)
    with res inv m' show ?thesis by (simp add: sup_respects_def sup_inv_def forces_replay_def disagreements_def)
  next
    case Stopped
    with trace_step.hyps(2) show ?thesis by simp
  qed
  with inv' show ?case by simp
qed


section \<open>A registry that never agrees\<close>

text \<open>The registry counts one node that no log names; the clock moves five minutes per reading.\<close>

definition deny_sys :: "nat sysenv" where
  "deny_sys = env.extend (ext.extend demo_ext
     (env.fields (\<lambda>_ _ w. (Served [], w)) (\<lambda>_ _ w. (Served 50, w)) (\<lambda>_ _ w. (Served 421614, w))
        (\<lambda>_ _ w. (Served [1], w)) (\<lambda>_ _ w. (Served None, w)) (\<lambda>w. (0, w)) (\<lambda>_ w. (False, w))))
     (sysenv.fields (\<lambda>_ w. (Done, w)) (\<lambda>w. (1700000000000, w)) (\<lambda>w. (w * 300000000000, w + 1))
        (\<lambda>w. (False, w)) None False (\<lambda>_. ''{}'') (\<lambda>_. Some zero_totals) Inr)"

definition deny_start :: "nat sup" where
  "deny_start = app.extend (dbst.extend
     (net.extend \<lparr>n_chunk = chunk_new 50000 500 1000000, n_chain_id = 0,
        n_transport = \<lparr>preferred = 0, logs_served_by = 0\<rparr>, n_jitter = 0, n_world = 0\<rparr>
      (dbst.fields empty_tables))
     (app.fields [] [] [] [] (topo_dedup_new 0) [] [] (default_sync ''0xbb'') 0 None False None
        default_settlement_status)) (sup.fields None)"

lemmas deny_defs = deny_sys_def demo_ext_def example_ext_def ext.defs env.defs sysenv.defs

lemma deny_sel [simp]:
  "e_block_number deny_sys u i w = (Served 50, w)" "e_chain_id deny_sys u i w = (Served 421614, w)"
  "e_call deny_sys q i w = (Served [1], w)" "e_nanos deny_sys w = (0, w)" "e_pause deny_sys d w = (False, w)"
  "e_db deny_sys name w = (Done, w)" "e_now_ms deny_sys w = (1700000000000, w)"
  "e_instant deny_sys w = (w * 300000000000, w + 1)" "e_cancelled deny_sys w = (False, w)"
  "x_count_result deny_sys b = Inr (from_big_endian b)" "x_fingerprint_result deny_sys b = Inr (from_big_endian b)"
  by (simp_all add: deny_defs)

lemma deny_request [simp]:
  assumes "call p 0 (n_world s) = (Served v, n_world s)" and "preferred (n_transport s) = 0" and "meth \<noteq> ''eth_getLogs''"
  shows "rpc_request demo_cfg meth call p show_error s = Some (Inr v, s)"
  using request_single [of call p "n_world s" v "n_transport s" meth] assms
  by (simp add: rpc_request_def demo_cfg_def)

lemma deny_sql [simp]:
  "run_sql deny_sys name stmt s =
     (case stmt (d_tables s) of Inl e \<Rightarrow> Some (Inl e, s)
      | Inr (a, t) \<Rightarrow> Some (Inr a, s\<lparr>d_tables := t\<rparr>))"
  by (simp add: run_sql_def split: sum.split)

lemma deny_now [simp]: "now_ms deny_sys s = Some (Inr 1700000000000, s)"
  and deny_instant [simp]: "instant_now deny_sys s = Some (Inr (n_world s * 300000000000), s\<lparr>n_world := n_world s + 1\<rparr>)"
  and deny_cancelled [simp]: "is_cancelled deny_sys s = Some (Inr False, s)"
  by (simp_all add: now_ms_def instant_now_def is_cancelled_def)

lemma deny_head [simp]: "preferred (n_transport s) = 0 \<Longrightarrow> safe_head deny_sys demo_cfg s = Some (Inr 30, s)"
  by (simp add: safe_head_def current_block_def task_bind_def task_return_def sat_sub_def)
    (simp add: demo_cfg_def)

lemma deny_membership:
  assumes "preferred (n_transport s) = 0"
  shows "\<exists>reason. verify_membership deny_sys demo_cfg {} block s = Some (Inr (Inl reason), s)"
proof -
  have "membership_at deny_sys demo_cfg block s = Some (Inr (1, 1), s)"
    using assms by (simp add: membership_at_def contract_call_def eth_call_def task_defs from_big_endian_def)
  then show ?thesis by (simp add: verify_membership_def task_bind_def task_return_def validate_pinned_membership_def)
qed

lemma deny_checked:
  fixes s :: "(nat, 'z) sup_scheme"
  assumes "preferred (n_transport s) = 0"
  obtains reason where "retry_rpc_attempts deny_sys what k (verify_membership deny_sys demo_cfg {} block) s = Some (Inr (Inl reason), s)"
proof -
  obtain reason where "verify_membership deny_sys demo_cfg {} block s = Some (Inr (Inl reason), s)"
    using deny_membership [OF assms] by blast
  then have "retry_rpc_attempts deny_sys what k (verify_membership deny_sys demo_cfg {} block) s = Some (Inr (Inl reason), s)"
    by (rule demo_retry(1))
  then show thesis by (rule that)
qed

text \<open>The states between the attempts.\<close>

definition deny_between :: "sup_loop \<Rightarrow> nat sup \<Rightarrow> bool" where
  "deny_between l s \<longleftrightarrow>
     preferred (n_transport s) = 0 \<and> v_progress s = None \<and> n_chain_id s \<in> {0, 421614} \<and>
     a_nodes s = [] \<and> t_nodes (d_tables s) = [] \<and> (sl_force_full l \<or> t_checkpoints (d_tables s) = [])"

definition deny_progress :: replay_progress where
  "deny_progress = \<lparr>pr_chain_id = 421614, pr_plan = Full 100, pr_next_block = 100, pr_members = {}\<rparr>"

lemma deny_rounds:
  fixes s :: "nat sup"
  assumes "preferred (n_transport s) = 0" and "v_progress s = Some deny_progress"
  obtains reason where "verify_rounds deny_sys demo_cfg 0 s = Some (Inr (99, Inl reason), s\<lparr>n_world := n_world s + 1\<rparr>)"
proof -
  let ?s = "s\<lparr>n_world := n_world s + 1\<rparr>"
  have sc: "scan_membership deny_sys demo_cfg 99 s = Some (Inr (), ?s)"
    using assms(2) by (subst scan_membership_past [of _ deny_progress]) (simp_all add: deny_progress_def)
  have p: "preferred (n_transport ?s) = 0" "v_progress ?s = Some deny_progress" using assms by simp_all
  obtain reason where c: "retry_rpc_attempts deny_sys ''registry membership check'' same_block_verify_attempts
      (verify_membership deny_sys demo_cfg {} 99) ?s = Some (Inr (Inl reason), ?s)"
    by (rule deny_checked [OF p(1)])
  have "max (30 :: u64) (sat_sub 100 1) = 99" by (simp add: sat_sub_def)
  then have "verify_round deny_sys demo_cfg s = Some (Inr (99, Inr (Inl reason)), ?s)"
    using assms p sc c
    by (simp add: verify_round_def task_bind_def task_try_def task_return_def Let_def deny_progress_def)
  then have "verify_rounds deny_sys demo_cfg 0 s = Some (Inr (99, Inl reason), ?s)"
    by (subst verify_rounds.simps) (simp add: task_bind_def task_return_def)
  then show thesis by (rule that)
qed

lemma deny_chain_id:
  assumes "preferred (n_transport s) = 0" and "n_chain_id s \<in> {0, 421614}"
  shows "chain_id deny_sys demo_cfg s = Some (Inr 421614, s\<lparr>n_chain_id := 421614\<rparr>)"
proof -
  have "as_u64 421614 = Some 421614" by (simp add: as_u64_def)
  with assms show ?thesis
    by (auto simp: chain_id_def task_bind_def task_modify_def task_return_def)
      (simp_all add: demo_cfg_def)
qed

lemma deny_new_progress:
  fixes s :: "nat sup"
  assumes "force \<or> t_checkpoints (d_tables s) = []"
  shows "new_progress deny_sys demo_cfg 421614 force s = Some (Inr deny_progress, s)"
proof -
  obtain cp where g: "get_checkpoint deny_sys 421614 (cc_registry_hex demo_cfg) s = Some (Inr cp, s)"
    and cp: "t_checkpoints (d_tables s) = [] \<Longrightarrow> cp = None"
    by (auto simp: get_checkpoint_def task_bind_def task_return_def query_def)
  from assms cp have "plan_sync cp (cc_from_block demo_cfg) force = Full 100"
    by (auto simp: plan_sync_def demo_cfg_def split: option.split)
  with g show ?thesis
    by (simp add: new_progress_def task_bind_def task_map_err_def task_return_def Let_def deny_progress_def plan_start_def)
qed

lemma deny_pause:
  assumes "as_millis (cap div 2) < 2 ^ 64 - 1"
  obtains j where "backoff_pause deny_sys n base cap s = Some (Inr False, s\<lparr>n_jitter := j\<rparr>)"
proof -
  obtain b s' where p: "backoff_pause deny_sys n base cap s = Some (Inr b, s')" using backoff_pause_Some [OF assms] by blast
  then obtain j where "b = False" and "s' = s\<lparr>n_jitter := j\<rparr>"
    by (auto simp: backoff_pause_def split: prod.splits option.splits)
  with p that show thesis by blast
qed

text \<open>Every pass denies the empty set at block 99.\<close>

lemma deny_pass:
  fixes s :: "nat sup"
  assumes d: "deny_between l s" and cid: "n_chain_id s = 421614"
  obtains reason s1 where "s1 = s\<lparr>v_progress := Some deny_progress, n_world := n_world s + 1\<rparr>"
    and "sync_pass deny_sys demo_cfg 421614 (sl_force_full l) accept s =
      (if accept
       then sync_step (reconcile_membership deny_sys demo_cfg 421614 {} 99 False)
         (\<lambda>_ s2. Some (Inr (Inr 99), s2\<lparr>v_progress := None\<rparr>)) s1
       else Some (Inl (Mismatch reason), s1))"
proof -
  let ?s = "s\<lparr>v_progress := Some deny_progress\<rparr>"
  have e: "ensure_progress deny_sys demo_cfg 421614 (sl_force_full l) s = Some (Inr (), ?s)"
    using d deny_new_progress [of "sl_force_full l" s]
    by (simp add: ensure_progress_def deny_between_def task_bind_def task_modify_def)
  have "preferred (n_transport ?s) = 0" "v_progress ?s = Some deny_progress" using d by (simp_all add: deny_between_def)
  then obtain reason where "verify_rounds deny_sys demo_cfg 0 ?s = Some (Inr (99, Inl reason), ?s\<lparr>n_world := n_world ?s + 1\<rparr>)"
    by (rule deny_rounds)
  with e have "sync_pass deny_sys demo_cfg 421614 (sl_force_full l) accept s =
      (if accept
       then sync_step (reconcile_membership deny_sys demo_cfg 421614 {} 99 False)
         (\<lambda>_ s2. Some (Inr (Inr 99), s2\<lparr>v_progress := None\<rparr>)) (s\<lparr>v_progress := Some deny_progress, n_world := n_world s + 1\<rparr>)
       else Some (Inl (Mismatch reason), s\<lparr>v_progress := Some deny_progress, n_world := n_world s + 1\<rparr>))"
    by (simp add: sync_pass_def sync_step_def deny_progress_def is_resume_def)
  with that show thesis by blast
qed

lemma deny_begin:
  assumes "deny_between l s"
  shows "initial_chain_sync deny_sys demo_cfg ff acc s =
    sync_loop deny_sys demo_cfg 421614 ff acc (begin_sync 421614 (s\<lparr>n_chain_id := 421614\<rparr>))"
    and "deny_between l (begin_sync 421614 (s\<lparr>n_chain_id := 421614\<rparr>))"
    and "n_chain_id (begin_sync 421614 (s\<lparr>n_chain_id := 421614\<rparr>)) = 421614"
    and "n_world (begin_sync 421614 (s\<lparr>n_chain_id := 421614\<rparr>)) = n_world s"
  using assms deny_chain_id [of s]
  by (simp_all add: initial_chain_sync_def sync_step_def deny_between_def begin_sync_def)

lemma deny_attempt:
  assumes d: "deny_between l s" and m: "sl_mode l = Attempting" and few: "sl_full_mismatches l < 2"
  obtains s' where "sup_task deny_sys demo_cfg l s = Some (Inr (l\<lparr>sl_full_mismatches := sl_full_mismatches l + 1,
      sl_force_full := True, sl_attempt := sl_attempt l + 1\<rparr>), s')"
    and "deny_between (l\<lparr>sl_full_mismatches := sl_full_mismatches l + 1, sl_force_full := True,
      sl_attempt := sl_attempt l + 1\<rparr>) s'" and "n_world s' = n_world s + 1"
proof -
  let ?b = "begin_sync 421614 (s\<lparr>n_chain_id := 421614\<rparr>)"
  let ?l = "l\<lparr>sl_full_mismatches := sl_full_mismatches l + 1, sl_force_full := True\<rparr>"
  note b = deny_begin [OF d]
  obtain reason s1 where s1: "s1 = ?b\<lparr>v_progress := Some deny_progress, n_world := n_world ?b + 1\<rparr>"
    and p: "sync_pass deny_sys demo_cfg 421614 (sl_force_full l) False ?b = Some (Inl (Mismatch reason), s1)"
    using deny_pass [OF b(2,3), of False] by (metis (no_types))
  have i: "initial_chain_sync deny_sys demo_cfg (sl_force_full l) False s = Some (Inl (Mismatch reason), s1)"
    unfolding b(1) by (simp add: sync_loop_pass p)
  let ?s2 = "s1\<lparr>v_progress := None\<rparr>"
  let ?e = "''full replay disagrees with registry: '' @ reason"
  let ?s3 = "?s2\<lparr>a_sync := (a_sync ?s2)\<lparr>sy_phase := Retrying, sy_attempts := of_nat (sl_attempt l + 1), sy_last_error := Some ?e\<rparr>\<rparr>"
  obtain j where "backoff_pause deny_sys (sl_attempt l + 1) sync_backoff_base sync_backoff_cap ?s3 = Some (Inr False, ?s3\<lparr>n_jitter := j\<rparr>)"
    by (rule deny_pause [OF retry_small(2)])
  then have r: "retry_later deny_sys ?e ?l ?s2 = Some (Inr (?l\<lparr>sl_attempt := sl_attempt l + 1, sl_mode := Attempting\<rparr>), ?s3\<lparr>n_jitter := j\<rparr>)"
    by (simp add: retry_later_def task_bind_def task_modify_def task_return_def Let_def)
  have "sup_task deny_sys demo_cfg l s = Some (Inr (?l\<lparr>sl_attempt := sl_attempt l + 1, sl_mode := Attempting\<rparr>), ?s3\<lparr>n_jitter := j\<rparr>)"
    using m few i r
    by (simp add: sup_task_def start_attempt_def attempt_sync_def task_bind_def full_replay_mismatch_tolerance_def)
  moreover have "?l\<lparr>sl_attempt := sl_attempt l + 1, sl_mode := Attempting\<rparr> = ?l\<lparr>sl_attempt := sl_attempt l + 1\<rparr>"
    using m by (cases l) simp
  ultimately show thesis
    using b(2,4) s1 by (intro that [of "?s3\<lparr>n_jitter := j\<rparr>"]) (simp_all add: deny_between_def)
qed

text \<open>The third attempt follows block 99 with the empty set.\<close>

definition deny_following :: "event_loop \<Rightarrow> nat \<Rightarrow> nat sup \<Rightarrow> bool" where
  "deny_following el nb s \<longleftrightarrow>
     preferred (n_transport s) = 0 \<and> v_progress s = None \<and> n_chain_id s = 421614 \<and>
     a_nodes s = [] \<and> t_nodes (d_tables s) = [] \<and> el_last_block el = 99 \<and>
     el_last_verified el + verify_interval \<le> n_world s * 300000000000 \<and> nb \<le> n_world s * 300000000000"

lemma deny_reconcile:
  fixes s :: "nat sup"
  assumes "a_nodes s = []" and "t_nodes (d_tables s) = []"
  obtains s' where "reconcile_membership deny_sys demo_cfg 421614 {} 99 False s = Some (Inr (), s')"
    and "n_transport s' = n_transport s" and "n_chain_id s' = n_chain_id s" and "n_world s' = n_world s"
    and "a_nodes s' = []" and "t_nodes (d_tables s') = []" and "sy_verified (a_sync s') = Some False"
  using assms
  by (simp add: reconcile_membership_def task_bind_def task_return_def task_modify_def task_map_err_def
      deregister_nodes_except_def set_checkpoint_def mark_synced_def Let_def install_members_def
      announce_members_def bump_topology_version_def broadcast_cluster_snapshot_def send_def map_rows_def)

lemma deny_accept:
  assumes d: "deny_between l s" and m: "sl_mode l = Attempting" and many: "2 \<le> sl_full_mismatches l"
    and last: "\<And>t. sl_last_forced_resync l = Some t \<Longrightarrow> t + min_resync_interval \<le> (n_world s + 1) * 300000000000"
  obtains el nb s' where "sup_task deny_sys demo_cfg l s = Some (Inr (l\<lparr>sl_attempt := 0, sl_full_mismatches := 0,
      sl_mode := Following el nb\<rparr>), s')"
    and "deny_following el nb s'" and "el_mismatches el = 0" and "sy_verified (a_sync s') = Some False"
proof -
  let ?b = "begin_sync 421614 (s\<lparr>n_chain_id := 421614\<rparr>)"
  note b = deny_begin [OF d]
  obtain s1 where s1: "s1 = ?b\<lparr>v_progress := Some deny_progress, n_world := n_world ?b + 1\<rparr>"
    and p: "sync_pass deny_sys demo_cfg 421614 (sl_force_full l) True ?b =
      sync_step (reconcile_membership deny_sys demo_cfg 421614 {} 99 False)
         (\<lambda>_ s2. Some (Inr (Inr 99), s2\<lparr>v_progress := None\<rparr>)) s1"
    using deny_pass [OF b(2,3), of True] by (metis (no_types))
  have "a_nodes s1 = []" and "t_nodes (d_tables s1) = []" using b(2) s1 by (simp_all add: deny_between_def)
  then obtain s2 where rc: "reconcile_membership deny_sys demo_cfg 421614 {} 99 False s1 = Some (Inr (), s2)"
    and s2: "n_transport s2 = n_transport s1" "n_chain_id s2 = n_chain_id s1" "n_world s2 = n_world s1"
      "a_nodes s2 = []" "t_nodes (d_tables s2) = []" "sy_verified (a_sync s2) = Some False"
    by (rule deny_reconcile)
  let ?s3 = "s2\<lparr>v_progress := None\<rparr>"
  have i: "initial_chain_sync deny_sys demo_cfg (sl_force_full l) True s = Some (Inr 99, ?s3)"
    unfolding b(1) by (simp add: sync_loop_pass p sync_step_def rc)
  have w: "n_world ?s3 = n_world s + 1" "n_transport ?s3 = n_transport ?b" "n_chain_id ?s3 = 421614"
    using s2 s1 b(3,4) by simp_all
  have step: "sup_task deny_sys demo_cfg l s = follow deny_sys 99 l ?s3"
    using m many i by (simp add: sup_task_def start_attempt_def attempt_sync_def task_bind_def full_replay_mismatch_tolerance_def)
  have tr: "preferred (n_transport ?b) = 0" using b(2) by (simp add: deny_between_def)
  show thesis
  proof (cases "sl_last_forced_resync l")
    case None
    let ?w = "n_world s + 1"
    let ?el = "\<lparr>el_last_block = 99, el_last_verified = (?w + 1) * 300000000000, el_mismatches = 0\<rparr>"
    have "follow deny_sys 99 l ?s3 = Some (Inr (l\<lparr>sl_attempt := 0, sl_full_mismatches := 0,
        sl_mode := Following ?el (?w * 300000000000)\<rparr>), ?s3\<lparr>n_world := ?w + 2\<rparr>)"
      using None w by (simp add: follow_def task_bind_def task_return_def)
    with step w tr s2 show thesis
      by (intro that [of ?el "?w * 300000000000" "?s3\<lparr>n_world := ?w + 2\<rparr>"])
        (simp_all add: deny_following_def verify_interval_def)
  next
    case (Some t)
    let ?w = "n_world s + 1"
    let ?el = "\<lparr>el_last_block = 99, el_last_verified = ?w * 300000000000, el_mismatches = 0\<rparr>"
    have "follow deny_sys 99 l ?s3 = Some (Inr (l\<lparr>sl_attempt := 0, sl_full_mismatches := 0,
        sl_mode := Following ?el (t + min_resync_interval)\<rparr>), ?s3\<lparr>n_world := ?w + 1\<rparr>)"
      using Some w by (simp add: follow_def task_bind_def task_return_def)
    with step w tr s2 last [OF Some] show thesis
      by (intro that [of ?el "t + min_resync_interval" "?s3\<lparr>n_world := ?w + 1\<rparr>"])
        (simp_all add: deny_following_def verify_interval_def)
  qed
qed

text \<open>A tick finds no new block and asks the registry, which denies the set.\<close>

lemma deny_tick:
  assumes f: "deny_following el nb s" and m: "sl_mode l = Following el nb"
  obtains s' el' where "sup_task deny_sys demo_cfg l s = Some (Inr
      (if el_mismatches el = 0 then l\<lparr>sl_mode := Following el' nb\<rparr>
       else l\<lparr>sl_last_forced_resync := Some (n_world s' * 300000000000 - 300000000000), sl_force_full := True,
         sl_mode := Attempting\<rparr>), s')"
    and "el_mismatches el = 0 \<Longrightarrow> deny_following el' nb s' \<and> el_mismatches el' = 1"
    and "deny_between (l\<lparr>sl_last_forced_resync := t, sl_force_full := True, sl_mode := Attempting\<rparr>) s'"
    and "n_world s < n_world s'"
proof -
  have tr: "preferred (n_transport s) = 0" and nodes: "a_nodes s = []" and lb: "el_last_block el = 99"
    and due: "el_last_verified el + verify_interval \<le> n_world s * 300000000000" and nb: "nb \<le> n_world s * 300000000000"
    using f by (simp_all add: deny_following_def)
  let ?w = "n_world s"
  let ?y = "(a_sync s)\<lparr>sy_last_block := Some 99, sy_scan_block := Some 99, sy_head_block := Some 30,
      sy_last_synced_at_ms := Some 1700000000000\<rparr>"
  let ?s1 = "s\<lparr>a_sync := ?y\<rparr>"
  let ?el = "el\<lparr>el_last_verified := (?w + 1) * 300000000000, el_mismatches := el_mismatches el + 1\<rparr>"
  let ?s2 = "?s1\<lparr>n_world := ?w + 3, a_sync := ?y\<lparr>sy_verified := Some False\<rparr>\<rparr>"
  have after: "after_catch_up deny_sys 99 30 False s = Some (Inr (), ?s1)"
    by (simp add: after_catch_up_def mark_caught_up_def task_bind_def task_modify_def task_return_def)
  have none: "live_members deny_sys t = {}" if "a_nodes t = []" for t :: "nat sup"
    using that by (simp add: live_members_def)
  have "preferred (n_transport (?s1\<lparr>n_world := Suc (Suc ?w)\<rparr>)) = 0" using tr by simp
  from deny_membership [OF this] obtain reason where
    v: "verify_membership deny_sys demo_cfg {} 99 (?s1\<lparr>n_world := Suc (Suc ?w)\<rparr>) =
      Some (Inr (Inl reason), ?s1\<lparr>n_world := Suc (Suc ?w)\<rparr>)" by blast
  define exit where "exit = (if el_mismatches el = 0 then None else Some (Resync reason))"
  have chk: "live_check deny_sys demo_cfg nb el (?s1\<lparr>n_world := Suc ?w\<rparr>) = Some (Inr (?el, exit), ?s2)"
    using v nb nodes none [of "?s1\<lparr>n_world := Suc (Suc ?w)\<rparr>"] lb
    by (cases el) (auto simp: live_check_def note_check_def note_verified_def task_bind_def task_try_def
        task_modify_def task_return_def Let_def should_force_resync_def mismatches_before_resync_def exit_def)
  have cu: "catch_up deny_sys demo_cfg 30 99 False s = Some (Inr (99, False, False), s)"
    by (subst catch_up.simps) simp
  have same: "el\<lparr>el_last_block := 99\<rparr> = el" using lb by (cases el) simp
  have late: "\<not> n_world ?s1 * 300000000000 - el_last_verified el < verify_interval" using due by simp
  have tick: "event_tick deny_sys demo_cfg nb el s = Some (Inr (?el,
      exit), ?s2)"
    unfolding event_tick_def
    using tr lb late
    by (simp add: task_try_def cu task_bind_def same after chk Let_def)
  have wait: "poll_wait deny_sys (cc_poll_interval demo_cfg) s = Some (Inr False, s)"
    by (simp add: poll_wait_def)
  show thesis
  proof (cases "el_mismatches el = 0")
    case True
    have "sup_task deny_sys demo_cfg l s = Some (Inr (l\<lparr>sl_mode := Following ?el nb\<rparr>), ?s2)"
      using m True by (simp add: exit_def sup_task_def follow_tick_def task_bind_def wait tick task_return_def)
    with True f show thesis
      by (intro that [of ?el ?s2]) (simp_all add: deny_following_def deny_between_def verify_interval_def)
  next
    case False
    let ?s3 = "?s2\<lparr>n_world := ?w + 4, v_progress := None, a_sync := (a_sync ?s2)\<lparr>sy_phase := Syncing\<rparr>\<rparr>"
    have "sup_task deny_sys demo_cfg l s = Some (Inr (l\<lparr>sl_last_forced_resync := Some ((?w + 3) * 300000000000),
        sl_force_full := True, sl_mode := Attempting\<rparr>), ?s3)"
      using m False by (simp add: exit_def sup_task_def follow_tick_def task_bind_def wait tick task_return_def task_modify_def)
    with False f show thesis
      by (intro that [of ?el ?s3]) (simp_all add: deny_following_def deny_between_def)
  qed
qed

lemma deny_first_tick:
  assumes f: "deny_following el nb s" and m: "sl_mode l = Following el nb" and z: "el_mismatches el = 0"
  obtains s' el' where "sup_task deny_sys demo_cfg l s = Some (Inr (l\<lparr>sl_mode := Following el' nb\<rparr>), s')"
    and "deny_following el' nb s'" and "el_mismatches el' = 1"
proof (rule deny_tick [OF f m])
  fix s' :: "nat sup" and el'
  assume "sup_task deny_sys demo_cfg l s = Some (Inr
      (if el_mismatches el = 0 then l\<lparr>sl_mode := Following el' nb\<rparr>
       else l\<lparr>sl_last_forced_resync := Some (n_world s' * 300000000000 - 300000000000), sl_force_full := True,
         sl_mode := Attempting\<rparr>), s')"
    and "el_mismatches el = 0 \<Longrightarrow> deny_following el' nb s' \<and> el_mismatches el' = 1"
  with z show thesis by (intro that [of el' s']) simp_all
qed

lemma deny_second_tick:
  assumes f: "deny_following el nb s" and m: "sl_mode l = Following el nb" and z: "el_mismatches el = 1"
  obtains s' where "sup_task deny_sys demo_cfg l s = Some (Inr (l\<lparr>sl_last_forced_resync :=
      Some (n_world s' * 300000000000 - 300000000000), sl_force_full := True, sl_mode := Attempting\<rparr>), s')"
    and "deny_between (l\<lparr>sl_last_forced_resync := Some (n_world s' * 300000000000 - 300000000000),
      sl_force_full := True, sl_mode := Attempting\<rparr>) s'"
proof (rule deny_tick [OF f m])
  fix s' :: "nat sup" and el'
  assume "sup_task deny_sys demo_cfg l s = Some (Inr
      (if el_mismatches el = 0 then l\<lparr>sl_mode := Following el' nb\<rparr>
       else l\<lparr>sl_last_forced_resync := Some (n_world s' * 300000000000 - 300000000000), sl_force_full := True,
         sl_mode := Attempting\<rparr>), s')"
    and "deny_between (l\<lparr>sl_last_forced_resync := None, sl_force_full := True, sl_mode := Attempting\<rparr>) s'"
  with z show thesis by (intro that [of s']) (simp_all add: deny_between_def)
qed

text \<open>Three attempts and a tick: before the third attempt, and after the tick.\<close>

lemma deny_cycle:
  assumes tr: "sup_trace deny_sys demo_cfg c cs (l, s)" and d: "deny_between l s" and m: "sl_mode l = Attempting"
    and zero: "sl_full_mismatches l = 0"
    and last: "\<And>t. sl_last_forced_resync l = Some t \<Longrightarrow> t + min_resync_interval \<le> (n_world s + 3) * 300000000000"
  obtains cs2 l2 s2 l3 s3 cs4 l4 s4 el nb where
    "sup_trace deny_sys demo_cfg c cs2 (l2, s2)" and "sl_mode l2 = Attempting"
    and "sup_task deny_sys demo_cfg l2 s2 = Some (Inr l3, s3)" and "\<exists>el nb. sl_mode l3 = Following el nb"
    and "sy_verified (a_sync s3) = Some False"
    and "sup_trace deny_sys demo_cfg c cs4 (l4, s4)" and "sl_mode l4 = Following el nb" and "deny_following el nb s4"
    and "el_mismatches el = 1" and "sl_full_mismatches l4 = 0" and "sl_last_forced_resync l4 = sl_last_forced_resync l"
proof -
  from zero have few: "sl_full_mismatches l < 2" by simp
  obtain s1 l1 where st1: "sup_task deny_sys demo_cfg l s = Some (Inr l1, s1)" and d1: "deny_between l1 s1"
    and w1: "n_world s1 = n_world s + 1"
    and l1: "l1 = l\<lparr>sl_full_mismatches := sl_full_mismatches l + 1, sl_force_full := True, sl_attempt := sl_attempt l + 1\<rparr>"
    using deny_attempt [OF d m few] by metis
  have m1: "sl_mode l1 = Attempting" and few1: "sl_full_mismatches l1 < 2" using m zero l1 by simp_all
  obtain s2 l2 where st2: "sup_task deny_sys demo_cfg l1 s1 = Some (Inr l2, s2)" and d2: "deny_between l2 s2"
    and w2: "n_world s2 = n_world s1 + 1"
    and l2: "l2 = l1\<lparr>sl_full_mismatches := sl_full_mismatches l1 + 1, sl_force_full := True, sl_attempt := sl_attempt l1 + 1\<rparr>"
    using deny_attempt [OF d1 m1 few1] by metis
  have m2: "sl_mode l2 = Attempting" and many: "2 \<le> sl_full_mismatches l2" and last2: "sl_last_forced_resync l2 = sl_last_forced_resync l"
    using m1 l1 l2 by simp_all
  have "t + min_resync_interval \<le> (n_world s2 + 1) * 300000000000" if "sl_last_forced_resync l2 = Some t" for t
    using last [of t] that last2 w1 w2 by simp
  then obtain el nb s3 where st3: "sup_task deny_sys demo_cfg l2 s2 = Some (Inr (l2\<lparr>sl_attempt := 0,
      sl_full_mismatches := 0, sl_mode := Following el nb\<rparr>), s3)" and f: "deny_following el nb s3"
    and el0: "el_mismatches el = 0" and v: "sy_verified (a_sync s3) = Some False"
    using deny_accept [OF d2 m2 many] by metis
  let ?l3 = "l2\<lparr>sl_attempt := 0, sl_full_mismatches := 0, sl_mode := Following el nb\<rparr>"
  have m3: "sl_mode ?l3 = Following el nb" by simp
  obtain s4 el' where
    st4: "sup_task deny_sys demo_cfg ?l3 s3 = Some (Inr (?l3\<lparr>sl_mode := Following el' nb\<rparr>), s4)"
    and f4: "deny_following el' nb s4" "el_mismatches el' = 1"
    by (rule deny_first_tick [OF f m3 el0])
  have t1: "sup_trace deny_sys demo_cfg c ((l, s) # cs) (l1, s1)"
    by (rule trace_step [OF tr _ st1]) (simp add: m)
  have t2: "sup_trace deny_sys demo_cfg c ((l1, s1) # (l, s) # cs) (l2, s2)"
    by (rule trace_step [OF t1 _ st2]) (simp add: m1)
  have t3: "sup_trace deny_sys demo_cfg c ((l2, s2) # (l1, s1) # (l, s) # cs) (?l3, s3)"
    by (rule trace_step [OF t2 _ st3]) (simp add: m2)
  have t4: "sup_trace deny_sys demo_cfg c ((?l3, s3) # (l2, s2) # (l1, s1) # (l, s) # cs) (?l3\<lparr>sl_mode := Following el' nb\<rparr>, s4)"
    by (rule trace_step [OF t3 _ st4]) simp
  show thesis
    by (rule that [OF t2 m2 st3 _ v t4 _ f4(1,2)]) (use last2 in simp_all)
qed

lemma deny_net: "net_ok demo_cfg deny_start" "v_progress deny_start = None" "head_bounded deny_sys demo_cfg"
  "deny_between sup_start deny_start"
  by (simp_all add: net_ok_def deny_start_def net.defs dbst.defs app.defs sup.defs demo_cfg_def transport_ok_def
      chunk_new_ok head_bounded_def deny_between_def empty_tables_def)

lemma deny_profiles: "profiles_decode deny_sys demo_cfg"
proof -
  have "decode_fields deny_sys lay [FixedBytesToken (replicate 32 0), StringToken ''/ip4/8.8.8.8/tcp/9000'',
      StringToken [], StringToken [], UintToken 0, UintToken 0, BoolToken True] \<noteq> None" for lay
    by (cases lay) (simp_all add: decode_fields_def key_field_def string_field_def uint_field_def bool_field_def
        next_token_def task_bind_def task_of_res_def task_return_def task_fail_def)
  then show ?thesis
    by (simp add: profiles_decode_def decode_relayer_profile_def deny_defs split: sum.split)
qed

lemma deny_ids: "endpoint_gave (e_chain_id deny_sys) i () n \<Longrightarrow> as_u64 n \<noteq> None"
  by (auto simp: endpoint_gave_def as_u64_def)

lemma deny_clock: "clock_ok deny_sys"
  by (simp add: clock_ok_def)


end
