(* ===== verification/Migrate.thy ===== *)
theory Migrate
  imports DbLaws Reconcile
begin

text \<open>
  Model of \<^verbatim>\<open>Db::connect\<close> and \<^verbatim>\<open>run_migrations\<close> of
  \<^verbatim>\<open>src/db.rs\<close> with the scripts of \<^verbatim>\<open>migrations/\<close>: the statements run
  one after the other on every boot, outside a transaction, and stop at the first error. The tables of
  the model have their final columns, so the statements that only create a table, a column or an index
  leave the rows as they are; the three statements that change rows are written out.
\<close>

section \<open>The statements\<close>

definition legacy_registry :: string where
  "legacy_registry = ''0x8626af80db409bed3c19871fadf9b0ce7aa641bc''"

definition legacy_chain :: i64 where
  "legacy_chain = 421614"

definition legacy_cursor :: string where
  "legacy_cursor = ''last_chain_block''"

text \<open>Rows written before nodes were attributed to a registry.\<close>

definition adopted_row :: "node_row \<Rightarrow> node_row" where
  "adopted_row r =
     (if nr_registry_address r = []
      then r\<lparr>nr_registry_address := legacy_registry, nr_chain_id := legacy_chain\<rparr> else r)"

definition adopt_nodes :: "unit sql" where
  "adopt_nodes t =
     Inr ((), t\<lparr>t_nodes := map_rows (\<lambda>a. adopted_row) (t_nodes t)\<rparr>)"

text \<open>The global cursor becomes the checkpoint of that registry, unless it has one.\<close>

definition adopt_checkpoint :: "unit sql" where
  "adopt_checkpoint t =
     (case map_of (t_state t) legacy_cursor of
        None \<Rightarrow> Inr ((), t)
      | Some v \<Rightarrow>
          if 0 < v \<and> map_of (t_checkpoints t) (legacy_chain, legacy_registry) = None
          then Inr ((), t\<lparr>t_checkpoints := AList.update (legacy_chain, legacy_registry) (v, 0) (t_checkpoints t)\<rparr>)
          else Inr ((), t))"

definition drop_cursor :: "unit sql" where
  "drop_cursor t = Inr ((), t\<lparr>t_state := AList.delete legacy_cursor (t_state t)\<rparr>)"

definition schema :: "unit sql" where
  "schema = query (\<lambda>t. ())"

definition migration_statements :: "(string \<times> unit sql) list" where
  "migration_statements =
     [(''001 nodes'', schema), (''001 idx_nodes_status'', schema), (''001 idx_nodes_uptime_targets'', schema),
      (''001 node_reputation'', schema), (''001 indexer_state'', schema),
      (''002 latitude'', schema), (''002 longitude'', schema),
      (''003 ingress_url'', schema), (''003 metadata_url'', schema),
      (''004 node_metric_offsets'', schema),
      (''005 registry_address'', schema), (''005 chain_id'', schema), (''005 frozen'', schema),
      (''005 adopt nodes'', adopt_nodes), (''005 idx_nodes_registry'', schema),
      (''005 indexer_checkpoints'', schema), (''005 adopt checkpoint'', adopt_checkpoint),
      (''005 drop cursor'', drop_cursor),
      (''006 paid_settlements'', schema), (''006 idx_paid_settlements'', schema),
      (''006 exit_credit_claims'', schema), (''006 idx_exit_credit_claims'', schema),
      (''006 settlement_checkpoints'', schema)]"

definition run_migrations :: "('w, 'e) sysenv_scheme \<Rightarrow> (('w, 'z) dbst_scheme, unit) task" where
  "run_migrations env = task_each (\<lambda>p. run_sql env (fst p) (snd p)) migration_statements"

text \<open>\<open>open_pool\<close> says whether the database accepts the connection.\<close>

definition connect ::
  "('w, 'e) sysenv_scheme \<Rightarrow> ('w \<Rightarrow> bool \<times> 'w) \<Rightarrow> (('w, 'z) dbst_scheme, unit) task" where
  "connect env open_pool s =
     (case open_pool (n_world s) of
        (accepted, w) \<Rightarrow>
          if accepted then run_migrations env (s\<lparr>n_world := w\<rparr>)
          else Some (Inl ''connection refused'', s\<lparr>n_world := w\<rparr>))"

section \<open>What they do together\<close>

text \<open>The tables after all the statements.\<close>

definition migrated :: "tables \<Rightarrow> tables" where
  "migrated t =
     t\<lparr>t_nodes := map_rows (\<lambda>a. adopted_row) (t_nodes t),
       t_checkpoints :=
         (case map_of (t_state t) legacy_cursor of
            None \<Rightarrow> t_checkpoints t
          | Some v \<Rightarrow> if 0 < v \<and> map_of (t_checkpoints t) (legacy_chain, legacy_registry) = None
                      then AList.update (legacy_chain, legacy_registry) (v, 0) (t_checkpoints t)
                      else t_checkpoints t),
       t_state := AList.delete legacy_cursor (t_state t)\<rparr>"

text \<open>A complete run from the one tables gives the same as from the other.\<close>

definition on_the_way :: "tables \<Rightarrow> tables \<Rightarrow> bool" where
  "on_the_way t t' \<longleftrightarrow> migrated t' = migrated t"

definition cursor_adopted :: "tables \<Rightarrow> bool" where
  "cursor_adopted t \<longleftrightarrow> t_checkpoints (migrated t) = t_checkpoints t"

lemma on_the_way_order [simp]: "reflp on_the_way" "transp on_the_way"
  by (auto simp: on_the_way_def reflp_def transp_def)

lemma legacy_registry_nonempty [simp]: "legacy_registry \<noteq> []"
  by (simp add: legacy_registry_def)

lemma adopted_row [simp]: "adopted_row (adopted_row r) = adopted_row r" "nr_registry_address (adopted_row r) \<noteq> []"
  by (simp_all add: adopted_row_def)

lemma map_rows_twice [simp]: "map_rows f (map_rows g m) = map_rows (\<lambda>a r. f a (g a r)) m"
  by (induction m) (auto simp: map_rows_def)

lemma schema_Inr: "schema t = Inr ((), t)"
  by (simp add: schema_def query_def)

lemma task_bind_cases:
  assumes "task_bind m f s = Some (r, s')"
  obtains (err) e where "m s = Some (Inl e, s')" and "r = Inl e"
    | (ok) a s1 where "m s = Some (Inr a, s1)" and "f a s1 = Some (r, s')"
  using assms by (auto simp: task_bind_def split: option.splits prod.splits sum.splits)

lemma statement_effects:
  "adopt_nodes t = Inr (u, t') \<Longrightarrow> on_the_way t t'" "adopt_checkpoint t = Inr (u, t') \<Longrightarrow> on_the_way t t'"
  "adopt_checkpoint t = Inr (u, t') \<Longrightarrow> cursor_adopted t'"
  "drop_cursor t = Inr (u, t') \<Longrightarrow> cursor_adopted t \<Longrightarrow> on_the_way t t'"
  by (auto simp: on_the_way_def cursor_adopted_def adopt_nodes_def adopt_checkpoint_def drop_cursor_def migrated_def
      delete_conv' AList.delete_idem update_conv' if_distrib cong: if_cong split: option.splits if_splits)

text \<open>All statements in order, on the tables alone.\<close>

fun apply_all :: "(string \<times> unit sql) list \<Rightarrow> tables \<Rightarrow> tables res" where
  "apply_all [] t = Inr t"
| "apply_all (p # ps) t = (case snd p t of Inl e \<Rightarrow> Inl e | Inr (u, t') \<Rightarrow> apply_all ps t')"

lemma apply_all_migrates: "apply_all migration_statements t = Inr (migrated t)"
  by (cases "map_of (t_state t) legacy_cursor")
    (auto simp: migration_statements_def migrated_def adopt_nodes_def adopt_checkpoint_def drop_cursor_def schema_Inr)

lemma each_sql_Inr:
  "task_each (\<lambda>p. run_sql env (fst p) (snd p)) ps s = Some (Inr (), s') \<Longrightarrow>
     apply_all ps (d_tables s) = Inr (d_tables s')"
proof (induction ps arbitrary: s)
  case (Cons p ps)
  from Cons.prems obtain s1 where "run_sql env (fst p) (snd p) s = Some (Inr (), s1)"
    and "task_each (\<lambda>p. run_sql env (fst p) (snd p)) ps s1 = Some (Inr (), s')"
    by (auto simp: task_bind_Inr_iff)
  with Cons.IH [of s1] show ?case by (auto simp: run_sql_Inr_iff)
qed simp

lemma task_each_append: "task_each f (xs @ ys) = task_bind (task_each f xs) (\<lambda>_. task_each f ys)"
proof (rule ext)
  show "task_each f (xs @ ys) s = task_bind (task_each f xs) (\<lambda>_. task_each f ys) s" for s
    by (induction xs arbitrary: s) (auto simp: task_bind_def split: option.splits prod.splits sum.splits)
qed

lemma task_each_two: "task_each f (x # y # zs) = task_bind (f x) (\<lambda>_. task_bind (f y) (\<lambda>_. task_each f zs))"
  by (rule ext) (simp add: task_bind_def split: option.splits prod.splits sum.splits)

lemma schema_keeps: "keeps (on_tables on_the_way) (run_sql env name schema)"
proof (rule run_sql_keeps [OF _ on_the_way_order(1)])
  show "on_the_way t t'" if "schema t = Inr (a, t')" for t a t' using that by (simp add: schema_Inr on_the_way_def)
qed

lemma adopt_nodes_keeps: "keeps (on_tables on_the_way) (run_sql env name adopt_nodes)"
  by (rule run_sql_keeps [OF statement_effects(1) on_the_way_order(1)])

lemma adopt_checkpoint_keeps: "keeps (on_tables on_the_way) (run_sql env name adopt_checkpoint)"
  by (rule run_sql_keeps [OF statement_effects(2) on_the_way_order(1)])

lemma keeps_each:
  assumes "reflp R" and "transp R" and "\<And>x. x \<in> set xs \<Longrightarrow> keeps R (f x)"
  shows "keeps R (task_each f xs)"
  using assms(3)
proof (induction xs)
  case Nil
  show ?case by (rule keepsI) (use assms(1) in \<open>auto dest: reflpD\<close>)
next
  case (Cons x xs)
  have "keeps R (task_bind (f x) (\<lambda>_. task_each f xs))"
    by (rule keeps_bind [OF assms(2)]) (use Cons in auto)
  then show ?case by (simp add: keeps_def)
qed

lemma schema_runs:
  fixes env :: "('w, 'e) sysenv_scheme"
  assumes "\<forall>p \<in> set ps. snd p = schema \<or> snd p = adopt_nodes"
  shows "keeps (on_tables on_the_way)
    (task_each (\<lambda>p. run_sql env (fst p) (snd p) :: (('w, 'z) dbst_scheme, unit) task) ps)"
proof (rule keeps_each [OF on_tables_refl [OF on_the_way_order(1)] on_tables_trans [OF on_the_way_order(2)]])
  show "keeps (on_tables on_the_way) (run_sql env (fst p) (snd p) :: (('w, 'z) dbst_scheme, unit) task)"
    if "p \<in> set ps" for p
    using assms that schema_keeps [where env = env] adopt_nodes_keeps [where env = env]
    by (cases "snd p = schema") fastforce+
qed

lemma drop_after_adopt:
  fixes s s' :: "('w, 'z) dbst_scheme"
  assumes "run_sql env name drop_cursor s = Some (r, s')" and "cursor_adopted (d_tables s)"
  shows "on_the_way (d_tables s) (d_tables s')"
  using assms statement_effects(4) [of "d_tables s" "()"]
  by (auto simp: run_sql_def drop_cursor_def on_the_way_def split: prod.splits verdict.splits if_splits)

lemma adopt_then_drop:
  fixes s s' :: "('w, 'z) dbst_scheme" and rest :: "(('w, 'z) dbst_scheme, unit) task"
  assumes rest: "keeps (on_tables on_the_way) rest"
    and run: "task_bind (run_sql env n1 adopt_checkpoint) (\<lambda>_. task_bind (run_sql env n2 drop_cursor) (\<lambda>_. rest)) s
                = Some (r, s')"
  shows "on_the_way (d_tables s) (d_tables s')"
  using run
proof (cases rule: task_bind_cases)
  case (err e)
  from keepsD [OF adopt_checkpoint_keeps err(1)] show ?thesis by (simp add: on_tables_def)
next
  case (ok u s1)
  from keepsD [OF adopt_checkpoint_keeps ok(1)] have 1: "on_the_way (d_tables s) (d_tables s1)"
    by (simp add: on_tables_def)
  from ok(1) have adopted: "cursor_adopted (d_tables s1)"
    by (auto simp: run_sql_Inr_iff intro: statement_effects(3))
  from ok(2) have "on_the_way (d_tables s1) (d_tables s')"
  proof (cases rule: task_bind_cases)
    case (err e)
    from drop_after_adopt [OF err(1) adopted] show ?thesis .
  next
    case (ok v s2)
    from drop_after_adopt [OF ok(1) adopted] keepsD [OF rest ok(2)] show ?thesis
      by (simp add: on_tables_def on_the_way_def)
  qed
  with 1 show ?thesis by (simp add: on_the_way_def)
qed

text \<open>A run that stops anywhere leaves tables a later run completes.\<close>

lemma migrations_on_the_way:
  fixes s s' :: "('w, 'z) dbst_scheme"
  assumes run: "run_migrations env s = Some (r, s')"
  shows "on_the_way (d_tables s) (d_tables s')"
proof -
  let ?run = "\<lambda>p. run_sql env (fst p) (snd p) :: (('w, 'z) dbst_scheme, unit) task"
  let ?pre = "take 16 migration_statements" and ?post = "drop 18 migration_statements"
  have split: "migration_statements =
      ?pre @ [(''005 adopt checkpoint'', adopt_checkpoint), (''005 drop cursor'', drop_cursor)] @ ?post"
    by (simp add: migration_statements_def)
  have pre: "keeps (on_tables on_the_way) (task_each ?run ?pre)"
    and post: "keeps (on_tables on_the_way) (task_each ?run ?post)"
    by (rule schema_runs, simp add: migration_statements_def)+
  let ?rest = "task_bind (?run (''005 adopt checkpoint'', adopt_checkpoint))
      (\<lambda>_. task_bind (?run (''005 drop cursor'', drop_cursor)) (\<lambda>_. task_each ?run ?post))"
  have "run_migrations env s = task_bind (task_each ?run ?pre) (\<lambda>_. ?rest) s"
    unfolding run_migrations_def by (subst split) (simp add: task_each_append task_each_two)
  with run have "task_bind (task_each ?run ?pre) (\<lambda>_. ?rest) s = Some (r, s')" by simp
  then show ?thesis
  proof (cases rule: task_bind_cases)
    case (err e)
    from keepsD [OF pre err(1)] show ?thesis by (simp add: on_tables_def)
  next
    case (ok u s1)
    from ok(2) have "on_the_way (d_tables s1) (d_tables s')"
      unfolding fst_conv snd_conv by (rule adopt_then_drop [OF post])
    with keepsD [OF pre ok(1)] show ?thesis by (simp add: on_tables_def on_the_way_def)
  qed
qed

section \<open>Boots that fail and the boot that succeeds\<close>

text \<open>The tables a boot leaves when its migrations stop with an error.\<close>

definition failed_boot :: "('w, 'e) sysenv_scheme itself \<Rightarrow> tables \<Rightarrow> tables \<Rightarrow> bool" where
  "failed_boot T t t' \<longleftrightarrow>
     (\<exists>(env :: ('w, 'e) sysenv_scheme) (s :: 'w dbst) e s'.
        d_tables s = t \<and> run_migrations env s = Some (Inl e, s') \<and> d_tables s' = t')"

lemma failed_boots_on_the_way: "(failed_boot T)\<^sup>*\<^sup>* t t' \<Longrightarrow> migrated t' = migrated t"
  by (induction rule: rtranclp_induct)
    (auto simp: failed_boot_def on_the_way_def dest!: migrations_on_the_way)

text \<open>Where the one registry of old deployments resumes.\<close>

definition resume_point :: "tables \<Rightarrow> (i64 \<times> i64) option" where
  "resume_point t =
     (case map_of (t_checkpoints t) (legacy_chain, legacy_registry) of
        Some p \<Rightarrow> Some p
      | None \<Rightarrow>
          (case map_of (t_state t) legacy_cursor of
             Some v \<Rightarrow> if 0 < v then Some (v, 0) else None
           | None \<Rightarrow> None))"

lemma migrated_fields:
  "map_of (t_state (migrated t)) legacy_cursor = None"
  "\<forall>(a, r) \<in> set (t_nodes (migrated t)). nr_registry_address r \<noteq> []"
  "map_of (t_checkpoints (migrated t)) (legacy_chain, legacy_registry) = resume_point t"
  by (auto simp: migrated_def delete_conv' map_rows_def resume_point_def update_conv' split: option.splits)

lemma migrated_again: "migrated (migrated t) = migrated t"
  by (simp add: migrated_def delete_conv' AList.delete_idem)

lemma migrations_complete:
  "run_migrations env a = Some (Inr (), b) \<Longrightarrow> d_tables b = migrated (d_tables a)"
  unfolding run_migrations_def by (drule each_sql_Inr) (simp add: apply_all_migrates)

text \<open>
  C16: the migrations can be cut short anywhere and repeated. However many boots failed half way, the first
  one that succeeds leaves the tables one undisturbed run would have made of the original ones: every node
  row names a registry, the registry of old deployments resumes from its own checkpoint if it had one and
  from the legacy cursor otherwise, and that cursor is gone, so that a checkpoint deleted later stays
  deleted; the next boot changes nothing more.
\<close>

theorem migrations_resumable:
  fixes env :: "('w, 'e) sysenv_scheme" and s s' :: "'w dbst"
  assumes "(failed_boot TYPE(('w, 'e) sysenv_scheme))\<^sup>*\<^sup>* t (d_tables s)"
    and "run_migrations env s = Some (Inr (), s')"
  shows "d_tables s' = migrated t \<and>
    map_of (t_state (d_tables s')) legacy_cursor = None \<and>
    map_of (t_checkpoints (d_tables s')) (legacy_chain, legacy_registry) = resume_point t \<and>
    (\<forall>(a, r) \<in> set (t_nodes (d_tables s')). nr_registry_address r \<noteq> []) \<and>
    (\<forall>s2. run_migrations env s' = Some (Inr (), s2) \<longrightarrow> d_tables s2 = d_tables s')"
proof -
  have goal: "d_tables s' = migrated t"
    using failed_boots_on_the_way [OF assms(1)] migrations_complete [OF assms(2)] by simp
  show ?thesis
    unfolding goal using migrated_fields migrations_complete [where a = s']
    by (auto simp: goal migrated_again)
qed

text \<open>A database of an old deployment, and a boot that loses its connection between the adopting of the
  cursor and its removal.\<close>

definition old_tables :: tables where
  "old_tables = empty_tables\<lparr>t_nodes := [(''0xaa'', demo_row\<lparr>nr_registry_address := []\<rparr>)],
                             t_state := [(legacy_cursor, 77)]\<rparr>"

definition halfway :: tables where
  "halfway = migrated old_tables\<lparr>t_state := [(legacy_cursor, 77)]\<rparr>"

definition lost_sys :: "unit sysenv" where
  "lost_sys = demo_sys\<lparr>e_db := (\<lambda>name w. (if name = ''005 drop cursor'' then Failed ''reset'' False else Done, w))\<rparr>"

lemma lost_runs:
  "run_sql lost_sys name stmt s =
     (case stmt (d_tables s) of Inl e \<Rightarrow> Some (Inl e, s)
      | Inr (a, t) \<Rightarrow> if name = ''005 drop cursor'' then Some (Inl ''reset'', s)
                     else Some (Inr a, s\<lparr>d_tables := t\<rparr>))"
  by (simp add: run_sql_def lost_sys_def split: sum.split)

lemma halfway_left: "failed_boot TYPE((unit, unit) sysenv_scheme) old_tables halfway"
  unfolding failed_boot_def
proof (intro exI conjI)
  show "run_migrations lost_sys (demo_db\<lparr>d_tables := old_tables\<rparr>) = Some (Inl ''reset'', demo_db\<lparr>d_tables := halfway\<rparr>)"
    by (simp add: run_migrations_def migration_statements_def task_bind_def lost_runs schema_Inr adopt_nodes_def
        adopt_checkpoint_def drop_cursor_def halfway_def migrated_def old_tables_def)
qed simp_all

lemma each_demo:
  "apply_all ps (d_tables s) = Inr t \<Longrightarrow>
     task_each (\<lambda>p. run_sql demo_sys (fst p) (snd p)) ps s = Some (Inr (), s\<lparr>d_tables := t\<rparr>)"
  by (induction ps arbitrary: s) (auto simp: task_bind_def split: sum.splits prod.splits)

lemma migrations_demo [simp]:
  "run_migrations demo_sys s = Some (Inr (), s\<lparr>d_tables := migrated (d_tables s)\<rparr>)"
  unfolding run_migrations_def by (rule each_demo [OF apply_all_migrates])

lemma connect_demo [simp]:
  "connect demo_sys (\<lambda>w. (True, w)) s = Some (Inr (), s\<lparr>d_tables := migrated (d_tables s)\<rparr>)"
  by (simp add: connect_def)

theorem migrations_resumable_witness:
  "\<exists>s'. run_migrations demo_sys (demo_db\<lparr>d_tables := halfway\<rparr>) = Some (Inr (), s') \<and>
     d_tables s' = migrated old_tables \<and>
     map_of (t_checkpoints (d_tables s')) (legacy_chain, legacy_registry) = Some (77, 0)"
proof -
  obtain s' where run: "run_migrations demo_sys (demo_db\<lparr>d_tables := halfway\<rparr>) = Some (Inr (), s')" by simp
  have "(failed_boot TYPE((unit, unit) sysenv_scheme))\<^sup>*\<^sup>* old_tables (d_tables (demo_db\<lparr>d_tables := halfway\<rparr>))"
    using halfway_left by (simp add: r_into_rtranclp)
  from migrations_resumable [OF this run] run show ?thesis
    by (auto simp: resume_point_def old_tables_def empty_tables_def)
qed

end
