(* ===== verification/Boot.thy ===== *)
theory Boot
  imports Api Supervisor Migrate
begin

text \<open>
  Model of \<^verbatim>\<open>src/config.rs\<close> and of the start of the process in
  \<^verbatim>\<open>src/main.rs\<close>: the checks of the configuration, connecting to the database with
  backoff, and the state the tasks begin with. Reading the command line, the GeoIP file, the log
  output and the HTTP listener are not modelled.
\<close>

section \<open>Configuration\<close>

record args =
  ar_network :: string
  ar_registry_address :: string
  ar_rpc_url :: "string option"
  ar_expected_chain_id :: "u64 option"
  ar_confirmations :: "u64 option"
  ar_log_chunk_size :: u64
  ar_log_chunk_min :: u64
  ar_log_chunk_max :: u64
  ar_from_block :: u64
  ar_port :: u16
  ar_database_url :: string
  ar_uptime_check_interval :: u64
  ar_geoip_db_path :: string
  ar_entry_point_address :: "string option"
  ar_reward_pool_address :: "string option"
  ar_settlement_from_block :: "u64 option"
  ar_allow_private_node_addresses :: bool
  ar_health_max_sync_age_secs :: u64
  ar_node_topology_poll_secs :: u64
  ar_seed_max_pow_difficulty :: u32
  ar_seed_warm_secs :: u64

record network_config =
  nc_rpc_urls :: "string list"
  nc_poll_interval_secs :: u64
  nc_from_block :: u64
  nc_confirmations :: u64

definition network_defaults :: "string \<Rightarrow> (string option \<times> u64 \<times> u64) option" where
  "network_defaults network =
     (if network = ''localtestnet'' then Some (Some ''http://127.0.0.1:8545'', 6, 0)
      else if network = ''testnet'' \<or> network = ''mainnet'' then Some (None, 12, 20)
      else None)"

definition resolve_config :: "args \<Rightarrow> network_config res" where
  "resolve_config a =
     (if ar_from_block a = 0
      then Inl ''FROM_BLOCK must be the exact NoxRegistry deployment block; refusing an unbounded replay''
      else case network_defaults (ar_network a) of
             None \<Rightarrow> Inl (''Unknown network: '' @ ar_network a @ ''. Use localtestnet, testnet, or mainnet'')
           | Some (default_rpc, poll_secs, default_confirmations) \<Rightarrow>
               let given = (case ar_rpc_url a of None \<Rightarrow> [] | Some raw \<Rightarrow> parse_rpc_urls raw);
                   urls = (if given \<noteq> [] then given else (case default_rpc of None \<Rightarrow> [] | Some u \<Rightarrow> [u]))
               in if urls = [] then Inl (''--rpc-url is required for network '' @ squote @ ar_network a @ squote)
                  else if ar_node_topology_poll_secs a = 0 then Inl ''NODE_TOPOLOGY_POLL_SECS must be positive''
                  else if ar_log_chunk_min a = 0 \<or> ar_log_chunk_max a < ar_log_chunk_min a
                  then Inl ''LOG_CHUNK_MIN must be positive and not above LOG_CHUNK_MAX''
                  else Inr \<lparr>nc_rpc_urls = urls, nc_poll_interval_secs = poll_secs, nc_from_block = ar_from_block a,
                            nc_confirmations = (case ar_confirmations a of Some c \<Rightarrow> c | None \<Rightarrow> default_confirmations)\<rparr>)"

definition private_targets_allowed :: "args \<Rightarrow> bool" where
  "private_targets_allowed a \<longleftrightarrow> ar_network a = ''localtestnet'' \<or> ar_allow_private_node_addresses a"

text \<open>The warm interval in seconds: positive and below the staleness bound of the seed copy.\<close>

definition seed_warm_ok :: "args \<Rightarrow> bool" where
  "seed_warm_ok a \<longleftrightarrow>
     ar_seed_warm_secs a \<noteq> 0 \<and> unat (ar_seed_warm_secs a) * 1000000000 < seed_stale_max"

section \<open>The database\<close>

definition db_connect_backoff_base :: duration where "db_connect_backoff_base = from_secs 1"
definition db_connect_backoff_cap :: duration where "db_connect_backoff_cap = from_secs 30"

text \<open>
  Attempts until one succeeds, migrations included. An error value is the exit on a shutdown during the
  wait.
\<close>

partial_function (option) connect_db ::
  "('w, 'e) sysenv_scheme \<Rightarrow> ('w \<Rightarrow> bool \<times> 'w) \<Rightarrow> u32 \<Rightarrow> ('w, 'z) dbst_scheme \<Rightarrow> (u32 res \<times> ('w, 'z) dbst_scheme) option" where
  "connect_db env open_pool attempt s =
     (case connect env open_pool s of
        None \<Rightarrow> None
      | Some (Inr u, s1) \<Rightarrow> Some (Inr attempt, s1)
      | Some (Inl e, s1) \<Rightarrow>
          task_bind (backoff_pause env (unat (sat_add attempt 1)) db_connect_backoff_base db_connect_backoff_cap)
            (\<lambda>stop s2.
               if stop then Some (Inl ''Shutdown requested before the database was reachable'', s2)
               else connect_db env open_pool (sat_add attempt 1) s2) s1)"

text \<open>What is read from the database at the start; a read that fails leaves its part empty.\<close>

definition initial_reads ::
  "('w, 'e) sysenv_scheme \<Rightarrow> chain_config \<Rightarrow> u64 \<Rightarrow>
   (('w, 'z) dbst_scheme, (string \<times> node_state) list \<times> i64 option \<times> (string \<times> node_offset) list) task" where
  "initial_reads env cfg uptime_secs =
     task_try (load_registry_nodes env (cc_registry_hex cfg)) (\<lambda>nodes.
     task_try (ensure_network_genesis env (i64_of_u64 (sat_mul uptime_secs 1000))) (\<lambda>genesis.
     task_try (load_metric_offsets env) (\<lambda>offsets.
     task_return (case nodes of Inr ns \<Rightarrow> ns | Inl _ \<Rightarrow> [],
                  case genesis of Inr g \<Rightarrow> g | Inl _ \<Rightarrow> None,
                  case offsets of Inr os \<Rightarrow> os | Inl _ \<Rightarrow> []))))"

definition init_state ::
  "('w, 'e) sysenv_scheme \<Rightarrow> ('w \<Rightarrow> bool \<times> 'w) \<Rightarrow> args \<Rightarrow> chain_config \<Rightarrow> tables \<Rightarrow> 'w net \<Rightarrow>
   ('w app) res option" where
  "init_state env open_pool a cfg tables n =
     (case connect_db env open_pool 0 (net.extend n (dbst.fields tables)) of
        None \<Rightarrow> None
      | Some (Inl e, _) \<Rightarrow> Some (Inl e)
      | Some (Inr _, d0) \<Rightarrow>
          (case initial_reads env cfg (ar_uptime_check_interval a) d0 of
             Some (Inr (nodes, genesis, offsets), d) \<Rightarrow>
               (case e_instant env (n_world d) of
                  (now, w) \<Rightarrow>
                    Some (Inr (dbst.extend (d\<lparr>n_world := w\<rparr>)
                      (app.fields nodes [] [] [] (topo_dedup_new now) [] offsets (default_sync (cc_registry_hex cfg))
                         0 None False genesis default_settlement_status))))
           | Some (Inl e, _) \<Rightarrow> Some (Inl e)
           | None \<Rightarrow> None))"

section \<open>The start of the process\<close>

text \<open>
  The order of \<open>main\<close>: an error value is an exit with its message. The environment of the tasks has the
  address policy the arguments set.
\<close>

definition start_process ::
  "('w, 'e) sysenv_scheme \<Rightarrow> ('w \<Rightarrow> bool \<times> 'w) \<Rightarrow> args \<Rightarrow> tables \<Rightarrow> 'w \<Rightarrow>
   (('w, 'e) sysenv_scheme \<times> chain_config \<times> settlement_config option \<times> 'w app) res option" where
  "start_process os open_pool a tables w =
     (case resolve_config a of
        Inl e \<Rightarrow> Some (Inl (''Config error: '' @ e))
      | Inr nc \<Rightarrow>
          let env = os\<lparr>e_allow_private := private_targets_allowed a\<rparr>
          in (case chain_config_new env (nc_rpc_urls nc) (ar_registry_address a) (nc_poll_interval_secs nc)
                  (nc_from_block nc) (nc_confirmations nc) (ar_expected_chain_id a)
                  \<lparr>lc_initial = ar_log_chunk_size a, lc_min = ar_log_chunk_min a, lc_max = ar_log_chunk_max a\<rparr> w of
             Inl e \<Rightarrow> Some (Inl (''Chain config error: '' @ e))
           | Inr (cfg, n) \<Rightarrow>
               (case settlement_config_new env (ar_entry_point_address a) (ar_reward_pool_address a)
                       (case ar_settlement_from_block a of Some b \<Rightarrow> b | None \<Rightarrow> nc_from_block nc) of
                  Inl e \<Rightarrow> Some (Inl (''Settlement config error: '' @ e))
                | Inr settlement \<Rightarrow>
                    (case init_state env open_pool a cfg tables n of
                       None \<Rightarrow> None
                     | Some (Inl e) \<Rightarrow> Some (Inl e)
                     | Some (Inr s) \<Rightarrow>
                         if seed_warm_ok a then Some (Inr (env, cfg, settlement, s))
                         else Some (Inl (''SEED_WARM_SECS must be between 1 and 299 (the seed staleness bound), got ''
                                    @ u64_str (ar_seed_warm_secs a)))))))"

section \<open>What a started process begins with\<close>

text \<open>The tables of the settlement sync are not touched.\<close>

definition same_ledger :: "tables \<Rightarrow> tables \<Rightarrow> bool" where
  "same_ledger t t' \<longleftrightarrow> t_settlements t' = t_settlements t \<and> t_claims t' = t_claims t \<and>
     t_settlement_checkpoints t' = t_settlement_checkpoints t"

lemma same_ledger_refl [simp]: "same_ledger t t"
  by (simp add: same_ledger_def)

lemma same_ledger_order [simp]: "reflp same_ledger" "transp same_ledger"
  by (auto simp: same_ledger_def reflp_def transp_def)

text \<open>Neither are they or the lifetime totals before the tasks start.\<close>

definition start_keeps :: "tables \<Rightarrow> tables \<Rightarrow> bool" where
  "start_keeps t t' \<longleftrightarrow> same_ledger t t' \<and> t_offsets t' = t_offsets t"

lemma start_keeps_refl [simp]: "start_keeps t t"
  by (simp add: start_keeps_def)

lemma start_keeps_order [simp]: "reflp start_keeps" "transp start_keeps"
  by (auto simp: start_keeps_def same_ledger_def reflp_def transp_def)

text \<open>What connecting leaves as it was.\<close>

definition booting :: "chain_config \<Rightarrow> ('w, 'z) dbst_scheme \<Rightarrow> ('w, 'z) dbst_scheme \<Rightarrow> bool" where
  "booting cfg s s' \<longleftrightarrow> (net_ok cfg s \<longrightarrow> net_ok cfg s') \<and> n_chain_id s' = n_chain_id s \<and>
     start_keeps (d_tables s) (d_tables s')"

lemma booting_order [simp]: "reflp (booting cfg)" "transp (booting cfg)"
  by (auto simp: booting_def start_keeps_def same_ledger_def reflp_def transp_def)

lemma booting_tables: "on_tables start_keeps s s' \<Longrightarrow> booting cfg s s'"
  by (auto simp: on_tables_def db_only_def booting_def net_ok_def)

lemma booting_quiet:
  fixes s s' :: "('w, 'z) dbst_scheme"
  assumes "quiet cfg s s'"
  shows "booting cfg s s'"
proof -
  from assms have "net.more s' = net.more s" by (simp add: quiet_def frame_def)
  then have "d_tables s' = d_tables s" by (cases s; cases s') simp
  with assms show ?thesis by (simp add: booting_def quiet_def frame_def)
qed

lemma booting_world [simp]: "booting cfg s (s\<lparr>n_world := w\<rparr>)"
  by (simp add: booting_def net_ok_def)

lemma statement_ledger:
  "(name, stmt) \<in> set migration_statements \<Longrightarrow> stmt t = Inr (u, t') \<Longrightarrow> start_keeps t t'"
  by (auto simp: migration_statements_def schema_Inr adopt_nodes_def adopt_checkpoint_def drop_cursor_def
      start_keeps_def same_ledger_def split: option.splits if_splits)

lemma migrations_booting: "keeps (booting cfg) (run_migrations env)"
proof -
  have "keeps (booting cfg) (run_sql env (fst p) (snd p))" if "p \<in> set migration_statements" for p
    using that statement_ledger [of "fst p" "snd p"]
    by (intro keeps_weaken [OF run_sql_keeps booting_tables]) auto
  then show ?thesis unfolding run_migrations_def by (rule keeps_each [OF booting_order])
qed

lemma connect_booting: "keeps (booting cfg) (connect env open_pool)"
proof (rule keepsI)
  fix s r s'
  assume run: "connect env open_pool s = Some (r, s')"
  obtain acc w where w: "open_pool (n_world s) = (acc, w)" by (cases "open_pool (n_world s)")
  show "booting cfg s s'"
  proof (cases acc)
    case True
    with run w have "run_migrations env (s\<lparr>n_world := w\<rparr>) = Some (r, s')" by (simp add: connect_def)
    from transpD [OF booting_order(2) booting_world keepsD [OF migrations_booting this]] show ?thesis .
  qed (use run w in \<open>auto simp: connect_def\<close>)
qed

lemma connect_db_booting:
  fixes env :: "('w, 'e) sysenv_scheme" and s s' :: "('w, 'z) dbst_scheme"
  assumes "connect_db env open_pool attempt s = Some (r, s')"
  shows "booting cfg s s'"
proof -
  have "booting cfg s (snd (r, s'))"
  proof (rule connect_db.raw_induct [where P =
        "\<lambda>(env :: ('w, 'e) sysenv_scheme) open_pool attempt (s :: ('w, 'z) dbst_scheme) q. booting cfg s (snd q)", OF _ assms])
    fix f and env :: "('w, 'e) sysenv_scheme" and open_pool attempt and s :: "('w, 'z) dbst_scheme"
      and q :: "u32 res \<times> ('w, 'z) dbst_scheme"
    assume IH: "\<And>env open_pool attempt s q. f env open_pool attempt s = Some q \<Longrightarrow> booting cfg s (snd q)"
      and run: "(case connect env open_pool s of
          None \<Rightarrow> None
        | Some (Inr u, s1) \<Rightarrow> Some (Inr attempt, s1)
        | Some (Inl e, s1) \<Rightarrow>
            task_bind (backoff_pause env (unat (sat_add attempt 1)) db_connect_backoff_base db_connect_backoff_cap)
              (\<lambda>stop s2.
                 if stop then Some (Inl ''Shutdown requested before the database was reachable'', s2)
                 else f env open_pool (sat_add attempt 1) s2) s1) = Some q"
    obtain r1 s1 where con: "connect env open_pool s = Some (r1, s1)"
      using run by (auto split: option.splits)
    note b1 = keepsD [OF connect_booting con, of cfg]
    show "booting cfg s (snd q)"
    proof (cases r1)
      case (Inr u)
      with run con b1 show ?thesis by auto
    next
      case (Inl e)
      with run con have "task_bind (backoff_pause env (unat (sat_add attempt 1)) db_connect_backoff_base db_connect_backoff_cap)
          (\<lambda>stop s2.
             if stop then Some (Inl ''Shutdown requested before the database was reachable'', s2)
             else f env open_pool (sat_add attempt 1) s2) s1 = Some (fst q, snd q)" by simp
      then show ?thesis
      proof (cases rule: task_bind_cases)
        case (err e)
        from booting_quiet [OF keepsD [OF backoff_pause_quiet err(1)]] b1 show ?thesis
          by (rule transpD [OF booting_order(2), rotated])
      next
        case (ok stop s2)
        have b2: "booting cfg s s2"
          by (rule transpD [OF booting_order(2) b1 booting_quiet [OF keepsD [OF backoff_pause_quiet ok(1)]]])
        with ok(2) IH [of env open_pool "sat_add attempt 1" s2 q] show ?thesis
          by (auto split: if_splits intro: transpD [OF booting_order(2) b2])
      qed
    qed
  qed
  then show ?thesis by simp
qed

lemma initial_reads_result:
  fixes env :: "('w, 'e) sysenv_scheme" and d d' :: "('w, 'z) dbst_scheme"
  assumes "initial_reads env cfg secs d = Some (Inr (nodes, genesis, offsets), d')"
  shows "db_only d d' \<and> distinct_keys nodes \<and> distinct_keys offsets"
proof -
  obtain r1 and d1 :: "('w, 'z) dbst_scheme" where 1: "load_registry_nodes env (cc_registry_hex cfg) d = Some (r1, d1)"
    using assms by (auto simp: initial_reads_def task_try_def split: option.splits prod.splits)
  obtain r2 and d2 :: "('w, 'z) dbst_scheme" where 2: "ensure_network_genesis env (i64_of_u64 (sat_mul secs 1000)) d1 = Some (r2, d2)"
    using assms 1 by (auto simp: initial_reads_def task_try_def split: option.splits prod.splits)
  obtain r3 where 3: "load_metric_offsets env d2 = Some (r3, d')"
    using assms 1 2 by (auto simp: initial_reads_def task_try_def task_return_def split: option.splits prod.splits)
  have n: "nodes = (case r1 of Inr ns \<Rightarrow> ns | Inl _ \<Rightarrow> [])" and o3: "offsets = (case r3 of Inr os \<Rightarrow> os | Inl _ \<Rightarrow> [])"
    using assms 1 2 3 by (auto simp: initial_reads_def task_try_def task_return_def)
  have "keeps db_only (load_registry_nodes env (cc_registry_hex cfg))"
    and "keeps db_only (ensure_network_genesis env (i64_of_u64 (sat_mul secs 1000)))" and "keeps db_only (load_metric_offsets env)"
    unfolding load_registry_nodes_def ensure_network_genesis_def load_metric_offsets_def
    by (intro db_bind db_pure run_sql_db)+
  from keepsD [OF this(1) 1] keepsD [OF this(2) 2] keepsD [OF this(3) 3] have "db_only d d'"
    by (meson db_only_trans)
  moreover have "distinct_keys nodes"
    using 1 by (cases r1) (auto simp: n load_registry_nodes_def task_bind_Inr_iff)
  moreover have "distinct_keys offsets"
    using 3 by (cases r3) (auto simp: o3 load_metric_offsets_def task_bind_Inr_iff)
  ultimately show ?thesis by blast
qed

lemma initial_reads_keep:
  assumes "initial_reads env cfg secs d = Some (r, d')"
  shows "start_keeps (d_tables d) (d_tables d')"
proof -
  let ?R = "on_tables start_keeps"
  have "keeps ?R (initial_reads env cfg secs)"
    unfolding initial_reads_def load_registry_nodes_def ensure_network_genesis_def load_metric_offsets_def
    by (intro keeps_try [OF on_tables_trans] keeps_bind [OF on_tables_trans] keeps_pure [OF on_tables_refl]
        query_keeps run_sql_keeps start_keeps_order)
      (auto simp: insert_genesis_def start_keeps_def same_ledger_def split: sum.splits list.splits option.splits)
  from keepsD [OF this assms] show ?thesis by (simp add: on_tables_def)
qed

lemma started_parts:
  fixes os env :: "('w, 'e) sysenv_scheme" and s :: "'w app"
  assumes "start_process os open_pool a tables w = Some (Inr (env, cfg, settlement, s))"
  obtains nc and n :: "'w net" where "resolve_config a = Inr nc"
    and "env = os\<lparr>e_allow_private := private_targets_allowed a\<rparr>"
    and "chain_config_new env (nc_rpc_urls nc) (ar_registry_address a) (nc_poll_interval_secs nc)
        (nc_from_block nc) (nc_confirmations nc) (ar_expected_chain_id a)
        \<lparr>lc_initial = ar_log_chunk_size a, lc_min = ar_log_chunk_min a, lc_max = ar_log_chunk_max a\<rparr> w = Inr (cfg, n)"
    and "init_state env open_pool a cfg tables n = Some (Inr s)" and "seed_warm_ok a"
proof -
  let ?env = "os\<lparr>e_allow_private := private_targets_allowed a\<rparr>"
  obtain nc where nc: "resolve_config a = Inr nc"
    using assms by (cases "resolve_config a") (auto simp: start_process_def)
  obtain cfg0 n where cn: "chain_config_new ?env (nc_rpc_urls nc) (ar_registry_address a) (nc_poll_interval_secs nc)
        (nc_from_block nc) (nc_confirmations nc) (ar_expected_chain_id a)
        \<lparr>lc_initial = ar_log_chunk_size a, lc_min = ar_log_chunk_min a, lc_max = ar_log_chunk_max a\<rparr> w = Inr (cfg0, n)"
    using assms unfolding start_process_def nc Let_def by (simp split: sum.splits prod.splits)
  have "\<exists>s0. init_state ?env open_pool a cfg0 tables n = Some (Inr s0) \<and> seed_warm_ok a \<and>
      env = ?env \<and> cfg = cfg0 \<and> s = s0"
    using assms unfolding start_process_def nc Let_def
    by (simp add: cn split: sum.splits option.splits if_splits)
  then show thesis using that [OF nc _ _ _, of n] cn by auto
qed

lemma started_reads:
  fixes os env :: "('w, 'e) sysenv_scheme" and s :: "'w app"
  assumes "start_process os open_pool a tables w = Some (Inr (env, cfg, settlement, s))"
  obtains d0 d' :: "'w dbst" and genesis where "t_offsets (d_tables d0) = t_offsets tables"
    and "initial_reads env cfg (ar_uptime_check_interval a) d0 = Some (Inr (a_nodes s, genesis, a_metric_offsets s), d')"
    and "env = os\<lparr>e_allow_private := private_targets_allowed a\<rparr>"
proof -
  obtain n :: "'w net" where st: "init_state env open_pool a cfg tables n = Some (Inr s)"
    and env: "env = os\<lparr>e_allow_private := private_targets_allowed a\<rparr>"
    using assms by (rule started_parts)
  let ?d = "net.extend n (dbst.fields tables) :: 'w dbst"
  from st obtain att and d0 :: "'w dbst" where con: "connect_db env open_pool 0 ?d = Some (Inr att, d0)"
    by (auto simp: init_state_def split: option.splits sum.splits)
  from connect_db_booting [OF con, of cfg] have "t_offsets (d_tables d0) = t_offsets tables"
    by (simp add: booting_def start_keeps_def net.defs dbst.defs)
  moreover from st con obtain nodes genesis offsets and d' :: "'w dbst" and now w' where
    rd: "initial_reads env cfg (ar_uptime_check_interval a) d0 = Some (Inr (nodes, genesis, offsets), d')"
    and s: "s = dbst.extend (d'\<lparr>n_world := w'\<rparr>) (app.fields nodes [] [] [] (topo_dedup_new now) [] offsets
        (default_sync (cc_registry_hex cfg)) 0 None False genesis default_settlement_status)"
    by (auto simp: init_state_def split: option.splits sum.splits prod.splits)
  moreover have "a_nodes s = nodes" "a_metric_offsets s = offsets" by (simp_all add: s dbst.defs app.defs)
  ultimately show thesis using env that [of d0 genesis d'] by simp
qed

lemma started_state:
  fixes os env :: "('w, 'e) sysenv_scheme" and s :: "'w app"
  assumes "start_process os open_pool a tables w = Some (Inr (env, cfg, settlement, s))"
  shows "(e_allow_private env \<longleftrightarrow> ar_network a = ''localtestnet'' \<or> ar_allow_private_node_addresses a) \<and> net_ok cfg s \<and> n_chain_id s = 0 \<and> a_seed_cache s = None \<and> a_recent_events s = [] \<and>
    distinct (map fst (a_nodes s)) \<and> distinct (map fst (a_metric_offsets s)) \<and>
    cc_endpoints cfg \<noteq> [] \<and> cc_from_block cfg \<noteq> 0 \<and> cc_expected_chain_id cfg = ar_expected_chain_id a \<and>
    0 < unat (ar_seed_warm_secs a) \<and> unat (ar_seed_warm_secs a) < 300 \<and>
    (ar_network a \<noteq> ''localtestnet'' \<longrightarrow> ar_confirmations a = None \<longrightarrow> head_bounded env cfg) \<and>
    same_ledger tables (d_tables s)"
proof -
  obtain nc and n :: "'w net" where nc: "resolve_config a = Inr nc"
    and env: "env = os\<lparr>e_allow_private := private_targets_allowed a\<rparr>"
    and cn: "chain_config_new env (nc_rpc_urls nc) (ar_registry_address a) (nc_poll_interval_secs nc)
        (nc_from_block nc) (nc_confirmations nc) (ar_expected_chain_id a)
        \<lparr>lc_initial = ar_log_chunk_size a, lc_min = ar_log_chunk_min a, lc_max = ar_log_chunk_max a\<rparr> w = Inr (cfg, n)"
    and st: "init_state env open_pool a cfg tables n = Some (Inr s)" and warm: "seed_warm_ok a"
    using assms by (rule started_parts)
  from cn obtain eps t where fo: "failover_new (x_http_parse env) (x_url_parse env) (nc_rpc_urls nc) = Inr (eps, t)"
    by (auto simp: chain_config_new_def split: sum.splits)
  from cn fo have net: "net_ok cfg n" and id: "n_chain_id n = 0" and cfg: "cc_from_block cfg = nc_from_block nc"
      "cc_confirmations cfg = nc_confirmations nc" "cc_expected_chain_id cfg = ar_expected_chain_id a"
    using failover_new_ok [OF fo] by (auto simp: chain_config_new_def net_ok_def chunk_new_ok split: sum.splits)
  from net have eps: "cc_endpoints cfg \<noteq> []" by (auto simp: net_ok_def transport_ok_def)
  from nc have from0: "nc_from_block nc \<noteq> 0"
    and conf: "ar_network a \<noteq> ''localtestnet'' \<Longrightarrow> ar_confirmations a = None \<Longrightarrow> nc_confirmations nc = 20"
    by (auto simp: resolve_config_def network_defaults_def Let_def split: if_splits option.splits)
  let ?d = "net.extend n (dbst.fields tables) :: 'w dbst"
  from st obtain att and d0 :: "'w dbst" where con: "connect_db env open_pool 0 ?d = Some (Inr att, d0)"
    by (auto simp: init_state_def split: option.splits sum.splits)
  have "net_ok cfg ?d" "n_chain_id ?d = 0" "d_tables ?d = tables"
    using net id by (simp_all add: net_ok_def net.defs dbst.defs)
  with connect_db_booting [OF con, of cfg] have d: "net_ok cfg d0" "n_chain_id d0 = 0" "start_keeps tables (d_tables d0)"
    by (auto simp: booting_def)
  from st con obtain nodes genesis offsets and d' :: "'w dbst" and now w' where
    rd: "initial_reads env cfg (ar_uptime_check_interval a) d0 = Some (Inr (nodes, genesis, offsets), d')"
    and s: "s = dbst.extend (d'\<lparr>n_world := w'\<rparr>) (app.fields nodes [] [] [] (topo_dedup_new now) [] offsets
        (default_sync (cc_registry_hex cfg)) 0 None False genesis default_settlement_status)"
    by (auto simp: init_state_def split: option.splits sum.splits prod.splits)
  from initial_reads_result [OF rd] have k: "db_only d0 d'" "distinct_keys nodes" "distinct_keys offsets" by blast+
  from k(1) d have "net_ok cfg d'" and "n_chain_id d' = 0" by (auto simp: db_only_def net_ok_def)
  then have "net_ok cfg s" and "n_chain_id s = 0" by (simp_all add: s net_ok_def dbst.defs app.defs)
  moreover have "a_seed_cache s = None" "a_recent_events s = []" "a_nodes s = nodes" "a_metric_offsets s = offsets"
    by (simp_all add: s dbst.defs app.defs)
  moreover have "0 < unat (ar_seed_warm_secs a)" and "unat (ar_seed_warm_secs a) < 300"
    using warm by (simp_all add: seed_warm_ok_def seed_stale_max_def unat_gt_0)
  moreover have "head_bounded env cfg" if "ar_network a \<noteq> ''localtestnet''" "ar_confirmations a = None"
    using conf [OF that] cfg(2) by (simp add: head_bounded_def)
  moreover from transpD [OF start_keeps_order(2) d(3) initial_reads_keep [OF rd]] have "same_ledger tables (d_tables s)"
    by (simp add: s dbst.defs app.defs start_keeps_def)
  ultimately show ?thesis using k(2,3) eps from0 cfg by (simp add: env private_targets_allowed_def)
qed

text \<open>
  C17: a process that starts is ready for its tasks. When the configuration passes the checks and the
  database is reached, private node addresses are contacted exactly on the local network or when that is
  asked for, the client is healthy and has cached no chain id, no seed copy is cached, the
  nodes and the lifetime totals have one entry per address, there is at least one endpoint, the replay
  is bounded below, the seed copy is refreshed before it goes stale, and away from the local network
  the default confirmations keep the safe head off the largest block number. These are the hypotheses
  under which the properties of the tasks hold.
\<close>

theorem process_starts_ready:
  fixes os env :: "('w, 'e) sysenv_scheme" and s :: "'w app"
  assumes "start_process os open_pool a tables w = Some (Inr (env, cfg, settlement, s))"
  shows "(e_allow_private env \<longleftrightarrow> ar_network a = ''localtestnet'' \<or> ar_allow_private_node_addresses a) \<and> net_ok cfg s \<and> n_chain_id s = 0 \<and> a_seed_cache s = None \<and> a_recent_events s = [] \<and>
    distinct (map fst (a_nodes s)) \<and> distinct (map fst (a_metric_offsets s)) \<and>
    cc_endpoints cfg \<noteq> [] \<and> cc_from_block cfg \<noteq> 0 \<and> cc_expected_chain_id cfg = ar_expected_chain_id a \<and>
    0 < unat (ar_seed_warm_secs a) \<and> unat (ar_seed_warm_secs a) < 300 \<and>
    (ar_network a \<noteq> ''localtestnet'' \<longrightarrow> ar_confirmations a = None \<longrightarrow> head_bounded env cfg)"
  using started_state [OF assms] by blast

definition demo_args :: args where
  "demo_args =
     \<lparr>ar_network = ''testnet'', ar_registry_address = hex_address 0xbb, ar_rpc_url = Some ''https://a.example'',
      ar_expected_chain_id = Some 421614, ar_confirmations = None, ar_log_chunk_size = 50000,
      ar_log_chunk_min = 500, ar_log_chunk_max = 1000000, ar_from_block = 100, ar_port = 4000,
      ar_database_url = ''postgres://localhost/indexer'', ar_uptime_check_interval = 60,
      ar_geoip_db_path = ''./assets/GeoLite2-City.mmdb'',
      ar_entry_point_address = None, ar_reward_pool_address = None, ar_settlement_from_block = None,
      ar_allow_private_node_addresses = False, ar_health_max_sync_age_secs = 300,
      ar_node_topology_poll_secs = 60, ar_seed_max_pow_difficulty = 16, ar_seed_warm_secs = 240\<rparr>"

text \<open>The environment of the examples with another way of writing and parsing totals.\<close>

definition recoded :: "(cumulative \<Rightarrow> string) \<Rightarrow> (string \<Rightarrow> cumulative option) \<Rightarrow> unit sysenv" where
  "recoded j p = demo_sys\<lparr>e_totals_json := j, e_totals_parse := p\<rparr>"

lemma recoded_same: "recoded (e_totals_json demo_sys) (e_totals_parse demo_sys) = demo_sys"
  by (simp add: recoded_def)

lemma recoded_sel [simp]:
  "e_totals_json (recoded j p) = j" "e_totals_parse (recoded j p) = p" "e_jsonb_text (recoded j p) = Inr"
  "now_ms (recoded j p) = now_ms demo_sys" "e_instant (recoded j p) = e_instant demo_sys"
  by (auto simp: recoded_def now_ms_def demo_sys_def env.defs sysenv.defs)

lemma recoded_sql [simp]: "run_sql (recoded j p) = run_sql demo_sys"
  by (intro ext) (simp add: run_sql_def recoded_def)

lemma demo_sys_ext:
  "x_http_parse demo_sys = Inr" "x_url_parse demo_sys = (\<lambda>_. None)" "x_addr_parse demo_sys = parse_hex_address"
  by (simp_all add: demo_sys_def demo_env_def demo_ext_def example_ext_def ext.defs env.defs sysenv.defs)

lemma demo_chain_config:
  "\<exists>cfg n. chain_config_new (recoded j p) [''https://a.example''] (hex_address 0xbb) poll from conf expected chunk () =
     Inr (cfg, n)"
  by (simp add: chain_config_new_def failover_new_def recoded_def demo_sys_ext hex_address_roundtrip)

definition fresh_tables :: "tables \<Rightarrow> bool" where
  "fresh_tables t \<longleftrightarrow> t_nodes t = [] \<and> t_reputation t = [] \<and> t_state t = []"

lemma migrated_fresh: "fresh_tables t \<Longrightarrow> migrated t = t"
  by (simp add: migrated_def fresh_tables_def map_rows_def)

lemma recoded_connect: "connect (recoded j p) (\<lambda>w. (True, w)) s = Some (Inr (), s\<lparr>d_tables := migrated (d_tables s)\<rparr>)"
proof -
  have "connect (recoded j p) (\<lambda>w. (True, w)) s = connect demo_sys (\<lambda>w. (True, w)) s"
    by (simp add: connect_def run_migrations_def)
  then show ?thesis by simp
qed

lemma demo_reads:
  fixes d :: "unit dbst"
  assumes "fresh_tables (d_tables d)"
  shows "\<exists>offs. initial_reads (recoded j p) cfg secs d = Some (Inr ([], None, offs), d)"
  using assms
  by (simp add: initial_reads_def task_try_def task_bind_def task_return_def load_registry_nodes_def
      ensure_network_genesis_def load_metric_offsets_def query_def insert_genesis_def genesis_evidence_def
      fresh_tables_def collect_map_def Let_def)

lemma recoded_starts:
  assumes "settlement_config_new (recoded j p) ep None 100 = Inr settlement" and fresh: "fresh_tables t"
  shows "\<exists>cfg s. start_process (recoded j p) (\<lambda>w. (True, w)) (demo_args\<lparr>ar_entry_point_address := ep\<rparr>) t () =
    Some (Inr (recoded j p, cfg, settlement, s))"
proof -
  let ?a = "demo_args\<lparr>ar_entry_point_address := ep\<rparr>" and ?os = "recoded j p"
  have env: "?os\<lparr>e_allow_private := private_targets_allowed ?a\<rparr> = ?os"
    by (simp add: private_targets_allowed_def demo_args_def recoded_def demo_sys_def env.defs sysenv.defs)
  have urls: "parse_rpc_urls ''https://a.example'' = [''https://a.example'']" by code_simp
  have "\<exists>nc. resolve_config ?a = Inr nc \<and> nc_rpc_urls nc = [''https://a.example''] \<and> nc_from_block nc = 100"
    by (simp add: resolve_config_def demo_args_def network_defaults_def urls)
  then obtain nc where nc: "resolve_config ?a = Inr nc" "nc_rpc_urls nc = [''https://a.example'']" "nc_from_block nc = 100"
    by blast
  obtain cfg n where cn: "chain_config_new ?os (nc_rpc_urls nc) (ar_registry_address ?a)
      (nc_poll_interval_secs nc) (nc_from_block nc) (nc_confirmations nc) (ar_expected_chain_id ?a)
      \<lparr>lc_initial = ar_log_chunk_size ?a, lc_min = ar_log_chunk_min ?a, lc_max = ar_log_chunk_max ?a\<rparr> () = Inr (cfg, n)"
    using demo_chain_config [of j p "nc_poll_interval_secs nc" "nc_from_block nc" "nc_confirmations nc" "Some 421614"
      "\<lparr>lc_initial = 50000, lc_min = 500, lc_max = 1000000\<rparr>"] by (auto simp: nc(2) demo_args_def)
  let ?d = "net.extend n (dbst.fields t) :: unit dbst"
  have "d_tables ?d = t" by (simp add: net.defs dbst.defs)
  with demo_reads [of "?d\<lparr>d_tables := t\<rparr>" j p cfg "ar_uptime_check_interval ?a"] fresh
  have "\<exists>s. init_state ?os (\<lambda>w. (True, w)) ?a cfg t n = Some (Inr s)"
    by (auto simp: init_state_def connect_db.simps recoded_connect migrated_fresh)
  then obtain s where "init_state ?os (\<lambda>w. (True, w)) ?a cfg t n = Some (Inr s)" by blast
  moreover have "seed_warm_ok ?a" by (simp add: seed_warm_ok_def demo_args_def seed_stale_max_def)
  moreover have "settlement_config_new ?os (ar_entry_point_address ?a) (ar_reward_pool_address ?a)
      (case ar_settlement_from_block ?a of Some b \<Rightarrow> b | None \<Rightarrow> nc_from_block nc) = Inr settlement"
    using assms(1) nc(3) by (simp add: demo_args_def)
  ultimately have "start_process ?os (\<lambda>w. (True, w)) ?a t () = Some (Inr (?os, cfg, settlement, s))"
    using nc(1) cn by (simp add: start_process_def env Let_def)
  then show ?thesis by blast
qed

lemma demo_starts:
  assumes "settlement_config_new demo_sys ep None 100 = Inr settlement"
  shows "\<exists>cfg s. start_process demo_sys (\<lambda>w. (True, w)) (demo_args\<lparr>ar_entry_point_address := ep\<rparr>) empty_tables () =
    Some (Inr (demo_sys, cfg, settlement, s))"
  using recoded_starts [of "e_totals_json demo_sys" "e_totals_parse demo_sys" ep settlement empty_tables] assms
  by (simp add: recoded_same fresh_tables_def empty_tables_def)

theorem process_starts_ready_witness:
  "\<exists>env cfg s. start_process demo_sys (\<lambda>w. (True, w)) demo_args empty_tables () =
       Some (Inr (env, cfg, None, s)) \<and> net_ok cfg s \<and> head_bounded env cfg \<and> \<not> e_allow_private env"
proof -
  have "settlement_config_new demo_sys None None 100 = Inr None"
    by (simp add: settlement_config_new_def set_value_def)
  moreover have "demo_args\<lparr>ar_entry_point_address := None\<rparr> = demo_args" by (simp add: demo_args_def)
  ultimately obtain cfg s where
    "start_process demo_sys (\<lambda>w. (True, w)) demo_args empty_tables () = Some (Inr (demo_sys, cfg, None, s))"
    using demo_starts [of None None] by auto
  from this process_starts_ready [OF this] show ?thesis
    by (intro exI conjI) (auto simp: demo_args_def)
qed

end
