(* ===== verification/Durable.thy ===== *)
theory Durable
  imports Boot
begin

text \<open>
  The lifetime totals across restarts of the indexer: what the flush of \<^verbatim>\<open>src/node/subscriber.rs\<close>
  saves, what \<^verbatim>\<open>main\<close> reads at the next start, and what is lost when that read fails.
\<close>

section \<open>The flush loop\<close>

text \<open>
  A round of \<^verbatim>\<open>metric_offset_flush_loop\<close>: it ends its wait on the shutdown or on the
  tick, and flushes either way; whether it was the last is what it returns.
\<close>

definition flush_loop_round :: "('w, 'e) sysenv_scheme \<Rightarrow> (('w, 'z) app_scheme, bool) task" where
  "flush_loop_round env =
     task_bind (is_cancelled env) (\<lambda>stop.
     task_bind (flush_dirty_offsets env) (\<lambda>_. task_return stop))"

lemma flush_loop_flushes:
  fixes s s' :: "('w, 'z) app_scheme"
  assumes "flush_loop_round env s = Some (r, s')"
  obtains w r1 where "flush_dirty_offsets env (s\<lparr>n_world := w\<rparr>) = Some (r1, s')"
  using assms by (auto simp: flush_loop_round_def is_cancelled_def task_bind_def task_return_def
      split: prod.splits option.splits sum.splits)

section \<open>Saved totals\<close>

text \<open>
  Totals as the database gives them back: written as JSON, stored as JSONB, read as text and parsed.
  The decimal reading of the JSON library may differ from the value written in the last place.
\<close>

definition stored_form :: "('w, 'e) sysenv_scheme \<Rightarrow> cumulative \<Rightarrow> cumulative option" where
  "stored_form env c =
     (case e_jsonb_text env (e_totals_json env c) of Inl _ \<Rightarrow> None | Inr t \<Rightarrow> e_totals_parse env t)"

text \<open>They come back at all, or exactly.\<close>

definition savable :: "('w, 'e) sysenv_scheme \<Rightarrow> node_offset \<Rightarrow> bool" where
  "savable env off \<longleftrightarrow> stored_form env (no_banked off) \<noteq> None \<and> stored_form env (no_last_raw off) \<noteq> None"

definition totals_roundtrip :: "('w, 'e) sysenv_scheme \<Rightarrow> cumulative \<Rightarrow> bool" where
  "totals_roundtrip env c \<longleftrightarrow> stored_form env c = Some c"

text \<open>An entry as it comes back: its stored totals, without the allowance and the flags.\<close>

definition reloaded :: "('w, 'e) sysenv_scheme \<Rightarrow> node_offset \<Rightarrow> node_offset" where
  "reloaded env off = default_offset
     \<lparr>no_last_node_start_time := no_last_node_start_time off, no_banked := the (stored_form env (no_banked off)),
      no_last_raw := the (stored_form env (no_last_raw off))\<rparr>"

definition database_up :: "('w, 'e) sysenv_scheme \<Rightarrow> bool" where
  "database_up env \<longleftrightarrow> (\<forall>name w. fst (e_db env name w) = Done)"

definition stored_as :: "('w, 'e) sysenv_scheme \<Rightarrow> tables \<Rightarrow> string \<Rightarrow> node_offset \<Rightarrow> bool" where
  "stored_as env t a off \<longleftrightarrow> (\<exists>r. map_of (t_offsets t) a = Some r \<and> offset_of_row env r = Some off)"

lemma reloaded_sel [simp]:
  "no_last_node_start_time (reloaded env off) = no_last_node_start_time off"
  "savable env off \<Longrightarrow> stored_form env (no_banked off) = Some (no_banked (reloaded env off))"
  "savable env off \<Longrightarrow> stored_form env (no_last_raw off) = Some (no_last_raw (reloaded env off))"
  by (auto simp: reloaded_def savable_def)

lemma mark_clean_tables [simp]: "d_tables (mark_clean a s) = d_tables s"
  by (simp add: mark_clean_def)

text \<open>A save writes at most the row of its node, and that row when the database takes it and the totals
  come back.\<close>

lemma save_row_only:
  fixes s s' :: "('w, 'z) app_scheme"
  assumes "save_offset env ts p s = Some (r, s')"
  shows "t_offsets (d_tables s') = t_offsets (d_tables s) \<or>
      (\<exists>row. t_offsets (d_tables s') = AList.update (fst p) row (t_offsets (d_tables s)))"
proof -
  let ?R = "\<lambda>t t'. t_offsets t' = t_offsets t \<or> (\<exists>row. t_offsets t' = AList.update (fst p) row (t_offsets t))"
  have k: "keeps (on_tables ?R) (save_metric_offset env (fst p) (snd p) ts :: (('w, 'z) app_scheme, unit) task)"
    unfolding save_metric_offset_def by (rule run_sql_keeps) (auto simp: reflp_def split: sum.splits)
  from assms obtain q and s1 :: "('w, 'z) app_scheme" where
    m: "save_metric_offset env (fst p) (snd p) ts s = Some (q, s1)" and t: "d_tables s' = d_tables s1"
    by (cases "save_metric_offset env (fst p) (snd p) ts s")
      (auto simp: save_offset_def task_try_def task_return_def task_modify_def split: sum.splits)
  from keepsD [OF k m] have "?R (d_tables s) (d_tables s1)" unfolding on_tables_def by (rule conjunct2)
  with t show ?thesis by simp
qed

lemma save_offset_saves:
  fixes s s' :: "('w, 'z) app_scheme"
  assumes "save_offset env ts p s = Some (r, s')" and up: "database_up env" and sv: "savable env (snd p)"
  shows "\<exists>row. t_offsets (d_tables s') = AList.update (fst p) row (t_offsets (d_tables s)) \<and>
        offset_of_row env row = Some (reloaded env (snd p))"
proof -
  have form: "\<exists>t. e_jsonb_text env (e_totals_json env c) = Inr t \<and> e_totals_parse env t = Some v"
    if "stored_form env c = Some v" for c v
    using that by (simp add: stored_form_def split: sum.splits)
  obtain b raw where c: "e_jsonb_text env (e_totals_json env (no_banked (snd p))) = Inr b"
      "e_totals_parse env b = Some (no_banked (reloaded env (snd p)))"
      "e_jsonb_text env (e_totals_json env (no_last_raw (snd p))) = Inr raw"
      "e_totals_parse env raw = Some (no_last_raw (reloaded env (snd p)))"
    using form [OF reloaded_sel(2) [OF sv]] form [OF reloaded_sel(3) [OF sv]] by blast
  obtain w where w: "e_db env ''save_metric_offset'' (n_world s) = (Done, w)"
    using up [unfolded database_up_def, rule_format, of "''save_metric_offset''" "n_world s"]
    by (cases "e_db env ''save_metric_offset'' (n_world s)") simp
  let ?row = "\<lparr>mo_last_node_start_time = no_last_node_start_time (snd p), mo_offsets = b, mo_last_raw = raw,
      mo_updated_at_ms = ts\<rparr>"
  have "d_tables s' = (d_tables s)\<lparr>t_offsets := AList.update (fst p) ?row (t_offsets (d_tables s))\<rparr>"
    using assms(1) c w by (auto simp: save_offset_def save_metric_offset_def run_sql_def task_try_def task_modify_def)
  moreover have "offset_of_row env ?row = Some (reloaded env (snd p))"
    by (simp add: offset_of_row_def c) (simp add: reloaded_def)
  ultimately show ?thesis by auto
qed

lemma each_offset_saved:
  fixes s s' :: "('w, 'z) app_scheme"
  assumes "task_each (save_offset env ts) ps s = Some (r, s')" and "database_up env"
    and "distinct_keys ps" and "distinct_keys (t_offsets (d_tables s))"
  shows "(\<forall>(a, off) \<in> set ps. savable env off \<longrightarrow> stored_as env (d_tables s') a (reloaded env off)) \<and>
    (\<forall>a. a \<notin> fst ` set ps \<longrightarrow> map_of (t_offsets (d_tables s')) a = map_of (t_offsets (d_tables s)) a) \<and>
    distinct_keys (t_offsets (d_tables s'))"
  using assms
proof (induction ps arbitrary: s)
  case (Cons p ps)
  obtain r1 s1 where save: "save_offset env ts p s = Some (r1, s1)"
    and rest: "task_each (save_offset env ts) ps s1 = Some (r, s') \<or> s1 = s' \<and> r1 = r \<and> isl r1"
    using Cons.prems(1) by (auto simp: task_bind_def split: option.splits prod.splits sum.splits)
  have "r1 = Inr ()"
    using save by (auto simp: save_offset_def task_try_def task_return_def task_modify_def split: option.splits prod.splits sum.splits)
  with rest have rest: "task_each (save_offset env ts) ps s1 = Some (r, s')" by simp
  note one = save_row_only [OF save] save_offset_saves [OF save]
  have d1: "distinct_keys (t_offsets (d_tables s1))"
    using one(1) Cons.prems(4) by (auto intro: distinct_keys_update)
  have "distinct_keys ps" and new: "fst p \<notin> fst ` set ps" using Cons.prems(3) by auto
  note IH = Cons.IH [OF rest Cons.prems(2) this(1) d1]
  have "stored_as env (d_tables s') (fst p) (reloaded env (snd p))" if sv: "savable env (snd p)"
    using one(2) [OF Cons.prems(2) sv] IH new by (auto simp: stored_as_def update_conv')
  moreover have "map_of (t_offsets (d_tables s')) a = map_of (t_offsets (d_tables s)) a" if "a \<notin> fst ` set (p # ps)" for a
    using IH that one(1) by (auto simp: update_conv')
  ultimately show ?case using IH by (auto split: prod.splits)
qed simp

text \<open>Every entry the flush picks is stored when it ends.\<close>

lemma flush_saves:
  fixes s s' :: "('w, 'z) app_scheme"
  assumes "flush_dirty_offsets env s = Some (r, s')" and "database_up env"
    and "distinct_keys (a_metric_offsets s)" and "distinct_keys (t_offsets (d_tables s))"
  shows "(\<forall>(a, off) \<in> set (pending_offsets s). savable env off \<longrightarrow> stored_as env (d_tables s') a (reloaded env off))"
    and "distinct_keys (t_offsets (d_tables s'))"
proof -
  obtain ts w where "task_each (save_offset env ts) (pending_offsets s) (s\<lparr>n_world := w\<rparr>) = Some (r, s')"
    using assms(1) by (auto simp: flush_dirty_offsets_def unix_ms_def now_ms_def task_bind_def task_return_def split: prod.splits)
  moreover have "distinct_keys (pending_offsets s)" using assms(3) by (auto simp: pending_offsets_def)
  ultimately show "\<forall>(a, off) \<in> set (pending_offsets s). savable env off \<longrightarrow> stored_as env (d_tables s') a (reloaded env off)"
    and "distinct_keys (t_offsets (d_tables s'))"
    using each_offset_saved [of env ts "pending_offsets s" "s\<lparr>n_world := w\<rparr>" r s'] assms(2,4) by simp_all
qed

lemma save_returns: "\<exists>s'. save_offset env ts p s = Some (Inr (), s')"
  by (auto simp: save_offset_def save_metric_offset_def run_sql_def task_try_def task_return_def task_modify_def
      split: prod.split sum.split verdict.split)

lemma flush_returns: "\<exists>s'. flush_dirty_offsets env s = Some (Inr (), s')"
proof -
  have "\<exists>s'. task_each (save_offset env ts) ps s = Some (Inr (), s')" for ts ps s
  proof (induction ps arbitrary: s)
    case (Cons p ps)
    with save_returns [of env ts p s] show ?case by (auto simp: task_bind_def)
  qed simp
  then show ?thesis
    by (auto simp: flush_dirty_offsets_def unix_ms_def now_ms_def task_bind_def task_return_def split: prod.split)
qed

lemma unix_ms_returns: "\<exists>t s'. unix_ms env s = Some (Inr t, s')"
  by (auto simp: unix_ms_def now_ms_def task_bind_def task_return_def split: prod.split)

lemma lifetime_returns: "\<exists>m s'. apply_lifetime_offsets env a parsed s = Some (Inr m, s')"
proof -
  obtain now w where now: "e_instant env (n_world s) = (now, w)" by (cases "e_instant env (n_world s)")
  let ?off = "case map_of (a_metric_offsets s) a of Some off \<Rightarrow> off | None \<Rightarrow> default_offset"
  obtain off seen where ob: "observe parsed now ?off = (off, seen)" by (cases "observe parsed now ?off")
  let ?off2 = "off\<lparr>no_adjusting := ob_adjusted seen\<rparr>"
  obtain t s2 where t: "unix_ms env (s\<lparr>n_world := w, a_metric_offsets := AList.update a ?off2 (a_metric_offsets s)\<rparr>) =
      Some (Inr t, s2)" using unix_ms_returns by blast
  obtain s3 where "save_offset env t (a, ?off2) s2 = Some (Inr (), s3)" using save_returns by blast
  with now ob t show ?thesis
    by (simp add: apply_lifetime_offsets_def task_bind_def instant_now_def task_return_def Let_def)
qed

lemma tick_returns: "\<exists>s'. metrics_tick env a reply s = Some (Inr (), s')"
proof (cases reply)
  case (Scraped h p)
  with lifetime_returns [of env a "fill_build_version h p" s] show ?thesis
    by (auto simp: metrics_tick_def task_bind_def task_modify_def)
qed (simp add: metrics_tick_def)

section \<open>Read back\<close>

lemma keyed_map_filter:
  assumes "distinct_keys rows"
  shows "distinct_keys (List.map_filter (\<lambda>(a, r). map_option (\<lambda>off. (a, off)) (g r)) rows)"
    and "map_of (List.map_filter (\<lambda>(a, r). map_option (\<lambda>off. (a, off)) (g r)) rows) k = Option.bind (map_of rows k) g"
proof -
  let ?f = "List.map_filter (\<lambda>(a, r). map_option (\<lambda>off. (a, off)) (g r))"
  have keys: "fst ` set (?f rs) \<subseteq> fst ` set rs" for rs
    by (induction rs) (auto simp: map_filter_simps split: option.splits)
  have fresh: "map_of (?f rs) k = None" if "k \<notin> fst ` set rs" for k rs
    unfolding map_of_eq_None_iff using keys [of rs] that by (rule contra_subsetD)
  show "distinct_keys (?f rows)"
    using assms
  proof (induction rows)
    case (Cons p rows)
    then have "fst p \<notin> fst ` set (?f rows)" using keys [of rows] by auto
    with Cons show ?case by (cases p) (auto simp: map_filter_simps split: option.splits)
  qed (simp add: map_filter_simps)
  show "map_of (?f rows) k = Option.bind (map_of rows k) g"
    using assms
  proof (induction rows)
    case (Cons p rows)
    with fresh [of "fst p" rows] show ?case by (cases p) (auto simp: map_filter_simps split: option.splits)
  qed (simp add: map_filter_simps)
qed

lemma load_restores:
  assumes "load_metric_offsets env d = Some (Inr offs, d')" and "distinct_keys (t_offsets (d_tables d))"
    and "stored_as env (d_tables d) a off"
  shows "map_of offs a = Some off"
proof -
  let ?rows = "List.map_filter (\<lambda>(a, r). map_option (\<lambda>off. (a, off)) (offset_of_row env r)) (t_offsets (d_tables d))"
  from assms(1) have "offs = collect_map (\<lambda>x. x) ?rows"
    by (auto simp: load_metric_offsets_def task_bind_Inr_iff run_sql_Inr_iff)
  then have "map_of offs a = map_of ?rows a"
    using collect_map_of [of "\<lambda>x. x" ?rows] keyed_map_filter(1) [OF assms(2), of "offset_of_row env"]
    by (simp add: comp_def)
  also have "\<dots> = Option.bind (map_of (t_offsets (d_tables d)) a) (offset_of_row env)"
    by (rule keyed_map_filter(2) [OF assms(2)])
  finally show ?thesis using assms(3) by (auto simp: stored_as_def)
qed

text \<open>The last of the reads at the start, and the tables it reads.\<close>

lemma initial_offsets:
  fixes env :: "('w, 'e) sysenv_scheme" and d d' :: "('w, 'z) dbst_scheme"
  assumes "initial_reads env cfg secs d = Some (Inr (nodes, genesis, offs), d')"
  obtains r and d2 :: "('w, 'z) dbst_scheme" where "load_metric_offsets env d2 = Some (r, d')"
    and "t_offsets (d_tables d2) = t_offsets (d_tables d)" and "offs = (case r of Inr os \<Rightarrow> os | Inl _ \<Rightarrow> [])"
proof -
  obtain r1 and d1 :: "('w, 'z) dbst_scheme" where 1: "load_registry_nodes env (cc_registry_hex cfg) d = Some (r1, d1)"
    using assms by (auto simp: initial_reads_def task_try_def split: option.splits prod.splits)
  obtain r2 and d2 :: "('w, 'z) dbst_scheme" where 2: "ensure_network_genesis env (i64_of_u64 (sat_mul secs 1000)) d1 = Some (r2, d2)"
    using assms 1 by (auto simp: initial_reads_def task_try_def split: option.splits prod.splits)
  obtain r3 where 3: "load_metric_offsets env d2 = Some (r3, d')" "offs = (case r3 of Inr os \<Rightarrow> os | Inl _ \<Rightarrow> [])"
    using assms 1 2 by (auto simp: initial_reads_def task_try_def task_return_def split: option.splits prod.splits)
  have k1: "keeps (on_tables start_keeps) (load_registry_nodes env (cc_registry_hex cfg))"
    unfolding load_registry_nodes_def
    by (intro keeps_bind [OF on_tables_trans] keeps_pure [OF on_tables_refl] query_keeps start_keeps_order)
  have k2: "keeps (on_tables start_keeps) (ensure_network_genesis env (i64_of_u64 (sat_mul secs 1000)))"
    unfolding ensure_network_genesis_def
    by (intro keeps_bind [OF on_tables_trans] keeps_pure [OF on_tables_refl] query_keeps run_sql_keeps start_keeps_order)
      (auto simp: insert_genesis_def start_keeps_def same_ledger_def split: sum.splits list.splits option.splits)
  from keepsD [OF k1 1] keepsD [OF k2 2] have "t_offsets (d_tables d2) = t_offsets (d_tables d)"
    by (simp add: on_tables_def start_keeps_def)
  with 3 show thesis by (intro that)
qed

lemma load_with_database:
  assumes "database_up env" and "load_metric_offsets env d = Some (r, d')"
  shows "\<exists>offs. r = Inr offs"
  using assms(2) assms(1) [unfolded database_up_def, rule_format, of "''load_metric_offsets''" "n_world d"]
  by (auto simp: load_metric_offsets_def task_bind_def run_sql_def query_def task_return_def split: prod.splits)

lemma lifetime_counter:
  "no_banked off2 c = no_banked off c \<Longrightarrow> no_last_raw off2 c = no_last_raw off c \<Longrightarrow> lifetime off2 c = lifetime off c"
  by (simp add: lifetime_def accumulate_def)


section \<open>A read that fails\<close>

lemma first_observation:
  "observe m now default_offset = (off, seen) \<Longrightarrow>
     \<not> ob_restarted seen \<and> no_dirty off \<and> no_banked off = zero_totals"
  by (auto simp: observe_def detect_restart_def track_incarnation_def default_offset_def Let_def
      split: prod.splits if_splits)

lemma first_scrape:
  fixes s s1 :: "('w, 'z) app_scheme"
  assumes "metrics_tick env a (Scraped header m) s = Some (Inr (), s1)" and "is_registered_member s a"
    and "a_metric_offsets s = []"
  obtains off where "a_metric_offsets s1 = [(a, off)]" and "no_dirty off" and "no_banked off = zero_totals"
    and "d_tables s1 = d_tables s"
    and "no_last_raw off = no_last_raw (fst (observe (fill_build_version header m) (fst (e_instant env (n_world s))) default_offset))"
proof -
  obtain now w where now: "instant_now env s = Some (Inr now, s\<lparr>n_world := w\<rparr>)"
    by (cases "e_instant env (n_world s)") (auto simp: instant_now_def)
  obtain off seen where ob: "observe (fill_build_version header m) now default_offset = (off, seen)"
    by (cases "observe (fill_build_version header m) now default_offset")
  from first_observation [OF ob] have f: "\<not> ob_restarted seen" "no_dirty off" "no_banked off = zero_totals" by simp_all
  let ?off = "off\<lparr>no_adjusting := ob_adjusted seen\<rparr>"
  have "fst (e_instant env (n_world s)) = now"
    using now by (auto simp: instant_now_def split: prod.splits)
  moreover have "a_metric_offsets s1 = [(a, ?off)]" and "d_tables s1 = d_tables s"
    using assms now ob f(1)
    by (auto simp: metrics_tick_def apply_lifetime_offsets_def task_bind_def task_modify_def broadcast_metrics_def send_def Let_def)
  ultimately show thesis using f ob by (intro that [of ?off]) simp_all
qed

text \<open>
  C39: a failed read at the start loses the history. When only the read of the lifetime totals fails at a
  start, the process goes on without them, and once a node was scraped the next flush stores zero as the
  totals of its earlier incarnations, whatever its row held. Assumed is that what the flush writes can be
  read, and that zero totals read back as zero.
\<close>

theorem failed_totals_read_resets:
  fixes env0 env :: "('w, 'e) sysenv_scheme" and d d' :: "('w, 'y) dbst_scheme" and s s1 s2 :: "'w app"
  assumes "initial_reads env0 cfg secs d = Some (Inr (nodes, genesis, a_metric_offsets s), d')"
    and "\<forall>w. fst (e_db env0 ''load_metric_offsets'' w) \<noteq> Done"
    and "is_registered_member s a" and "metrics_tick env a (Scraped header m) s = Some (Inr (), s1)"
    and "flush_dirty_offsets env s1 = Some (r, s2)"
    and "database_up env" and "\<forall>p \<in> set (a_metric_offsets s1). savable env (snd p)" and "totals_roundtrip env zero_totals"
    and "distinct (map fst (t_offsets (d_tables s)))"
  shows "\<exists>off. stored_as env (d_tables s2) a off \<and> no_banked off = zero_totals"
proof -
  obtain r3 and d2 :: "('w, 'y) dbst_scheme" where ld: "load_metric_offsets env0 d2 = Some (r3, d')"
    and offs: "a_metric_offsets s = (case r3 of Inr os \<Rightarrow> os | Inl _ \<Rightarrow> [])"
    using assms(1) by (rule initial_offsets)
  have "isl r3"
    using ld assms(2) [rule_format, of "n_world d2"]
    by (auto simp: load_metric_offsets_def task_bind_def run_sql_def query_def split: prod.splits verdict.splits)
  then have "a_metric_offsets s = []" using offs by (cases r3) simp_all
  from first_scrape [OF assms(4,3) this] obtain off where
    off: "a_metric_offsets s1 = [(a, off)]" "no_dirty off" "no_banked off = zero_totals" "d_tables s1 = d_tables s" .
  have "(a, off) \<in> set (pending_offsets s1)" using off by (simp add: pending_offsets_def)
  with flush_saves(1) [OF assms(5,6)] assms(7,9) off have "stored_as env (d_tables s2) a (reloaded env off)" by fastforce
  moreover have "no_banked (reloaded env off) = zero_totals"
    using assms(8) off(3) by (simp add: totals_roundtrip_def reloaded_def)
  ultimately show ?thesis by blast
qed

section \<open>Examples\<close>

text \<open>Totals of seven each are written \<^verbatim>\<open>7\<close>, all others as the given ones.\<close>

definition sevens :: cumulative where
  "sevens = (\<lambda>c. Fin 7)"

definition coded_sys :: "cumulative \<Rightarrow> unit sysenv" where
  "coded_sys x = recoded (\<lambda>c. if c = sevens then ''7'' else if c = zero_totals then ''0'' else ''x'')
     (\<lambda>t. Some (if t = ''7'' then sevens else if t = ''0'' then zero_totals else x))"

lemma sevens_not_zero [simp]: "sevens \<noteq> zero_totals" "zero_totals \<noteq> sevens"
  by (auto simp: sevens_def zero_totals_def dest: fun_cong)

lemma coded_roundtrips:
  "totals_roundtrip (coded_sys x) sevens" "totals_roundtrip (coded_sys x) zero_totals"
  "totals_roundtrip (coded_sys x) x"
  by (auto simp: totals_roundtrip_def stored_form_def coded_sys_def)

lemma coded_up: "database_up (coded_sys x)"
  by (simp add: database_up_def coded_sys_def recoded_def)

text \<open>The same on a shutdown.\<close>

definition stopped_sys :: "cumulative \<Rightarrow> unit sysenv" where
  "stopped_sys x = (coded_sys x)\<lparr>e_cancelled := (\<lambda>w. (True, w))\<rparr>"

definition seven_offset :: node_offset where
  "seven_offset = default_offset\<lparr>no_last_node_start_time := 1000, no_banked := sevens, no_dirty := True\<rparr>"

lemma flush_keeps_fresh:
  fixes s s' :: "'w app"
  assumes "flush_dirty_offsets env s = Some (r, s')" and "fresh_tables (d_tables s)"
  shows "fresh_tables (d_tables s')"
proof -
  let ?R = "\<lambda>a b :: 'w app. fresh_tables (d_tables a) \<longrightarrow> fresh_tables (d_tables b)"
  have save: "keeps ?R (save_offset env ts p)" for ts p
    by (rule keepsI) (auto simp: save_offset_def save_metric_offset_def run_sql_def task_try_def task_return_def
        task_modify_def fresh_tables_def split: prod.splits sum.splits verdict.splits)
  obtain ts w where run: "task_each (save_offset env ts) (pending_offsets s) (s\<lparr>n_world := w\<rparr>) = Some (r, s')"
    using assms(1) by (auto simp: flush_dirty_offsets_def unix_ms_def now_ms_def task_bind_def task_return_def split: prod.splits)
  have "reflp ?R" and "transp ?R" by (auto simp: reflp_def transp_def)
  then have "keeps ?R (task_each (save_offset env ts) (pending_offsets s))" by (rule keeps_each) (rule save)
  from keepsD [OF this run] assms(2) show ?thesis by simp
qed

lemma unit_world: "s\<lparr>n_world := ()\<rparr> = s" for s :: "unit app"
  by (cases s) simp


text \<open>A node with seven of everything before the start, and a start that cannot read it.\<close>

definition unread_sys :: "unit sysenv" where
  "unread_sys = demo_sys\<lparr>e_db := (\<lambda>name w. (if name = ''load_metric_offsets'' then Failed ''timeout'' False else Done, w))\<rparr>"

definition seven_tables :: tables where
  "seven_tables = empty_tables\<lparr>t_offsets := [(''0xaa'', \<lparr>mo_last_node_start_time = 1000, mo_offsets = ''7'',
     mo_last_raw = ''0'', mo_updated_at_ms = 0\<rparr>)]\<rparr>"

definition seven_stored :: node_offset where
  "seven_stored = default_offset\<lparr>no_last_node_start_time := 1000, no_banked := sevens\<rparr>"

theorem failed_totals_read_resets_witness:
  "\<exists>x s1 s2 off. initial_reads unread_sys demo_cfg 60 (demo_db\<lparr>d_tables := seven_tables\<rparr>) =
       Some (Inr ([], None, []), demo_db\<lparr>d_tables := seven_tables\<rparr>) \<and>
     stored_as (coded_sys x) seven_tables ''0xaa'' seven_stored \<and>
     metrics_tick (coded_sys x) ''0xaa'' (Scraped None (quiet_reading sevens (Fin 2000)))
       (demo_subscriber\<lparr>d_tables := seven_tables\<rparr>) = Some (Inr (), s1) \<and>
     flush_dirty_offsets (coded_sys x) s1 = Some (Inr (), s2) \<and>
     stored_as (coded_sys x) (d_tables s2) ''0xaa'' off \<and> no_banked off = zero_totals"
proof -
  let ?m = "quiet_reading sevens (Fin 2000)" and ?s = "demo_subscriber\<lparr>d_tables := seven_tables\<rparr>"
  define x where "x = no_last_raw (fst (observe (fill_build_version None ?m) 1000000000000 default_offset))"
  let ?env = "coded_sys x"
  have reg: "is_registered_member ?s ''0xaa''"
    by (simp add: is_registered_member_def demo_subscriber_def registered_node_def node_of_row_def demo_row_def
        status_from_str_def)
  have none: "a_metric_offsets ?s = []" by (simp add: demo_subscriber_def demo_app_defs)
  have reads: "initial_reads unread_sys demo_cfg 60 (demo_db\<lparr>d_tables := seven_tables\<rparr>) =
      Some (Inr ([], None, []), demo_db\<lparr>d_tables := seven_tables\<rparr>)"
    by (simp add: initial_reads_def task_try_def task_bind_def task_return_def load_registry_nodes_def
        ensure_network_genesis_def load_metric_offsets_def query_def insert_genesis_def genesis_evidence_def
        run_sql_def unread_sys_def seven_tables_def empty_tables_def collect_map_def Let_def)
  obtain s1 where tick: "metrics_tick ?env ''0xaa'' (Scraped None ?m) ?s = Some (Inr (), s1)"
    using tick_returns by blast
  from first_scrape [OF tick reg none] obtain off where off: "a_metric_offsets s1 = [(''0xaa'', off)]"
    "no_banked off = zero_totals" "no_last_raw off = x"
    by (auto simp: x_def coded_sys_def)
  obtain s2 where flush: "flush_dirty_offsets ?env s1 = Some (Inr (), s2)" using flush_returns by blast
  have "\<forall>p \<in> set (a_metric_offsets s1). savable ?env (snd p)"
    using coded_roundtrips [of x] by (simp add: savable_def off totals_roundtrip_def)
  moreover have "distinct (map fst (t_offsets (d_tables ?s)))" by (simp add: seven_tables_def)
  moreover have "\<forall>w. fst (e_db unread_sys ''load_metric_offsets'' w) \<noteq> Done" by (simp add: unread_sys_def)
  ultimately obtain off' where "stored_as ?env (d_tables s2) ''0xaa'' off'" "no_banked off' = zero_totals"
    using failed_totals_read_resets [OF reads [folded none] _ reg tick flush coded_up _ coded_roundtrips(2)] by blast
  moreover have "stored_as ?env seven_tables ''0xaa'' seven_stored"
    by (simp add: stored_as_def seven_tables_def offset_of_row_def coded_sys_def seven_stored_def default_offset_def)
  ultimately show ?thesis using reads tick flush by blast
qed

end
