(* ===== verification/Feed.thy ===== *)
theory Feed
  imports Subscriber
begin

text \<open>
  Model of \<^verbatim>\<open>subscribe_node_events\<close> of \<^verbatim>\<open>src/node/subscriber.rs\<close>: the event
  stream of one node. What the stream delivers is an argument; strings are their UTF-8 bytes. The
  parser of an event is a parameter.
\<close>

section \<open>Slicing text\<close>

text \<open>\<^verbatim>\<open>str::is_char_boundary\<close>: a byte that does not continue a character.\<close>

definition continues_char :: "char \<Rightarrow> bool" where
  "continues_char c \<longleftrightarrow> 128 \<le> (of_char c :: nat) \<and> (of_char c :: nat) < 192"

definition is_char_boundary :: "string \<Rightarrow> nat \<Rightarrow> bool" where
  "is_char_boundary s i \<longleftrightarrow>
     i = 0 \<or> i = length s \<or> i < length s \<and> \<not> continues_char (s ! i)"

text \<open>The prefix of a text for the log; None is the panic of slicing inside a character. It is an
  argument of \<^verbatim>\<open>tracing::warn!\<close>, which evaluates its arguments only when warnings are logged
  (the default; \<^verbatim>\<open>RUST_LOG\<close> can turn them off): \<open>warns\<close> below.\<close>

definition log_excerpt :: "string \<Rightarrow> string option" where
  "log_excerpt data =
     (let i = min (length data) 200 in if is_char_boundary data i then Some (take i data) else None)"

section \<open>One connection\<close>

datatype feed_next = Opened | FeedText string | FeedError | FeedEnded | FeedCancelled

text \<open>How a stretch of the stream ends: nothing more has arrived, the connection is over, or the task is.\<close>

datatype feed_end = Waiting | Disconnected | Stopped

definition on_message ::
  "('w, 'e) sysenv_scheme \<Rightarrow> bool \<Rightarrow> (string \<Rightarrow> ingest_event res) \<Rightarrow> string \<Rightarrow> string \<Rightarrow> (('w, 'z) app_scheme, unit) task" where
  "on_message env warns parse address data s =
     (case parse data of
        Inr e \<Rightarrow> process_event env address e s
      | Inl _ \<Rightarrow>
          if warns then (case log_excerpt data of Some _ \<Rightarrow> Some (Inr (), s) | None \<Rightarrow> None)
          else Some (Inr (), s))"

fun read_feed ::
  "('w, 'e) sysenv_scheme \<Rightarrow> bool \<Rightarrow> (string \<Rightarrow> ingest_event res) \<Rightarrow> string \<Rightarrow> feed_next list \<Rightarrow>
   (('w, 'z) app_scheme, feed_end) task" where
  "read_feed env warns parse address [] = task_return Waiting"
| "read_feed env warns parse address (Opened # ns) = read_feed env warns parse address ns"
| "read_feed env warns parse address (FeedText data # ns) =
     task_bind (on_message env warns parse address data) (\<lambda>_. read_feed env warns parse address ns)"
| "read_feed env warns parse address (FeedError # ns) = task_return Disconnected"
| "read_feed env warns parse address (FeedEnded # ns) = task_return Disconnected"
| "read_feed env warns parse address (FeedCancelled # ns) = task_return Stopped"

section \<open>Reconnecting\<close>

text \<open>
  One connection of the loop: whether the task is cancelled before it, whether the request can be
  built, what is received, and whether the task is cancelled in the pause of three seconds after it.
\<close>

record connection =
  co_cancelled :: bool
  co_built :: bool
  co_feed :: "feed_next list"
  co_pause_cancelled :: bool

fun subscribe_node_events ::
  "('w, 'e) sysenv_scheme \<Rightarrow> bool \<Rightarrow> (string \<Rightarrow> ingest_event res) \<Rightarrow> string \<Rightarrow> connection list \<Rightarrow>
   (('w, 'z) app_scheme, feed_end) task" where
  "subscribe_node_events env warns parse address [] = task_return Waiting"
| "subscribe_node_events env warns parse address (c # cs) =
     (if co_cancelled c \<or> \<not> co_built c then task_return Stopped
      else task_bind (read_feed env warns parse address (co_feed c)) (\<lambda>r.
             if r = Disconnected \<and> \<not> co_pause_cancelled c then subscribe_node_events env warns parse address cs
             else task_return (if r = Disconnected then Stopped else r)))"

section \<open>What ends the task\<close>

text \<open>The messages the task reads, and how a connection ends.\<close>

fun texts_of :: "feed_next list \<Rightarrow> string list" where
  "texts_of [] = []"
| "texts_of (Opened # ns) = texts_of ns"
| "texts_of (FeedText data # ns) = data # texts_of ns"
| "texts_of (_ # ns) = []"

fun end_of :: "feed_next list \<Rightarrow> feed_end" where
  "end_of [] = Waiting"
| "end_of (Opened # ns) = end_of ns"
| "end_of (FeedText _ # ns) = end_of ns"
| "end_of (FeedCancelled # ns) = Stopped"
| "end_of (_ # ns) = Disconnected"

fun texts_read :: "connection list \<Rightarrow> string list" where
  "texts_read [] = []"
| "texts_read (c # cs) =
     (if co_cancelled c \<or> \<not> co_built c then []
      else texts_of (co_feed c) @
        (if end_of (co_feed c) = Disconnected \<and> \<not> co_pause_cancelled c then texts_read cs else []))"

text \<open>Everything but the event buffer, the deduplication table, the broadcasts and the clock.\<close>

definition feed_frame :: "('w, 'z) app_scheme \<Rightarrow> ('w, 'z) app_scheme \<Rightarrow> bool" where
  "feed_frame s s' \<longleftrightarrow>
     d_tables s' = d_tables s \<and> a_nodes s' = a_nodes s \<and> a_metrics s' = a_metrics s \<and>
     a_pow_difficulties s' = a_pow_difficulties s \<and> a_metric_offsets s' = a_metric_offsets s \<and>
     a_sync s' = a_sync s \<and> a_topology_version s' = a_topology_version s \<and> a_seed_cache s' = a_seed_cache s \<and>
     a_settlements s' = a_settlements s \<and> a_probe_now s' = a_probe_now s \<and>
     a_network_genesis_ms s' = a_network_genesis_ms s \<and> app.more s' = app.more s \<and>
     n_chunk s' = n_chunk s \<and> n_chain_id s' = n_chain_id s \<and> n_transport s' = n_transport s \<and>
     n_jitter s' = n_jitter s \<and> (length (a_recent_events s) \<le> 200 \<longrightarrow> length (a_recent_events s') \<le> 200)"

lemma feed_frame_refl [simp]: "feed_frame s s"
  by (simp add: feed_frame_def)

lemma feed_frame_trans: "feed_frame s s1 \<Longrightarrow> feed_frame s1 s2 \<Longrightarrow> feed_frame s s2"
  by (simp add: feed_frame_def)

lemma process_event_framed:
  fixes s :: "('w, 'z) app_scheme"
  shows "\<exists>s'. process_event env address e s = Some (Inr (), s') \<and> feed_frame s s'"
  using push_event_last
  by (auto simp: process_event_def pass_dedup_def task_bind_def task_modify_def task_return_def feed_frame_def
      broadcast_event_def send_def push_event_def max_recent_events_def Let_def split: option.splits prod.splits)

definition unprintable :: "bool \<Rightarrow> (string \<Rightarrow> ingest_event res) \<Rightarrow> string \<Rightarrow> bool" where
  "unprintable warns parse data \<longleftrightarrow>
     (case parse data of Inr _ \<Rightarrow> False | Inl _ \<Rightarrow> warns \<and> log_excerpt data = None)"

lemma log_excerpt_None: "log_excerpt data = None \<longleftrightarrow> 200 < length data \<and> continues_char (data ! 200)"
  by (auto simp: log_excerpt_def is_char_boundary_def Let_def min_def)

lemma read_feed_result:
  fixes s :: "('w, 'z) app_scheme"
  shows "if list_ex (unprintable warns parse) (texts_of ns) then read_feed env warns parse address ns s = None
    else \<exists>s'. read_feed env warns parse address ns s = Some (Inr (end_of ns), s') \<and> feed_frame s s'"
proof (induction ns arbitrary: s)
  case (Cons n ns)
  show ?case
  proof (cases n)
    case (FeedText data)
    show ?thesis
    proof (cases "parse data")
      case (Inr e)
      obtain s1 where "process_event env address e s = Some (Inr (), s1)" "feed_frame s s1"
        using process_event_framed by blast
      with Cons [of s1] show ?thesis
        by (auto simp: FeedText Inr unprintable_def on_message_def task_bind_def intro: feed_frame_trans split: if_splits)
    next
      case (Inl e)
      with Cons [of s] show ?thesis
        by (cases "log_excerpt data"; cases warns) (auto simp: FeedText unprintable_def on_message_def task_bind_def split: if_splits)
    qed
  qed (use Cons [of s] in \<open>simp_all add: task_return_def\<close>)
qed (simp add: task_return_def)

text \<open>
  C40: the event stream of a node ends its task by a panic exactly when warnings are logged, as they
  are by default, and one of the texts read from it is no event and has, after its first 200 bytes, a
  byte inside a character: the log of the parse error slices the text there. Otherwise the task goes
  on, and whatever the node sends, nothing but the event buffer (of at most 200), the deduplication
  table and the broadcasts changes.
\<close>

theorem feed_panics_iff:
  fixes s :: "('w, 'z) app_scheme"
  shows "if warns \<and> list_ex (\<lambda>data. (case parse data of Inr _ \<Rightarrow> False | Inl _ \<Rightarrow> True) \<and>
        200 < length data \<and> continues_char (data ! 200)) (texts_read cs)
    then subscribe_node_events env warns parse address cs s = None
    else \<exists>r s'. subscribe_node_events env warns parse address cs s = Some (Inr r, s') \<and> feed_frame s s'"
proof -
  have bad: "list_ex (unprintable warns parse) ts \<longleftrightarrow> warns \<and> list_ex (\<lambda>data.
        (case parse data of Inr _ \<Rightarrow> False | Inl _ \<Rightarrow> True) \<and> 200 < length data \<and> continues_char (data ! 200)) ts" for ts
    by (induction ts) (auto simp: unprintable_def log_excerpt_None split: sum.splits)
  have "if list_ex (unprintable warns parse) (texts_read cs) then subscribe_node_events env warns parse address cs s = None
    else \<exists>r s'. subscribe_node_events env warns parse address cs s = Some (Inr r, s') \<and> feed_frame s s'"
  proof (induction cs arbitrary: s)
    case (Cons c cs)
    show ?case
    proof (cases "list_ex (unprintable warns parse) (texts_of (co_feed c))")
      case True
      with read_feed_result [of warns parse "co_feed c" env address s] show ?thesis
        by (simp add: task_bind_def task_return_def)
    next
      case False
      with read_feed_result [of warns parse "co_feed c" env address s] obtain s1 where
        "read_feed env warns parse address (co_feed c) s = Some (Inr (end_of (co_feed c)), s1)" "feed_frame s s1" by auto
      with Cons [of s1] False show ?thesis
        by (auto simp: task_bind_def task_return_def intro: feed_frame_trans split: if_splits)
    qed
  qed (simp add: task_return_def)
  then show ?thesis by (simp only: bad)
qed

definition demo_text :: string where
  "demo_text = replicate 199 CHR ''a'' @ [CHR 0xC3, CHR 0xA9]"

definition demo_connection :: connection where
  "demo_connection = \<lparr>co_cancelled = False, co_built = True, co_feed = [Opened, FeedText demo_text],
     co_pause_cancelled = False\<rparr>"

theorem feed_panics_iff_witness:
  "subscribe_node_events demo_sys True (\<lambda>_. Inl ''expected value'') ''0xaa'' [demo_connection] demo_app = None"
proof -
  have "demo_text ! 200 = CHR 0xA9" and "length demo_text = 201"
    by (simp_all add: demo_text_def nth_append)
  moreover have "continues_char CHR 0xA9" by (simp add: continues_char_def)
  ultimately show ?thesis
    using feed_panics_iff [of True "\<lambda>_. Inl ''expected value''" "[demo_connection]" demo_sys "''0xaa''" demo_app]
    by (simp add: demo_connection_def)
qed

end
