(* ===== verification/Confined.thy ===== *)
theory Confined
  imports Feed Boot
begin

text \<open>
  What each task may change of the state it shares with the others: no task breaks the client's
  invariant, the chain id, the one entry per address or the bound of the event buffer; only the seed
  tasks change the seed copy, and only the settlement sync changes the settlement tables.
\<close>

section \<open>The shared state\<close>

definition sound_app :: "chain_config \<Rightarrow> u64 \<Rightarrow> ('w, 'z) app_scheme \<Rightarrow> bool" where
  "sound_app cfg cid s \<longleftrightarrow>
     net_ok cfg s \<and> n_chain_id s \<in> {0, cid} \<and> distinct_keys (a_nodes s) \<and>
     distinct_keys (a_metric_offsets s) \<and> length (a_recent_events s) \<le> 200"

text \<open>A step of a task that leaves the seed copy alone if \<open>sd\<close>, and the settlement tables if \<open>st\<close>.\<close>

definition confined ::
  "bool \<Rightarrow> bool \<Rightarrow> chain_config \<Rightarrow> u64 \<Rightarrow> ('w, 'z) app_scheme \<Rightarrow> ('w, 'z) app_scheme \<Rightarrow> bool" where
  "confined sd st cfg cid s s' \<longleftrightarrow>
     (sound_app cfg cid s \<longrightarrow> sound_app cfg cid s' \<and>
        (sd \<longrightarrow> a_seed_cache s' = a_seed_cache s) \<and> (st \<longrightarrow> same_ledger (d_tables s) (d_tables s')))"

lemma confined_refl [simp]: "reflp (confined sd st cfg cid)"
  and confined_trans [simp]: "transp (confined sd st cfg cid)"
  by (auto simp: confined_def same_ledger_def reflp_def transp_def)

lemmas cf_bind = keeps_bind [OF confined_trans]
lemmas cf_try = keeps_try [OF confined_trans]
lemmas cf_pure = keeps_pure [OF confined_refl]

lemma cf_state: "(\<And>x. keeps (confined sd st cfg cid) (f x)) \<Longrightarrow> keeps (confined sd st cfg cid) (\<lambda>s. f s s)"
  by (auto simp: keeps_def)

lemma confined_quiet: "quiet cfg s s' \<Longrightarrow> confined sd st cfg cid s s'"
proof -
  assume q: "quiet cfg s s'"
  then have "net.more s' = net.more s" by (simp add: quiet_def frame_def)
  then have "a_nodes s' = a_nodes s" "a_metric_offsets s' = a_metric_offsets s" "d_tables s' = d_tables s"
    "a_recent_events s' = a_recent_events s" "a_seed_cache s' = a_seed_cache s"
    by (cases s; cases s'; simp)+
  with q show ?thesis by (auto simp: confined_def sound_app_def quiet_def frame_def)
qed

lemma cf_quiet: "keeps (quiet cfg) m \<Longrightarrow> keeps (confined sd st cfg cid) m"
  by (erule keeps_weaken) (rule confined_quiet)

lemma confined_db: "db_only s s' \<Longrightarrow> confined sd False cfg cid s s'"
  by (auto simp: db_only_def confined_def sound_app_def net_ok_def)

lemma confined_tables: "on_tables same_ledger s s' \<Longrightarrow> confined sd st cfg cid s s'"
  by (auto simp: on_tables_def db_only_def confined_def sound_app_def net_ok_def)

lemma cf_sql:
  assumes "\<And>t a t'. stmt t = Inr (a, t') \<Longrightarrow> same_ledger t t'"
  shows "keeps (confined sd st cfg cid) (run_sql env name stmt)"
  by (rule keeps_weaken [OF run_sql_keeps [OF assms same_ledger_order(1)] confined_tables])

lemma cf_query: "keeps (confined sd st cfg cid) (run_sql env name (query f))"
  by (rule cf_sql) (simp add: query_def same_ledger_def)

lemma cf_now: "keeps (confined sd st cfg cid) (now_ms env)"
  by (rule keeps_weaken [OF now_ms_keeps [OF same_ledger_order(1)] confined_tables])

lemma cf_clock: "keeps (confined sd st cfg cid) (instant_now env)" "keeps (confined sd st cfg cid) (is_cancelled env)"
  by (rule keepsI; auto simp: instant_now_def is_cancelled_def confined_def sound_app_def net_ok_def split: prod.splits)+

lemma cf_modify: "(\<And>s. confined sd st cfg cid s (f s)) \<Longrightarrow> keeps (confined sd st cfg cid) (task_modify f)"
  by (auto simp: keeps_def task_modify_def)

text \<open>Parts of the state the invariant says nothing of.\<close>

lemma confined_updates:
  "confined sd st cfg cid s (s\<lparr>a_sync := y\<rparr>)" "confined sd st cfg cid s (s\<lparr>a_settlements := se\<rparr>)"
  "confined sd st cfg cid s (s\<lparr>a_metrics := m\<rparr>)" "confined sd st cfg cid s (s\<lparr>a_pow_difficulties := d\<rparr>)"
  "confined sd st cfg cid s (s\<lparr>a_sent := ms\<rparr>)" "confined sd st cfg cid s (s\<lparr>a_probe_now := b\<rparr>)"
  "confined sd st cfg cid s (s\<lparr>a_topology_version := v\<rparr>)" "confined sd st cfg cid s (s\<lparr>a_network_genesis_ms := g\<rparr>)"
  "confined sd st cfg cid s (s\<lparr>n_world := w\<rparr>)" "confined False st cfg cid s (s\<lparr>a_seed_cache := c\<rparr>)"
  by (simp_all add: confined_def sound_app_def net_ok_def)

text \<open>A fetch of logs over a range that is not empty.\<close>

lemma confined_fetch:
  assumes "fetch_filtered_logs_chunk env cfg base lo hi s = Some (r, s')" and "lo \<le> hi"
  shows "confined sd st cfg cid s s'"
proof -
  have "confined sd st cfg cid s s'" if ok: "net_ok cfg s"
  proof -
    from fetch_chunk_returns [OF ok assms(2), of env base] assms(1)
    have "net.more s' = net.more s" "n_chain_id s' = n_chain_id s" "net_ok cfg s'"
      using ok by (auto simp: fetch_result_ok_def frame_def)
    moreover from this(1) have "a_nodes s' = a_nodes s" "a_metric_offsets s' = a_metric_offsets s"
      "d_tables s' = d_tables s" "a_recent_events s' = a_recent_events s" "a_seed_cache s' = a_seed_cache s"
      by (cases s; cases s'; simp)+
    ultimately show ?thesis by (simp add: confined_def sound_app_def)
  qed
  then show ?thesis by (auto simp: confined_def sound_app_def)
qed

lemma cf_chain_id:
  assumes "cc_expected_chain_id cfg = Some cid"
  shows "keeps (confined sd st cfg cid) (chain_id env cfg)"
proof (rule keepsI)
  fix s s' :: "('a, 'b) app_scheme" and r
  assume "chain_id env cfg s = Some (r, s')"
  from chain_id_spec [OF this] have sp: "frame cfg s s'" "n_chain_id s \<in> {0, cid} \<Longrightarrow> n_chain_id s' \<in> {0, cid}"
    using assms by (auto split: sum.splits)
  from sp(1) have "net.more s' = net.more s" by (simp add: frame_def)
  then have "a_nodes s' = a_nodes s" "a_metric_offsets s' = a_metric_offsets s" "d_tables s' = d_tables s"
    "a_recent_events s' = a_recent_events s" "a_seed_cache s' = a_seed_cache s"
    by (cases s; cases s'; simp)+
  with sp show "confined sd st cfg cid s s'" by (auto simp: confined_def sound_app_def frame_def)
qed

lemma cf_map:
  "(\<And>x. keeps (confined sd st cfg cid) (f x)) \<Longrightarrow> keeps (confined sd st cfg cid) (task_map f xs)"
  by (rule keeps_task_map) simp_all

text \<open>Network requests, retried or not.\<close>

lemma cf_views:
  "keeps (confined sd st cfg cid) (safe_head env cfg)"
  "keeps (confined sd st cfg cid) (verify_membership env cfg members n)"
  "keeps (confined sd st cfg cid) (pinned_topology_members env cfg addrs n)"
  "keeps (confined sd st cfg cid) (backoff_pause env a b c)"
  by (rule cf_quiet, rule view_calls_quiet backoff_pause_quiet)+

lemma cf_retry:
  assumes "keeps (quiet cfg) m"
  shows "keeps (confined sd st cfg cid) (retry_rpc_attempts env what k m)"
    and "keeps (confined sd st cfg cid) (retry_rpc env what m)"
  unfolding retry_rpc_def retry_rpc_attempts_def
  by (intro cf_quiet retry_rpc_from_keeps [OF quiet_trans assms backoff_pause_quiet quiet_refl])+

text \<open>The statements of the tasks other than the settlement sync.\<close>

lemma cf_statements:
  "keeps (confined sd st cfg cid) (upsert_node env n)"
  "keeps (confined sd st cfg cid) (deregister_nodes_except env keep)"
  "keeps (confined sd st cfg cid) (set_checkpoint env i reg b)"
  "keeps (confined sd st cfg cid) (get_checkpoint env i reg)"
  "keeps (confined sd st cfg cid) (load_registry_member_addresses env i reg)"
  "keeps (confined sd st cfg cid) (deregister_node env a)"
  "keeps (confined sd st cfg cid) (update_node_status env a status)"
  "keeps (confined sd st cfg cid) (upsert_reputation env a ok)"
  "keeps (confined sd st cfg cid) (decay_stale_scores env h)"
  "keeps (confined sd st cfg cid) (ensure_network_genesis env interval)"
  "keeps (confined sd st cfg cid) (load_all_uptime_targets env)"
  "keeps (confined sd st cfg cid) (save_metric_offset env a off now)"
  "keeps (confined sd st cfg cid) (get_reputation_ranking env)"
  "keeps (confined sd st cfg cid) (load_registry_nodes env reg)"
  "keeps (confined sd st cfg cid) (load_liveness_observed_at env)"
  "keeps (confined sd st cfg cid) (ping env)"
  "keeps (confined sd st cfg cid) (recent_paid_settlements env i ep k)"
  "keeps (confined sd st cfg cid) (recent_exit_credit_claims env i ep k)"
  unfolding upsert_node_def deregister_nodes_except_def set_checkpoint_def get_checkpoint_def
    load_registry_member_addresses_def deregister_node_def update_node_status_def upsert_reputation_def
    decay_stale_scores_def ensure_network_genesis_def load_all_uptime_targets_def save_metric_offset_def
    get_reputation_ranking_def load_registry_nodes_def load_liveness_observed_at_def ping_def
    recent_paid_settlements_def recent_exit_credit_claims_def
  by (intro cf_bind cf_pure cf_query cf_now cf_sql;
      auto simp: same_ledger_def upsert_reputation_row_def decay_rows_def insert_genesis_def Let_def
        split: option.splits sum.splits list.splits if_splits)+

section \<open>The registry sync\<close>

lemma confined_progress [simp]:
  fixes s :: "('w, 'z) sup_scheme"
  shows "confined sd st cfg cid s (s\<lparr>v_progress := p\<rparr>)"
  by (simp add: confined_def sound_app_def net_ok_def)

lemma cf_apply_chunk:
  "keeps (confined sd st cfg cid) (apply_chunk env cfg target last_log logs till :: (('w, 'z) sup_scheme, nat) task)"
proof (rule keepsI)
  fix s s' :: "('w, 'z) sup_scheme" and r
  assume run: "apply_chunk env cfg target last_log logs till s = Some (r, s')"
  then obtain p where p: "v_progress s = Some p" by (auto simp: apply_chunk_def split: option.splits)
  let ?m = "task_bind (instant_now env) (\<lambda>now.
            if progress_log_interval \<le> now - last_log \<or> target < till + 1
            then task_bind (instant_now env) (\<lambda>last_log'.
                 task_bind (task_modify (\<lambda>s. s\<lparr>a_sync := (a_sync s)\<lparr>sy_scan_block := Some till\<rparr>\<rparr>)) (\<lambda>_.
                 task_return last_log'))
            else task_return last_log) :: (('w, 'z) sup_scheme, nat) task"
  have k: "keeps (confined sd st cfg cid) ?m"
    by (intro cf_bind cf_clock cf_pure cf_modify confined_updates keeps_cases)
  from run p have "?m (s\<lparr>v_progress := Some (p\<lparr>pr_members := replay_logs env cfg logs (pr_members p),
      pr_next_block := till + 1\<rparr>)\<rparr>) = Some (r, s')" by (simp add: apply_chunk_def)
  from keepsD [OF k this] show "confined sd st cfg cid s s'"
    by (rule transpD [OF confined_trans confined_progress])
qed

lemma cf_scan_from:
  fixes env :: "('w, 'e) sysenv_scheme" and s s' :: "('w, 'z) sup_scheme"
  assumes "scan_from env cfg target last_log s = Some (r, s')"
  shows "confined sd st cfg cid s s'"
proof -
  have "confined sd st cfg cid s (snd (r, s'))"
  proof (rule scan_from.raw_induct [where P =
        "\<lambda>(env :: ('w, 'e) sysenv_scheme) cfg target last_log (s :: ('w, 'z) sup_scheme) q. confined sd st cfg cid s (snd q)",
        OF _ assms])
    fix f and env :: "('w, 'e) sysenv_scheme" and cfg target last_log and s :: "('w, 'z) sup_scheme"
      and q :: "unit res \<times> ('w, 'z) sup_scheme"
    assume IH: "\<And>env cfg target last_log s q. f env cfg target last_log s = Some q \<Longrightarrow> confined sd st cfg cid s (snd q)"
      and run: "(case v_progress s of
          None \<Rightarrow> None
        | Some r \<Rightarrow>
            if target < pr_next_block r then Some (Inr (), s)
            else task_bind (fetch_logs_chunk env cfg (pr_next_block r) target) (\<lambda>logs_end s1.
                   task_bind (apply_chunk env cfg target last_log (fst logs_end) (snd logs_end))
                     (\<lambda>last_log' s2. f env cfg target last_log' s2) s1) s) = Some q"
    show "confined sd st cfg cid s (snd q)"
    proof (cases "v_progress s")
      case None
      with run show ?thesis by simp
    next
      case (Some p)
      show ?thesis
      proof (cases "target < pr_next_block p")
        case True
        with run Some show ?thesis by (auto simp: reflpD [OF confined_refl])
      next
        case False
        with run Some obtain r1 s1 where fch: "fetch_logs_chunk env cfg (pr_next_block p) target s = Some (r1, s1)"
          by (auto simp: task_bind_def split: option.splits)
        from False have c1: "confined sd st cfg cid s s1"
          by (intro confined_fetch [OF fch [unfolded fetch_logs_chunk_def]]) simp
        have rest: "keeps (confined sd st cfg cid) (\<lambda>s1. task_bind (apply_chunk env cfg target last_log (fst le) (snd le))
            (\<lambda>last_log' s2. f env cfg target last_log' s2) s1)" for le
          by (intro cf_bind cf_apply_chunk keepsI) (use IH in force)
        from c1 show ?thesis
          using run Some False fch transpD [OF confined_trans c1 keepsD [OF rest]]
          by (cases r1; cases q) (auto simp: task_bind_def)
      qed
    qed
  qed
  then show ?thesis by simp
qed

lemma keeps_if_some: "(\<And>x. keeps R (F x)) \<Longrightarrow> keeps R (\<lambda>s. case g s of None \<Rightarrow> None | Some x \<Rightarrow> F x s)"
  by (auto simp: keeps_def split: option.splits)

lemma cf_scan:
  "keeps (confined sd st cfg cid) (scan_membership env cfg target :: (('w, 'z) sup_scheme, unit) task)"
  unfolding scan_membership_def by (intro cf_bind cf_clock keepsI) (rule cf_scan_from)

lemma cf_verify_round:
  "keeps (confined sd st cfg cid) (verify_round env cfg :: (('w, 'z) sup_scheme, u64 \<times> unit res res) task)"
  unfolding verify_round_def Let_def
  by (intro cf_bind cf_views keeps_if_some cf_scan cf_try cf_retry view_calls_quiet cf_pure)

lemma cf_verify_rounds:
  "keeps (confined sd st cfg cid) (verify_rounds env cfg n :: (('w, 'z) sup_scheme, u64 \<times> unit res) task)"
proof (induction "verify_attempts - n" arbitrary: n rule: less_induct)
  case less
  have "keeps (confined sd st cfg cid) (if verify_attempts \<le> n + 1 then task_fail m
      else task_bind (backoff_pause env (n + 1) (from_millis 500) sync_backoff_base)
        (\<lambda>stop. if stop then task_fail ''shutting down'' else verify_rounds env cfg (n + 1)) ::
      (('w, 'z) sup_scheme, u64 \<times> unit res) task)" for m
  proof (cases "verify_attempts \<le> n + 1")
    case True
    then show ?thesis by (simp add: cf_pure)
  next
    case False
    then have "keeps (confined sd st cfg cid) (verify_rounds env cfg (n + 1) :: (('w, 'z) sup_scheme, _) task)"
      by (intro less) simp
    then show ?thesis by (intro keeps_cases cf_bind cf_views cf_pure)
  qed
  then have "keeps (confined sd st cfg cid) (\<lambda>s. task_bind (verify_round env cfg) (\<lambda>(target, check).
       case check of
         Inr verdict \<Rightarrow> task_return (target, verdict)
       | Inl e \<Rightarrow>
           if verify_attempts \<le> n + 1
           then task_fail (''registry membership check failed '' @ nat_str (n + 1) @ '' times: '' @ e)
           else task_bind (backoff_pause env (n + 1) (from_millis 500) sync_backoff_base)
                  (\<lambda>stop. if stop then task_fail ''shutting down'' else verify_rounds env cfg (n + 1)))
      (s :: ('w, 'z) sup_scheme))"
    by (intro cf_bind cf_verify_round keeps_case_prod keeps_case_sum cf_pure)
  then show ?case by (simp add: keeps_def verify_rounds.simps)
qed

lemma cf_ensure_progress:
  "keeps (confined sd st cfg cid) (ensure_progress env cfg i ff :: (('w, 'z) sup_scheme, unit) task)"
proof -
  have n: "keeps (confined sd st cfg cid) (new_progress env cfg i ff :: (('w, 'z) sup_scheme, _) task)"
    unfolding new_progress_def Let_def
    by (intro cf_bind keeps_map_err cf_statements cf_pure) (auto split: sync_plan.split intro!: cf_bind keeps_map_err cf_statements cf_pure)
  have "keeps (confined sd st cfg cid) (task_bind (new_progress env cfg i ff) (\<lambda>p.
      task_modify (\<lambda>s. s\<lparr>v_progress := Some p\<rparr>)) :: (('w, 'z) sup_scheme, unit) task)"
    by (intro cf_bind n cf_modify confined_progress)
  from keepsD [OF this] show ?thesis
    by (intro keepsI) (auto simp: ensure_progress_def reflpD [OF confined_refl] split: if_splits)
qed

lemma persist_members_distinct:
  "persist_members env cfg i prev ps fresh s = Some (Inr fresh', s') \<Longrightarrow> distinct_keys fresh \<Longrightarrow> distinct_keys fresh'"
proof (induction env cfg i prev ps fresh s rule: persist_members.induct)
  case (2 env cfg i prev a info ps fresh s)
  then show ?case
    by (cases info) (auto simp: task_bind_Inr_iff Let_def intro: distinct_keys_update)
qed simp

lemma cf_persist:
  "keeps (confined sd st cfg cid) (persist_members env cfg i prev ps fresh :: (('w, 'z) app_scheme, _) task)"
proof (induction ps arbitrary: fresh)
  case Nil
  show ?case by (rule keepsI) (simp add: reflpD [OF confined_refl])
next
  case (Cons p ps)
  obtain a info where p: "p = (a, info)" by (cases p)
  show ?case
  proof (cases info)
    case None
    with Cons [of fresh] show ?thesis by (simp add: p keeps_def)
  next
    case (Some n)
    let ?n = "refreshed_node env cfg i prev n"
    have "keeps (confined sd st cfg cid) (task_bind (task_map_err (\<lambda>e. ''persist node '' @ ns_address ?n @ '': '' @ e)
        (upsert_node env ?n)) (\<lambda>_. persist_members env cfg i prev ps (AList.update (ns_address ?n) ?n fresh))
        :: (('w, 'z) app_scheme, _) task)"
      by (intro cf_bind keeps_map_err cf_statements Cons)
    then show ?thesis by (simp add: p Some keeps_def Let_def)
  qed
qed

lemma keeps_bind_value:
  assumes "transp R" and "keeps R m" and "\<And>s a s'. m s = Some (Inr a, s') \<Longrightarrow> P a" and "\<And>a. P a \<Longrightarrow> keeps R (f a)"
  shows "keeps R (task_bind m f)"
proof (rule keepsI)
  fix s r s2
  assume run: "task_bind m f s = Some (r, s2)"
  then obtain r1 s1 where m: "m s = Some (r1, s1)" by (auto simp: task_bind_def split: option.splits prod.splits)
  show "R s s2"
  proof (cases r1)
    case (Inl e)
    with run m keepsD [OF assms(2) m] show ?thesis by (simp add: task_bind_def)
  next
    case (Inr a)
    with run m have "f a s1 = Some (r, s2)" by (simp add: task_bind_def)
    from keepsD [OF assms(4) [OF assms(3) [OF m [unfolded Inr]]] this] keepsD [OF assms(2) m]
    show ?thesis using transpD [OF assms(1)] by blast
  qed
qed

lemma confined_nodes: "distinct_keys ns \<Longrightarrow> confined sd st cfg cid s (s\<lparr>a_nodes := ns\<rparr>)"
  by (simp add: confined_def sound_app_def net_ok_def)

lemmas confined_step = transpD [OF confined_trans]

lemma confined_announce:
  "confined sd st cfg cid s (announce_members s)" "confined sd st cfg cid s (broadcast_cluster_snapshot s)"
  "confined sd st cfg cid s (bump_topology_version s)" "confined sd st cfg cid s (broadcast_metrics a m s)"
  by (simp_all add: announce_members_def broadcast_cluster_snapshot_def broadcast_metrics_def send_def
      bump_topology_version_def confined_def sound_app_def net_ok_def Let_def)

lemma cf_marks:
  "keeps (confined sd st cfg cid) (mark_synced env b v)" "keeps (confined sd st cfg cid) (mark_caught_up env b h)"
  unfolding mark_synced_def mark_caught_up_def by (intro cf_bind cf_now cf_modify confined_updates)+

lemma cf_reconcile:
  "keeps (confined sd st cfg cid) (reconcile_membership env cfg i members b v :: (('w, 'z) app_scheme, unit) task)"
proof -
  have install: "confined sd st cfg cid s (install_members fresh s)" if "distinct_keys fresh"
    for fresh and s :: "('w, 'z) app_scheme"
    unfolding install_members_def using confined_step [OF confined_nodes [OF that] confined_updates(3)] by simp
  have "keeps (confined sd st cfg cid) (task_bind (task_map (member_profile env cfg) (sorted_list_of_set members)) (\<lambda>profiles.
     task_bind (persist_members env cfg i prev profiles []) (\<lambda>fresh.
     task_bind (task_map_err (\<lambda>e. ''deregister stale nodes: '' @ e)
         (deregister_nodes_except env (map fst fresh))) (\<lambda>pruned.
     task_bind (task_map_err (\<lambda>e. ''persist checkpoint: '' @ e)
         (set_checkpoint env i (cc_registry_hex cfg) b)) (\<lambda>_.
     task_bind (task_modify (install_members fresh)) (\<lambda>_.
     task_bind (mark_synced env b v) (\<lambda>_.
     task_modify announce_members)))))) :: (('w, 'z) app_scheme, unit) task)" for prev
    by (intro cf_bind [OF cf_map [OF cf_quiet [OF member_profile_quiet]]]
        keeps_bind_value [OF confined_trans cf_persist, where P = distinct_keys]
        cf_bind [OF keeps_map_err] cf_bind [OF cf_marks(1)] cf_bind [OF cf_modify] cf_statements cf_modify install confined_announce)
      (auto intro: persist_members_distinct)
  then show ?thesis unfolding keeps_def reconcile_membership_def by blast
qed

text \<open>The same for the steps that end in a sync error.\<close>

definition moves :: "('s \<Rightarrow> 's \<Rightarrow> bool) \<Rightarrow> ('s \<Rightarrow> ('r \<times> 's) option) \<Rightarrow> bool" where
  "moves R m \<longleftrightarrow> (\<forall>s r s'. m s = Some (r, s') \<longrightarrow> R s s')"

lemma movesD: "moves R m \<Longrightarrow> m s = Some (r, s') \<Longrightarrow> R s s'"
  by (auto simp: moves_def)

lemma moves_step:
  assumes "transp R" and "keeps R m" and "\<And>a. moves R (f a)"
  shows "moves R (sync_step m f)"
  using keepsD [OF assms(2)] movesD [OF assms(3)] transpD [OF assms(1)] unfolding moves_def sync_step_def
  by (fastforce split: option.splits prod.splits sum.splits)

lemma cf_sync_pass:
  "moves (confined sd st cfg cid) (sync_pass env cfg i ff acc :: (('w, 'z) sup_scheme, unit + u64) sync_task)"
proof -
  have rec: "moves (confined sd st cfg cid) (sync_step (reconcile_membership env cfg i ms t v) (\<lambda>_ s1.
      Some (Inr (Inr t), s1\<lparr>v_progress := None\<rparr>)) :: (('w, 'z) sup_scheme, unit + u64) sync_task)" for ms t v
    by (rule moves_step [OF confined_trans cf_reconcile]) (auto simp: moves_def)
  have "confined sd st cfg cid s s'" if run: "(case v_progress s of
         None \<Rightarrow> None
       | Some r \<Rightarrow>
           (case verdict of
              Inr () \<Rightarrow>
                sync_step (reconcile_membership env cfg i (pr_members r) target True) (\<lambda>_ s1.
                  Some (Inr (Inr target), s1\<lparr>v_progress := None\<rparr>)) s
            | Inl reason \<Rightarrow>
                if is_resume (pr_plan r) then Some (Inr (Inl ()), s\<lparr>v_progress := None\<rparr>)
                else if \<not> acc then Some (Inl (Mismatch reason), s)
                else sync_step (reconcile_membership env cfg i (pr_members r) target False) (\<lambda>_ s1.
                       Some (Inr (Inr target), s1\<lparr>v_progress := None\<rparr>)) s)) = Some (q, s')"
    for s s' :: "('w, 'z) sup_scheme" and q verdict target
    using run movesD [OF rec]
    by (auto simp: reflpD [OF confined_refl] split: option.splits sum.splits if_splits)
  then show ?thesis
    unfolding sync_pass_def
    by (intro moves_step confined_trans cf_ensure_progress cf_verify_rounds) (auto simp: moves_def)
qed

lemma cf_sync_loop:
  fixes env :: "('w, 'e) sysenv_scheme" and s s' :: "('w, 'z) sup_scheme"
  assumes "sync_loop env cfg i ff acc s = Some (r, s')"
  shows "confined sd st cfg cid s s'"
proof -
  have "confined sd st cfg cid s (snd (r, s'))"
  proof (rule sync_loop.raw_induct [where P =
        "\<lambda>(env :: ('w, 'e) sysenv_scheme) cfg i ff acc (s :: ('w, 'z) sup_scheme) q. confined sd st cfg cid s (snd q)",
        OF _ assms])
    fix f and env :: "('w, 'e) sysenv_scheme" and cfg i ff acc and s :: "('w, 'z) sup_scheme"
      and q :: "(sync_error + u64) \<times> ('w, 'z) sup_scheme"
    assume IH: "\<And>env cfg i ff acc s q. f env cfg i ff acc s = Some q \<Longrightarrow> confined sd st cfg cid s (snd q)"
      and run: "(case sync_pass env cfg i ff acc s of
          None \<Rightarrow> None
        | Some (r, s1) \<Rightarrow>
            (case r of
               Inl e \<Rightarrow> Some (Inl e, s1)
             | Inr (Inr target) \<Rightarrow> Some (Inr target, s1)
             | Inr (Inl _) \<Rightarrow> f env cfg i True acc s1)) = Some q"
    then obtain r1 s1 where p: "sync_pass env cfg i ff acc s = Some (r1, s1)" by (auto split: option.splits)
    have c: "confined sd st cfg cid s s1" using movesD [OF cf_sync_pass p] .
    with run p IH confined_step [OF c] show "confined sd st cfg cid s (snd q)"
      by (auto split: sum.splits)
  qed
  then show ?thesis by simp
qed

lemma cf_initial_sync:
  assumes "cc_expected_chain_id cfg = Some cid"
  shows "moves (confined sd st cfg cid) (initial_chain_sync env cfg ff acc :: (('w, 'z) sup_scheme, u64) sync_task)"
proof -
  have "moves (confined sd st cfg cid) (\<lambda>s. sync_loop env cfg i ff acc (begin_sync i (s :: ('w, 'z) sup_scheme)))" for i
    unfolding moves_def begin_sync_def using confined_step [OF confined_updates(1) cf_sync_loop] by blast
  then show ?thesis
    unfolding initial_chain_sync_def by (intro moves_step confined_trans cf_chain_id assms)
qed

section \<open>The live loop and the supervisor\<close>

lemma confined_node_updates:
  "confined sd st cfg cid s (s\<lparr>a_nodes := AList.update k n (a_nodes s)\<rparr>)"
  "confined sd st cfg cid s (s\<lparr>a_nodes := AList.delete k (a_nodes s), a_metrics := m, a_pow_difficulties := d\<rparr>)"
  "confined sd st cfg cid s (s\<lparr>a_nodes := map_rows f (a_nodes s)\<rparr>)"
  "confined sd st cfg cid s (s\<lparr>a_metric_offsets := AList.update k off (a_metric_offsets s)\<rparr>)"
  "confined sd st cfg cid s (s\<lparr>a_metric_offsets := map_rows g (a_metric_offsets s)\<rparr>)"
  by (auto simp: confined_def sound_app_def net_ok_def intro: distinct_keys_update distinct_keys_delete)

lemma cf_refresh: "keeps (confined sd st cfg cid) (refresh_chain_node env cfg a :: (('w, 'z) app_scheme, unit) task)"
proof -
  let ?store = "\<lambda>n. task_try (upsert_node env n) (\<lambda>r. case r of Inl e \<Rightarrow> task_return ()
      | Inr _ \<Rightarrow> task_modify (\<lambda>s. broadcast_cluster_snapshot (s\<lparr>a_nodes := AList.update (ns_address n) n (a_nodes s)\<rparr>)))
      :: (('w, 'z) app_scheme, unit) task"
  have "keeps (confined sd st cfg cid) (?store n)" for n
    by (intro cf_try cf_statements keeps_cases cf_pure cf_modify)
      (rule confined_step [OF confined_node_updates(1) confined_announce(2)])
  from keeps_read [of _ ?store, OF this] show ?thesis
    unfolding refresh_chain_node_def Let_def
    by (intro cf_try cf_retry view_calls_quiet keeps_cases cf_pure)
qed

lemma cf_remove: "keeps (confined sd st cfg cid) (remove_chain_node env a)"
  unfolding remove_chain_node_def Let_def
  by (intro cf_try cf_statements keeps_cases cf_pure cf_modify)
    (rule confined_step [OF confined_node_updates(2) confined_announce(2)])

lemma cf_chain_event: "keeps (confined sd st cfg cid) (process_chain_event env cfg event)"
  unfolding process_chain_event_def
  by (cases event) (auto intro!: cf_bind cf_refresh cf_remove cf_modify cf_pure confined_updates)

lemma cf_logs: "keeps (confined sd st cfg cid) (process_logs env cfg logs changed)"
proof (induction logs arbitrary: changed)
  case Nil
  show ?case by (rule keepsI) (simp add: reflpD [OF confined_refl])
next
  case (Cons lg logs)
  then show ?case unfolding process_logs_Cons by (intro keeps_cases cf_bind cf_chain_event)
qed

lemma cf_live_chunk:
  "keeps (confined sd st cfg cid) (live_chunk env cfg logs till changed :: (('w, 'z) app_scheme, bool) task)"
proof -
  let ?put = "\<lambda>c i. task_try (set_checkpoint env i (cc_registry_hex cfg) till) (\<lambda>_.
       task_bind (task_modify (\<lambda>s. s\<lparr>a_sync := (a_sync s)\<lparr>sy_last_block := Some till\<rparr>\<rparr>)) (\<lambda>_.
       task_return c)) :: (('w, 'z) app_scheme, bool) task"
  have "keeps (confined sd st cfg cid) (?put c i)" for c i
    by (intro cf_try cf_statements cf_bind cf_modify cf_pure confined_updates)
  from keeps_read [of _ "?put _", OF this] show ?thesis
    unfolding live_chunk_def by (intro cf_bind cf_logs)
qed

lemma cf_catch_up:
  fixes env :: "('w, 'e) sysenv_scheme" and s s' :: "('w, 'z) app_scheme"
  assumes "catch_up env cfg target last_block changed s = Some (r, s')"
  shows "confined sd st cfg cid s s'"
proof -
  have "confined sd st cfg cid s (snd (r, s'))"
  proof (rule catch_up.raw_induct [where P =
        "\<lambda>(env :: ('w, 'e) sysenv_scheme) cfg target lb c (s :: ('w, 'z) app_scheme) q. confined sd st cfg cid s (snd q)",
        OF _ assms])
    fix f and env :: "('w, 'e) sysenv_scheme" and cfg target last_block changed and s :: "('w, 'z) app_scheme"
      and q :: "(u64 \<times> bool \<times> bool) res \<times> ('w, 'z) app_scheme"
    assume IH: "\<And>env cfg target lb c s q. f env cfg target lb c s = Some q \<Longrightarrow> confined sd st cfg cid s (snd q)"
      and run: "(if target \<le> last_block then Some (Inr (last_block, changed, False), s)
        else task_try (fetch_logs_chunk env cfg (last_block + 1) target)
              (\<lambda>r s1. case r of
                  Inl e \<Rightarrow> task_bind (is_cancelled env) (\<lambda>stop s2. Some (Inr (last_block, changed, stop), s2)) s1
                | Inr logs_end \<Rightarrow> task_bind (live_chunk env cfg (fst logs_end) (snd logs_end) changed)
                       (f env cfg target (snd logs_end)) s1) s) = Some q"
    show "confined sd st cfg cid s (snd q)"
    proof (cases "target \<le> last_block")
      case True
      with run show ?thesis by (auto simp: reflpD [OF confined_refl])
    next
      case False
      then have le: "last_block + 1 \<le> target" by (simp add: not_le inc_le)
      have rest: "keeps (confined sd st cfg cid) (\<lambda>s1. case r of
                  Inl e \<Rightarrow> task_bind (is_cancelled env) (\<lambda>stop s2. Some (Inr (last_block, changed, stop), s2)) s1
                | Inr logs_end \<Rightarrow> task_bind (live_chunk env cfg (fst logs_end) (snd logs_end) changed)
                       (f env cfg target (snd logs_end)) s1)" for r :: "(log list \<times> u64) res"
      proof (cases r)
        case (Inl e)
        have "keeps (confined sd st cfg cid) (task_bind (is_cancelled env) (\<lambda>stop s2. Some (Inr (last_block, changed, stop), s2)))"
          by (intro cf_bind cf_clock keepsI) (auto simp: reflpD [OF confined_refl])
        with Inl show ?thesis by simp
      next
        case (Inr p)
        have "keeps (confined sd st cfg cid) (task_bind (live_chunk env cfg (fst p) (snd p) changed) (f env cfg target (snd p)))"
          by (intro cf_bind cf_live_chunk keepsI) (use IH in force)
        with Inr show ?thesis by simp
      qed
      from run False obtain r1 s1 where fch: "fetch_logs_chunk env cfg (last_block + 1) target s = Some (r1, s1)"
        by (auto simp: task_try_def split: option.splits)
      have "confined sd st cfg cid s s1" by (rule confined_fetch [OF fch [unfolded fetch_logs_chunk_def] le])
      from confined_step [OF this keepsD [OF rest]] run False fch show ?thesis
        by (cases q) (auto simp: task_try_def)
    qed
  qed
  then show ?thesis by simp
qed

lemma cf_note: "keeps (confined sd st cfg cid) (note_check env not_before el r)"
  unfolding note_check_def Let_def note_verified_def
  by (intro keeps_cases cf_bind cf_modify cf_clock cf_pure confined_updates)

lemma cf_check: "keeps (confined sd st cfg cid) (live_check env cfg not_before el :: (('w, 'z) app_scheme, _) task)"
proof -
  let ?check = "\<lambda>now members. task_try (verify_membership env cfg members (el_last_block el))
      (note_check env not_before (el\<lparr>el_last_verified := now\<rparr>)) :: (('w, 'z) app_scheme, _) task"
  have "keeps (confined sd st cfg cid) (?check now members)" for now members
    by (intro cf_try cf_note cf_views)
  from keeps_read [of _ "?check _", OF this] show ?thesis
    unfolding live_check_def by (intro cf_bind cf_clock)
qed

lemma cf_event_tick: "keeps (confined sd st cfg cid) (event_tick env cfg not_before el :: (('w, 'z) app_scheme, _) task)"
proof -
  have cu: "keeps (confined sd st cfg cid) (catch_up env cfg target b c :: (('w, 'z) app_scheme, _) task)" for target b c
    by (rule keepsI) (rule cf_catch_up)
  have af: "keeps (confined sd st cfg cid) (after_catch_up env b t c :: (('w, 'z) app_scheme, _) task)" for b t c
    unfolding after_catch_up_def
    by (intro cf_bind keeps_cases cf_marks cf_pure cf_modify confined_announce)
  show ?thesis
    unfolding event_tick_def Let_def
    by (intro cf_try cf_views keeps_cases cf_pure cf_bind cu af cf_check cf_clock)
qed

lemma cf_retry_later: "keeps (confined sd st cfg cid) (retry_later env e l :: (('w, 'z) sup_scheme, sup_loop) task)"
  unfolding retry_later_def Let_def
  by (intro cf_bind cf_clock keeps_cases cf_pure cf_modify confined_updates cf_views)

lemma cf_sup_task:
  assumes "cc_expected_chain_id cfg = Some cid"
  shows "keeps (confined sd st cfg cid) (sup_task env cfg l :: (('w, 'z) sup_scheme, sup_loop) task)"
proof -
  have follow: "keeps (confined sd st cfg cid) (follow env b l :: (('w, 'z) sup_scheme, sup_loop) task)" for b l
    unfolding follow_def by (intro cf_bind keeps_cases cf_clock cf_pure)
  have attempt: "keeps (confined sd st cfg cid) (attempt_sync env cfg l :: (('w, 'z) sup_scheme, sup_loop) task)" for l
  proof (rule keepsI)
    fix s s' :: "('w, 'z) sup_scheme" and r
    assume run: "attempt_sync env cfg l s = Some (r, s')"
    then obtain r1 s1 where i: "initial_chain_sync env cfg (sl_force_full l)
        (full_replay_mismatch_tolerance \<le> sl_full_mismatches l) s = Some (r1, s1)"
      by (auto simp: attempt_sync_def split: option.splits)
    have c: "confined sd st cfg cid s s1" using movesD [OF cf_initial_sync [OF assms] i] .
    have "confined sd st cfg cid s1 s'"
      using run i keepsD [OF follow] keepsD [OF cf_retry_later] confined_step [OF confined_progress keepsD [OF cf_retry_later]]
      by (auto simp: attempt_sync_def split: sum.splits sync_error.splits)
    with c show "confined sd st cfg cid s s'" by (rule confined_step)
  qed
  have wait: "keeps (confined sd st cfg cid) (poll_wait env d :: (('w, 'z) sup_scheme, bool) task)" for d
    by (rule keepsI) (auto simp: poll_wait_def confined_updates split: prod.splits)
  have resync: "confined sd st cfg cid s (s\<lparr>v_progress := None, a_sync := y\<rparr>)" for s :: "('w, 'z) sup_scheme" and y
    by (rule confined_step [OF confined_progress confined_updates(1)])
  have tick: "keeps (confined sd st cfg cid) (follow_tick env cfg el nb l :: (('w, 'z) sup_scheme, sup_loop) task)" for el nb l
    unfolding follow_tick_def
    apply (intro cf_bind wait keeps_cases cf_pure cf_event_tick)
    by (auto split: loop_exit.split intro!: cf_bind cf_clock cf_modify cf_pure resync)
  show ?thesis
    unfolding sup_task_def start_attempt_def
    by (auto split: sup_mode.split intro!: cf_pure cf_bind cf_clock attempt tick)
qed

section \<open>The tasks of the nodes and the handlers\<close>

lemma confined_feed_frame: "feed_frame s s' \<Longrightarrow> net_ok cfg s' \<longleftrightarrow> net_ok cfg s \<Longrightarrow> n_chain_id s' = n_chain_id s \<Longrightarrow>
    confined sd st cfg cid s s'"
  by (auto simp: feed_frame_def confined_def sound_app_def)

lemma cf_event:
  "keeps (confined sd st cfg cid) (process_event env address e :: (('w, 'z) app_scheme, unit) task)"
proof (rule keepsI)
  fix s s' :: "('w, 'z) app_scheme" and r
  assume run: "process_event env address e s = Some (r, s')"
  with process_event_framed [of env address e s] have f: "feed_frame s s'" by auto
  have "n_chunk s' = n_chunk s" "n_transport s' = n_transport s" "n_chain_id s' = n_chain_id s"
    using run
    by (auto simp: process_event_def pass_dedup_def task_bind_def task_modify_def task_return_def broadcast_event_def
        send_def split: option.splits prod.splits if_splits)
  then show "confined sd st cfg cid s s'" by (intro confined_feed_frame [OF f]) (simp_all add: net_ok_def)
qed

lemma cf_message:
  "keeps (confined sd st cfg cid) (on_message env warns parse address data :: (('w, 'z) app_scheme, unit) task)"
  by (rule keepsI) (auto simp: on_message_def reflpD [OF confined_refl] split: sum.splits option.splits if_splits dest: keepsD [OF cf_event])

lemma cf_save_offset: "keeps (confined sd st cfg cid) (save_offset env ts p)"
  unfolding save_offset_def mark_clean_def
  by (intro cf_try cf_statements keeps_cases cf_pure cf_modify confined_node_updates)

lemma cf_unix_ms: "keeps (confined sd st cfg cid) (unix_ms env)"
  unfolding unix_ms_def by (intro cf_bind cf_now cf_pure)

lemma cf_lifetime:
  "keeps (confined sd st cfg cid) (apply_lifetime_offsets env address parsed :: (('w, 'z) app_scheme, _) task)"
proof -
  let ?f = "\<lambda>now (s :: ('w, 'z) app_scheme).
       let off = (case map_of (a_metric_offsets s) address of Some off \<Rightarrow> off | None \<Rightarrow> default_offset)
       in case observe parsed now off of
            (off1, seen) \<Rightarrow>
              let off2 = off1\<lparr>no_adjusting := ob_adjusted seen\<rparr>;
                  live = apply_offset off1 parsed;
                  s1 = s\<lparr>a_metric_offsets := AList.update address off2 (a_metric_offsets s)\<rparr>
              in if ob_restarted seen
                 then task_bind (unix_ms env) (\<lambda>ts.
                      task_bind (save_offset env ts (address, off2)) (\<lambda>_. task_return live)) s1
                 else Some (Inr live, s1)"
  have save: "keeps (confined sd st cfg cid) (task_bind (unix_ms env) (\<lambda>ts.
      task_bind (save_offset env ts p) (\<lambda>_. task_return live)) :: (('w, 'z) app_scheme, structured_metrics) task)" for p live
    by (intro cf_bind cf_unix_ms cf_save_offset cf_pure)
  have "keeps (confined sd st cfg cid) (?f now)" for now
    by (rule keepsI) (auto simp: Let_def confined_node_updates split: prod.splits if_splits
        intro: confined_step [OF confined_node_updates(4) keepsD [OF save]])
  then show ?thesis unfolding apply_lifetime_offsets_def by (intro cf_bind cf_clock)
qed

lemma cf_metrics_tick:
  "keeps (confined sd st cfg cid) (metrics_tick env address reply :: (('w, 'z) app_scheme, unit) task)"
proof -
  have put: "keeps (confined sd st cfg cid) (task_bind (apply_lifetime_offsets env address m) (\<lambda>m.
      task_modify (\<lambda>s. broadcast_metrics address m (s\<lparr>a_metrics := AList.update address m (a_metrics s)\<rparr>)))
      :: (('w, 'z) app_scheme, unit) task)" for m
    by (intro cf_bind cf_lifetime cf_modify) (rule confined_step [OF confined_updates(3) confined_announce(4)])
  show ?thesis
    by (rule keepsI) (auto simp: metrics_tick_def reflpD [OF confined_refl] split: scrape.splits if_splits
        dest: keepsD [OF put])
qed

lemma confined_pow: "confined sd st cfg cid s (pow_tick address reply s)"
  by (auto simp: pow_tick_def confined_updates reflpD [OF confined_refl] split: pow_read.split option.split)

lemma cf_each:
  "(\<And>x. keeps (confined sd st cfg cid) (f x)) \<Longrightarrow> keeps (confined sd st cfg cid) (task_each f xs)"
proof (induction xs)
  case (Cons x xs)
  assume f: "\<And>x. keeps (confined sd st cfg cid) (f x)"
  have "keeps (confined sd st cfg cid) (task_bind (f x) (\<lambda>_. task_each f xs))"
    by (intro cf_bind f Cons.IH [OF f])
  then show ?case by (simp add: keeps_def)
qed (simp add: keeps_def reflpD [OF confined_refl])

lemma cf_flush: "keeps (confined sd st cfg cid) (flush_dirty_offsets env :: (('w, 'z) app_scheme, unit) task)"
proof -
  have "keeps (confined sd st cfg cid) (task_bind (unix_ms env) (\<lambda>ts. task_each (save_offset env ts) ps)
      :: (('w, 'z) app_scheme, unit) task)" for ps
    by (intro cf_bind cf_unix_ms cf_each cf_save_offset)
  from keeps_read [OF this] show ?thesis unfolding flush_dirty_offsets_def .
qed

lemma confined_manage:
  fixes s :: "('w, 'z) subst_scheme"
  shows "confined sd st cfg cid s (manage_tick env s)"
proof -
  have "confined sd st cfg cid s (fold (start_subscription current) xs s)" for current xs and s :: "('w, 'z) subst_scheme"
  proof (induction xs arbitrary: s)
    case (Cons x xs)
    have "confined sd st cfg cid s (start_subscription current x s)"
      by (simp add: start_subscription_def confined_def sound_app_def net_ok_def split: option.split)
    from confined_step [OF this Cons] show ?case by simp
  qed (simp add: reflpD [OF confined_refl])
  moreover have "confined sd st cfg cid s (fold stop_subscription xs s)" for xs and s :: "('w, 'z) subst_scheme"
  proof (induction xs arbitrary: s)
    case (Cons x xs)
    have "confined sd st cfg cid s (stop_subscription x s)"
      by (simp add: stop_subscription_def confined_def sound_app_def net_ok_def)
    from confined_step [OF this Cons] show ?case by simp
  qed (simp add: reflpD [OF confined_refl])
  ultimately show ?thesis
    unfolding manage_tick_def Let_def using confined_step by (fastforce split: prod.split)
qed

lemma cf_uptime:
  "keeps (confined sd st cfg cid) (uptime_tick env get secs :: (('w, 'z) app_scheme, unit) task)"
proof -
  have status: "keeps (confined sd st cfg cid) (apply_status_change env a b :: (('w, 'z) app_scheme, bool) task)" for a b
    by (rule keepsI) (auto simp: apply_status_change_def set_node_status_def task_try_def Let_def reflpD [OF confined_refl]
        split: option.splits sum.splits if_splits
        intro: confined_step [OF keepsD [OF cf_statements(7)] confined_node_updates(3)] keepsD [OF cf_statements(7)])
  have recorded: "keeps (confined sd st cfg cid) (record_probe env p :: (('w, 'z) app_scheme, bool) task)" for p
    unfolding record_probe_def by (intro cf_try cf_statements status)
  have probe: "keeps (confined sd st cfg cid) (probe_node env get p :: (('w, 'z) app_scheme, _) task)" for p
    by (rule keepsI) (auto simp: probe_node_def reflpD [OF confined_refl] confined_updates split: if_splits prod.splits)
  have genesis: "keeps (confined sd st cfg cid) (note_genesis env secs b :: (('w, 'z) app_scheme, unit) task)" for b
  proof -
    have "keeps (confined sd st cfg cid) (task_try (ensure_network_genesis env i) (\<lambda>r.
             case r of
               Inr genesis \<Rightarrow> task_modify (\<lambda>s. s\<lparr>a_network_genesis_ms := genesis\<rparr>)
             | Inl _ \<Rightarrow> task_return ()) :: (('w, 'z) app_scheme, unit) task)" for i
      by (intro cf_try cf_statements keeps_cases cf_modify cf_pure confined_updates)
    from keepsD [OF this] show ?thesis
      by (intro keepsI) (auto simp: note_genesis_def reflpD [OF confined_refl] split: if_splits)
  qed
  show ?thesis
    unfolding uptime_tick_def
    by (intro cf_try cf_statements keeps_cases cf_pure cf_bind cf_map probe recorded cf_modify genesis)
      (simp add: confined_announce reflpD [OF confined_refl])
qed

lemma cf_handlers:
  "keeps (confined sd st cfg cid) (handle_healthz env :: (('w, 'z) app_scheme, _) task)"
  "keeps (confined sd st cfg cid) (handle_healthz_sync env age :: (('w, 'z) app_scheme, _) task)"
  "keeps (confined sd st cfg cid) (handle_get_reputation env :: (('w, 'z) app_scheme, _) task)"
proof -
  have "keeps (confined sd st cfg cid) (task_bind (now_ms env) (\<lambda>now. task_try (ping env) (\<lambda>r. task_return (f now r)))
      :: (('w, 'z) app_scheme, nat \<times> health_body) task)" for f
    by (intro cf_bind cf_now cf_try cf_statements cf_pure)
  from keepsD [OF this] show "keeps (confined sd st cfg cid) (handle_healthz env :: (('w, 'z) app_scheme, _) task)"
    and "keeps (confined sd st cfg cid) (handle_healthz_sync env age :: (('w, 'z) app_scheme, _) task)"
    unfolding handle_healthz_def handle_healthz_sync_def Let_def by (auto intro!: keepsI)
  show "keeps (confined sd st cfg cid) (handle_get_reputation env :: (('w, 'z) app_scheme, _) task)"
    unfolding handle_get_reputation_def by (intro cf_try cf_statements cf_pure)
qed

lemma or_insert_distinct: "distinct_keys m \<Longrightarrow> distinct_keys (fold or_insert rows m)"
  by (induction rows arbitrary: m) (auto simp: or_insert_def intro: distinct_keys_update)

lemma cf_get_state:
  "keeps (confined sd st cfg cid) (handle_get_state env cfg' :: (('w, 'z) app_scheme, state_body) task)"
proof -
  have found: "keeps (confined sd st cfg cid) (nodes_for_state env cfg' :: (('w, 'z) app_scheme, _) task)"
  proof (rule keepsI)
    fix s s' :: "('w, 'z) app_scheme" and r
    assume run: "nodes_for_state env cfg' s = Some (r, s')"
    have fill: "confined sd st cfg cid s (s\<lparr>a_nodes := fold or_insert rows (a_nodes s)\<rparr>)" for rows and s :: "('w, 'z) app_scheme"
      by (auto simp: confined_def sound_app_def net_ok_def intro: or_insert_distinct)
    show "confined sd st cfg cid s s'"
    proof (cases "a_nodes s = []")
      case False
      with run show ?thesis by (auto simp: nodes_for_state_def reflpD [OF confined_refl])
    next
      case True
      with run obtain r1 s1 where l: "load_registry_nodes env (cc_registry_hex cfg') s = Some (r1, s1)"
        by (auto simp: nodes_for_state_def task_try_def split: option.splits)
      have c: "confined sd st cfg cid s s1" using keepsD [OF cf_statements(14) l] .
      have "s' = s1 \<or> (\<exists>rows. s' = s1\<lparr>a_nodes := fold or_insert rows (a_nodes s1)\<rparr>)"
        using run True l by (auto simp: nodes_for_state_def task_try_def Let_def split: sum.splits if_splits)
      with c confined_step [OF c fill] show ?thesis by auto
    qed
  qed
  have "keeps (confined sd st cfg cid) (\<lambda>s0 :: ('w, 'z) app_scheme. task_try (get_reputation_ranking env) (\<lambda>r s. Some (Inr (g s0 s r), s)) s0)"
    for g :: "_ \<Rightarrow> _ \<Rightarrow> _ \<Rightarrow> state_body"
    by (rule keepsI) (auto simp: task_try_def split: option.splits prod.splits dest: keepsD [OF cf_statements(13)])
  then show ?thesis
    unfolding handle_get_state_def Let_def by (intro cf_bind found)
qed

lemma cf_get_settlements:
  "keeps (confined sd st cfg cid) (handle_get_settlements env k :: (('w, 'z) app_scheme, _) task)"
proof -
  have "keeps (confined sd st cfg cid) (task_try (recent_paid_settlements env i ep n) (\<lambda>r1.
             task_try (case pool of Some p \<Rightarrow> recent_exit_credit_claims env i p n | None \<Rightarrow> task_return []) (\<lambda>r2.
             task_return (g r1 r2))) :: (('w, 'z) app_scheme, nat \<times> settlements_body option) task)" for i ep n pool g
    by (intro cf_try cf_statements keeps_cases cf_pure)
  from keepsD [OF this] show ?thesis
    by (intro keepsI) (auto simp: handle_get_settlements_def Let_def reflpD [OF confined_refl] split: option.splits)
qed

section \<open>The seed tasks\<close>

lemma cf_verify_seed:
  "keeps (confined sd st cfg cid) (verify_seed_members env cfg :: (('w, 'z) app_scheme, cached_seed) task)"
proof -
  have "keeps (confined sd st cfg cid) (task_bind (pinned_topology_members env cfg as b) (\<lambda>(members, fingerprint).
              task_bind (instant_now env) (\<lambda>now.
              task_return \<lparr>cs_block = b, cs_topology_version = v, cs_built_at = now,
                cs_members = members, cs_fingerprint = fingerprint\<rparr>)) :: (('w, 'z) app_scheme, cached_seed) task)" for as b v
    by (intro cf_bind cf_views keeps_case_prod cf_clock cf_pure)
  from keepsD [OF this] show ?thesis
    by (intro keepsI) (auto simp: verify_seed_members_def Let_def reflpD [OF confined_refl] split: if_splits)
qed

lemma cf_refresh_seed:
  "keeps (confined False st cfg cid) (refresh_seed_cache env cfg :: (('w, 'z) app_scheme, cached_seed) task)"
proof -
  have rb: "keeps (confined False st cfg cid) (rebuild_seed_cache env cfg :: (('w, 'z) app_scheme, cached_seed) task)"
    unfolding rebuild_seed_cache_def by (intro cf_bind cf_verify_seed cf_modify cf_pure confined_updates)
  have "keeps (confined False st cfg cid) (task_bind (instant_now env) (\<lambda>now.
            if f now then task_return c else rebuild_seed_cache env cfg) :: (('w, 'z) app_scheme, cached_seed) task)" for f c
    by (intro cf_bind cf_clock keeps_cases cf_pure rb)
  from keepsD [OF this] keepsD [OF rb] show ?thesis
    by (intro keepsI) (auto simp: refresh_seed_cache_def split: option.splits)
qed

lemma cf_warm: "keeps (confined False st cfg cid) (seed_warm_tick env cfg :: (('w, 'z) app_scheme, unit) task)"
proof -
  have "keeps (confined False st cfg cid) (task_try (refresh_seed_cache env cfg) (\<lambda>_. task_return ()) :: (('w, 'z) app_scheme, unit) task)"
    by (intro cf_try cf_refresh_seed cf_pure)
  from keepsD [OF this] show ?thesis
    by (intro keepsI) (auto simp: seed_warm_tick_def reflpD [OF confined_refl] split: if_splits)
qed

lemma confined_refreshing:
  fixes s :: "('w, 'z) seedst_scheme"
  shows "confined sd st cfg cid s (s\<lparr>sd_refreshing := b\<rparr>)"
  by (simp add: confined_def sound_app_def net_ok_def)

lemma cf_background:
  "keeps (confined False st cfg cid) (background_refresh env cfg :: (('w, 'z) seedst_scheme, unit) task)"
  unfolding background_refresh_def
  by (intro cf_try cf_verify_seed cf_bind keeps_cases cf_modify cf_pure confined_updates confined_refreshing)

lemma cf_pinned_seed:
  "keeps (confined False st cfg cid) (pinned_seed_members env cfg :: (('w, 'z) seedst_scheme, cached_seed) task)"
proof -
  have spawn: "confined False st cfg cid s (spawn_seed_refresh s)" for s :: "('w, 'z) seedst_scheme"
    unfolding spawn_seed_refresh_def by (rule confined_refreshing)
  have "keeps (confined False st cfg cid) (task_bind (instant_now env) (\<lambda>now.
           case (seed_cache_use cached version now, cached) of
             (FreshCopy, Some c) \<Rightarrow> task_return c
           | (StaleCopy, Some c) \<Rightarrow> task_bind (task_modify spawn_seed_refresh) (\<lambda>_. task_return c)
           | (Rebuild, _) \<Rightarrow>
               task_try (refresh_seed_cache env cfg) (\<lambda>r.
                 case r of
                   Inr fresh \<Rightarrow> task_return fresh
                 | Inl error \<Rightarrow>
                     (case cached of
                        None \<Rightarrow> task_fail error
                      | Some c \<Rightarrow>
                          task_bind (instant_now env) (\<lambda>now2.
                            if now2 - cs_built_at c < seed_stale_max then task_return c
                            else task_fail error)))
           | (_, None) \<Rightarrow> task_fail ''seed cache emptied'') :: (('w, 'z) seedst_scheme, cached_seed) task)"
    for cached version
    by (intro cf_bind cf_clock)
      (auto split: seed_use.split option.split intro!: cf_pure cf_bind cf_modify spawn cf_try cf_refresh_seed keeps_cases cf_clock)
  from keepsD [OF this] show ?thesis
    by (intro keepsI) (auto simp: pinned_seed_members_def Let_def)
qed

text \<open>What follows the choice of the members only reads.\<close>

lemma cf_seed_rest:
  "keeps (confined sd st cfg cid) (task_bind (task_map_err f (load_liveness_observed_at env)) (\<lambda>observed s.
       task_bind (now_ms env) (\<lambda>now.
         case u64_of_i64 (now div 1000) of
           None \<Rightarrow> task_fail e
         | Some t \<Rightarrow> task_of_res (g observed s t)) s) :: (('w, 'z) app_scheme, seed_snapshot) task)"
proof -
  have "keeps (confined sd st cfg cid) (task_bind (now_ms env) (\<lambda>now.
         case u64_of_i64 (now div 1000) of None \<Rightarrow> task_fail e | Some t \<Rightarrow> task_of_res (h t))
      :: (('w, 'z) app_scheme, seed_snapshot) task)" for h
    by (intro cf_bind cf_now keeps_cases cf_pure)
  from keepsD [OF this] have "keeps (confined sd st cfg cid) (\<lambda>s :: ('w, 'z) app_scheme. task_bind (now_ms env) (\<lambda>now.
         case u64_of_i64 (now div 1000) of None \<Rightarrow> task_fail e | Some t \<Rightarrow> task_of_res (g observed s t)) s)" for observed
    by (auto intro!: keepsI)
  then show ?thesis by (intro cf_bind keeps_map_err cf_statements)
qed

lemma seed_answer_cases:
  fixes s s' :: "('w, 'z) seedst_scheme"
  assumes "handle_seed_topology env cfg cap s = Some (r, s')"
  obtains r1 s1 where "pinned_seed_members env cfg s = Some (r1, s1)" and "confined sd st cfg cid s1 s'"
proof -
  let ?rest = "\<lambda>pinned. task_bind (task_map_err (\<lambda>e. ''load liveness observations: '' @ e)
         (load_liveness_observed_at env)) (\<lambda>observed s.
       task_bind (now_ms env) (\<lambda>now.
         case u64_of_i64 (now div 1000) of
           None \<Rightarrow> task_fail ''system time is before Unix epoch''
         | Some now_unix \<Rightarrow>
             task_of_res (assemble_seed_topology (cs_members pinned) (cs_fingerprint pinned)
               (member_statuses s) (collect_map (\<lambda>(a, t). (to_lowercase a, t)) observed)
               (node_reports s) cap (cs_block pinned) now_unix)) s) :: (('w, 'z) seedst_scheme, seed_snapshot) task"
  from assms obtain r1 s1 where p: "pinned_seed_members env cfg s = Some (r1, s1)"
    by (auto simp: handle_seed_topology_def build_seed_topology_def task_try_def task_bind_def split: option.splits)
  have "confined sd st cfg cid s1 s'"
  proof (cases r1)
    case (Inl e)
    with assms p show ?thesis
      by (auto simp: handle_seed_topology_def build_seed_topology_def task_try_def task_bind_def reflpD [OF confined_refl])
  next
    case (Inr c)
    with assms p obtain q where "?rest c s1 = Some (q, s')"
      by (auto simp: handle_seed_topology_def build_seed_topology_def task_try_def task_bind_def [of "pinned_seed_members env cfg"]
          split: option.splits)
    from keepsD [OF cf_seed_rest this] show ?thesis .
  qed
  with p show ?thesis by (rule that)
qed

lemma cf_seed_topology:
  "keeps (confined False st cfg cid) (handle_seed_topology env cfg k :: (('w, 'z) seedst_scheme, _) task)"
proof (rule keepsI)
  fix s s' :: "('w, 'z) seedst_scheme" and r
  assume "handle_seed_topology env cfg k s = Some (r, s')"
  then obtain r1 s1 where "pinned_seed_members env cfg s = Some (r1, s1)" "confined False st cfg cid s1 s'"
    by (rule seed_answer_cases)
  then show "confined False st cfg cid s s'" by (blast intro: confined_step keepsD [OF cf_pinned_seed])
qed

section \<open>The settlement sync\<close>

lemma confined_local:
  fixes s :: "('w, 'z) setst_scheme"
  shows "confined sd st cfg cid s (s\<lparr>f_next_block := b\<rparr>)" "confined sd st cfg cid s (s\<lparr>f_last_summary := t\<rparr>)"
    "confined sd st cfg cid s (s\<lparr>f_stored := n\<rparr>)" "confined sd st cfg cid s (s\<lparr>f_next_block := b, f_stored := n\<rparr>)"
  by (simp_all add: confined_def sound_app_def net_ok_def)

lemma cf_db: "keeps db_only m \<Longrightarrow> keeps (confined sd False cfg cid) m"
  by (erule keeps_weaken) (rule confined_db)

lemma cf_settlement_statements:
  "keeps (confined sd False cfg cid) (store_entry env config i e)"
  "keeps (confined sd False cfg cid) (set_settlement_checkpoint env i src b)"
  "keeps (confined sd False cfg cid) (get_settlement_checkpoint env i src)"
  "keeps (confined sd False cfg cid) (paid_settlement_totals env i ep)"
  "keeps (confined sd False cfg cid) (exit_credit_claim_totals env i pool)"
  unfolding store_entry_def set_settlement_checkpoint_def get_settlement_checkpoint_def paid_settlement_totals_def
    exit_credit_claim_totals_def insert_paid_settlement_def insert_exit_credit_claim_def
  by (rule cf_db, auto intro!: db_bind run_sql_db now_ms_db db_pure keeps_map_err split: settlement_log.split option.split)+

lemma cf_on_settlements: "keeps (confined sd st cfg cid) (on_settlements f)"
  unfolding on_settlements_def by (intro cf_modify confined_updates)

lemma cf_store_chunk:
  "keeps (confined sd False cfg cid) (store_chunk env cfg config i logs till :: (('w, 'z) setst_scheme, unit) task)"
proof -
  have times: "keeps (confined sd False cfg cid) (block_times env cfg bs :: (('w, 'z) setst_scheme, _) task)" for bs
    unfolding block_times_def by (intro cf_map cf_bind cf_retry view_calls_quiet cf_pure)
  have entries: "keeps (confined sd False cfg cid) (store_entries env config i es :: (('w, 'z) setst_scheme, unit) task)" for es
    unfolding store_entries_def
    by (intro cf_each cf_bind cf_settlement_statements keeps_cases cf_modify cf_pure confined_local)
  show ?thesis
    unfolding store_chunk_def
    by (intro keeps_cases cf_pure cf_bind times entries keeps_map_err cf_settlement_statements cf_modify confined_local
        cf_on_settlements)
qed

lemma cf_store_from:
  fixes env :: "('w, 'e) sysenv_scheme" and s s' :: "('w, 'z) setst_scheme"
  assumes "store_from env cfg config i target s = Some (r, s')"
  shows "confined sd False cfg cid s s'"
proof -
  have "confined sd False cfg cid s (snd (r, s'))"
  proof (rule store_from.raw_induct [where P =
        "\<lambda>(env :: ('w, 'e) sysenv_scheme) cfg config i target (s :: ('w, 'z) setst_scheme) q. confined sd False cfg cid s (snd q)",
        OF _ assms])
    fix f and env :: "('w, 'e) sysenv_scheme" and cfg config i target and s :: "('w, 'z) setst_scheme"
      and q :: "unit res \<times> ('w, 'z) setst_scheme"
    assume IH: "\<And>env cfg config i target s q. f env cfg config i target s = Some q \<Longrightarrow> confined sd False cfg cid s (snd q)"
      and run: "(if target < the (f_next_block s) then Some (Inr (), s)
        else task_bind (fetch_filtered_logs_chunk env cfg (settlement_filter env config)
               (the (f_next_block s)) target) (\<lambda>logs_end.
             task_bind (store_chunk env cfg config i (fst logs_end) (snd logs_end)) (\<lambda>_ s1.
               f env cfg config i target s1)) s) = Some q"
    show "confined sd False cfg cid s (snd q)"
    proof (cases "target < the (f_next_block s)")
      case True
      with run show ?thesis by (auto simp: reflpD [OF confined_refl])
    next
      case False
      with run obtain r1 s1 where fch: "fetch_filtered_logs_chunk env cfg (settlement_filter env config)
               (the (f_next_block s)) target s = Some (r1, s1)"
        by (auto simp: task_bind_def split: option.splits)
      from False have c: "confined sd False cfg cid s s1" by (intro confined_fetch [OF fch]) simp
      have rest: "keeps (confined sd False cfg cid) (task_bind (store_chunk env cfg config i (fst p) (snd p)) (\<lambda>_ s1.
               f env cfg config i target s1))" for p
        by (intro cf_bind cf_store_chunk keepsI) (use IH in force)
      from c confined_step [OF c keepsD [OF rest]] run False fch show ?thesis
        by (cases r1; cases q) (auto simp: task_bind_def)
    qed
  qed
  then show ?thesis by simp
qed

lemma cf_sync_once:
  assumes "cc_expected_chain_id cfg = Some cid"
  shows "keeps (confined sd False cfg cid) (sync_once env cfg config :: (('w, 'z) setst_scheme, nat) task)"
proof -
  have start: "keeps (confined sd False cfg cid) (start_block env config i :: (('w, 'z) setst_scheme, u64) task)" for i
  proof -
    have "keeps (confined sd False cfg cid) (task_bind (task_map_err (\<lambda>e. ''load settlement checkpoint: '' @ e)
              (get_settlement_checkpoint env i (source_key env config))) (\<lambda>checkpoint.
          task_return (case checkpoint of
              None \<Rightarrow> sc_from_block config
            | Some block \<Rightarrow> max (sat_add block 1) (sc_from_block config))) :: (('w, 'z) setst_scheme, u64) task)"
      by (intro cf_bind keeps_map_err cf_settlement_statements cf_pure)
    from keepsD [OF this] show ?thesis
      by (intro keepsI) (auto simp: start_block_def reflpD [OF confined_refl] split: option.splits)
  qed
  have loop: "keeps (confined sd False cfg cid) (store_from env cfg config i target :: (('w, 'z) setst_scheme, unit) task)" for i target
    by (rule keepsI) (rule cf_store_from)
  have ret: "keeps (confined sd False cfg cid) (\<lambda>s :: ('w, 'z) setst_scheme. task_return (f_stored s) s)"
    by (rule keepsI) (simp add: reflpD [OF confined_refl])
  show ?thesis
    unfolding sync_once_def
    by (intro cf_bind cf_chain_id assms start cf_modify confined_local cf_views loop cf_now cf_on_settlements ret)
qed

lemma cf_refresh_summary:
  assumes "cc_expected_chain_id cfg = Some cid"
  shows "keeps (confined sd False cfg cid) (refresh_summary env cfg config :: (('w, 'z) setst_scheme, unit) task)"
proof -
  let ?rest = "\<lambda>exits settled (b :: u64 option). task_bind (case (sc_reward_pool config, b) of
              (Some pool, Some block) \<Rightarrow>
                task_bind (read_pool_gauges env cfg pool block exits) (\<lambda>(exits', g).
                task_return (exits', case g of Inl _ \<Rightarrow> None | Inr gauges \<Rightarrow> Some (gauges, block)))
            | _ \<Rightarrow> task_return (exits, None)) (\<lambda>(exits', gauges).
          on_settlements (\<lambda>y.
            let y1 = y\<lparr>ss_executions := sum_list (map xt_executions exits), ss_exits := exits'\<rparr>
            in case gauges of
                 None \<Rightarrow> y1
               | Some (g, block) \<Rightarrow> y1\<lparr>ss_pool := g, ss_pool_read_block := Some block\<rparr>)) :: (('w, 'z) setst_scheme, unit) task"
  have "keeps (confined sd False cfg cid) (?rest exits settled b)" for exits settled b
    by (intro cf_bind keeps_cases cf_quiet [OF gauges_quiet] cf_pure cf_on_settlements)
  from keeps_read [of _ "?rest _ _", OF this] show ?thesis
    unfolding refresh_summary_def Let_def
    by (intro cf_bind cf_chain_id assms keeps_map_err cf_settlement_statements keeps_case_option cf_pure)
qed

lemma cf_settlement_poll:
  assumes "cc_expected_chain_id cfg = Some cid"
  shows "keeps (confined sd False cfg cid) (settlement_poll env cfg config :: (('w, 'z) setst_scheme, bool) task)"
proof -
  have noted: "keeps (confined sd False cfg cid) (note_outcome env outcome :: (('w, 'z) setst_scheme, _) task)" for outcome
    unfolding note_outcome_def by (intro keeps_cases cf_bind cf_on_settlements cf_clock cf_pure)
  have due: "keeps (confined sd False cfg cid) (summary_due env :: (('w, 'z) setst_scheme, bool) task)"
  proof -
    have "keeps (confined sd False cfg cid) (task_bind (instant_now env) (\<lambda>now. task_return (gauge_refresh \<le> now - t))
        :: (('w, 'z) setst_scheme, bool) task)" for t
      by (intro cf_bind cf_clock cf_pure)
    from keepsD [OF this] show ?thesis
      by (intro keepsI) (auto simp: summary_due_def reflpD [OF confined_refl] split: option.splits)
  qed
  show ?thesis
    unfolding settlement_poll_def
    by (intro cf_try cf_sync_once assms cf_bind noted keeps_cases cf_pure due cf_refresh_summary cf_clock cf_modify
        confined_local cf_on_settlements)
qed

end
