(* ===== verification/Loops.thy ===== *)
theory Loops
  imports Confined Durable
begin

text \<open>
  The rounds of the task loops of \<^verbatim>\<open>src/node/subscriber.rs\<close> and \<^verbatim>\<open>src/api.rs\<close>: each waits for
  its tick or the shutdown, and returns whether it was its last.
\<close>

section \<open>Rounds\<close>

definition until_shutdown ::
  "('w, 'e) sysenv_scheme \<Rightarrow> (('w, 'z) net_scheme, unit) task \<Rightarrow> (('w, 'z) net_scheme, bool) task" where
  "until_shutdown env m =
     task_bind (is_cancelled env) (\<lambda>stop.
       if stop then task_return True else task_bind m (\<lambda>_. task_return False))"

definition uptime_round ::
  "('w, 'e) sysenv_scheme \<Rightarrow> (string \<Rightarrow> 'w \<Rightarrow> bool \<times> 'w) \<Rightarrow> u64 \<Rightarrow> (('w, 'z) app_scheme, bool) task" where
  "uptime_round env get interval_secs = until_shutdown env (uptime_tick env get interval_secs)"

definition seed_warm_round ::
  "('w, 'e) sysenv_scheme \<Rightarrow> chain_config \<Rightarrow> (('w, 'z) app_scheme, bool) task" where
  "seed_warm_round env cfg = until_shutdown env (seed_warm_tick env cfg)"

text \<open>The manager takes its subscriptions down on the shutdown; the readings of the nodes stay.\<close>

definition manage_round :: "('w, 'e) sysenv_scheme \<Rightarrow> (('w, 'z) subst_scheme, bool) task" where
  "manage_round env =
     task_bind (is_cancelled env) (\<lambda>stop s.
       if stop then Some (Inr True, s\<lparr>u_active := []\<rparr>)
       else Some (Inr False, manage_tick env s))"

section \<open>What a round may change\<close>

lemma is_cancelled_returns: "\<exists>b w. is_cancelled env s = Some (Inr b, s\<lparr>n_world := w\<rparr>)"
  by (cases "e_cancelled env (n_world s)") (auto simp: is_cancelled_def)

lemma until_shutdown_cases:
  assumes "until_shutdown env m s = Some (r, s')"
  obtains (last) w where "s' = s\<lparr>n_world := w\<rparr>" and "r = Inr True"
    | (ran) w r1 where "m (s\<lparr>n_world := w\<rparr>) = Some (r1, s')"
proof -
  obtain stop w where c: "is_cancelled env s = Some (Inr stop, s\<lparr>n_world := w\<rparr>)" using is_cancelled_returns [of env s] by blast
  show thesis
  proof (cases stop)
    case True
    with assms c last show thesis by (auto simp: until_shutdown_def task_bind_def task_return_def)
  next
    case False
    with assms c have "task_bind m (\<lambda>_. task_return False) (s\<lparr>n_world := w\<rparr>) = Some (r, s')"
      by (simp add: until_shutdown_def task_bind_def)
    then show thesis by (cases rule: task_bind_cases) (auto simp: task_return_def intro: ran)
  qed
qed

lemma cf_until:
  "keeps (confined sd st cfg cid) m \<Longrightarrow> keeps (confined sd st cfg cid) (until_shutdown env m)"
  unfolding until_shutdown_def by (intro cf_bind cf_clock cf_pure keeps_if)

lemma cf_rounds:
  "keeps (confined sd st cfg cid) (uptime_round env get secs :: (('w, 'z) app_scheme, bool) task)"
  "keeps (confined sd st cfg cid) (flush_loop_round env :: (('w, 'z) app_scheme, bool) task)"
  "keeps (confined False st cfg cid) (seed_warm_round env cfg :: (('w, 'z) app_scheme, bool) task)"
  unfolding uptime_round_def flush_loop_round_def seed_warm_round_def
  by (intro cf_until cf_uptime cf_warm cf_bind cf_clock cf_flush cf_pure)+

lemma cf_manage: "keeps (confined sd st cfg cid) (manage_round env :: (('w, 'z) subst_scheme, bool) task)"
proof (rule keepsI)
  fix s s' :: "('w, 'z) subst_scheme" and r
  assume run: "manage_round env s = Some (r, s')"
  obtain stop w where c: "is_cancelled env s = Some (Inr stop, s\<lparr>n_world := w\<rparr>)" using is_cancelled_returns [of env s] by blast
  have 1: "confined sd st cfg cid s (s\<lparr>n_world := w\<rparr>)" using keepsD [OF cf_clock(2) c] .
  have "confined sd st cfg cid (s\<lparr>n_world := w\<rparr>) s'"
    using run c confined_manage [of sd st cfg cid "s\<lparr>n_world := w\<rparr>" env]
    by (cases stop) (auto simp: manage_round_def task_bind_def confined_def sound_app_def net_ok_def)
  from confined_step [OF 1 this] show "confined sd st cfg cid s s'" .
qed

lemma warm_round_checked:
  assumes "seed_warm_round env cfg s = Some (r, s')" and "cache_checked env cfg s" and "addr_codec_ok env"
  shows "cache_checked env cfg s'"
  using assms(1) unfolding seed_warm_round_def
proof (cases rule: until_shutdown_cases)
  case (last w)
  with assms(2) show ?thesis by (simp add: cache_checked_def net_ok_def)
next
  case (ran w r1)
  have "cache_checked env cfg (s\<lparr>n_world := w\<rparr>)" using assms(2) by (simp add: cache_checked_def net_ok_def)
  from warm_checked [OF ran this assms(3)] show ?thesis .
qed

end
