(* ===== verification/System.thy ===== *)
theory System
  imports Loops
begin

text \<open>
  The whole indexer: the tasks \<^verbatim>\<open>main\<close> starts and the request handlers, interleaved over
  the one state they share, with restarts of the process over the same database. Each step runs one
  round of one task, or one request, to its end.
\<close>

section \<open>The state of the process\<close>

text \<open>The shared state, and the local variables of the loops that live across rounds.\<close>

record 'w indexer =
  ix_app :: "'w app"
  ix_sup :: sup_loop
  ix_progress :: "replay_progress option"
  ix_refreshing :: bool
  ix_next_block :: "u64 option"
  ix_last_summary :: "nat option"
  ix_stored :: nat
  ix_active :: "(string \<times> string) list"

text \<open>What each task sees, and the state after it ran.\<close>

definition sup_view :: "'w indexer \<Rightarrow> 'w sup" where
  "sup_view g = app.extend (ix_app g) (sup.fields (ix_progress g))"

definition after_sup :: "sup_loop \<Rightarrow> 'w sup \<Rightarrow> 'w indexer \<Rightarrow> 'w indexer" where
  "after_sup l s g = g\<lparr>ix_app := app.truncate s, ix_sup := l, ix_progress := v_progress s\<rparr>"

definition seed_view :: "'w indexer \<Rightarrow> 'w seedst" where
  "seed_view g = app.extend (ix_app g) (seedst.fields (ix_refreshing g))"

definition after_seed :: "'w seedst \<Rightarrow> 'w indexer \<Rightarrow> 'w indexer" where
  "after_seed s g = g\<lparr>ix_app := app.truncate s, ix_refreshing := sd_refreshing s\<rparr>"

definition settle_view :: "'w indexer \<Rightarrow> 'w setst" where
  "settle_view g = app.extend (ix_app g) (setst.fields (ix_next_block g) (ix_last_summary g) (ix_stored g))"

definition after_settle :: "'w setst \<Rightarrow> 'w indexer \<Rightarrow> 'w indexer" where
  "after_settle s g = g\<lparr>ix_app := app.truncate s, ix_next_block := f_next_block s,
     ix_last_summary := f_last_summary s, ix_stored := f_stored s\<rparr>"

definition subs_view :: "'w indexer \<Rightarrow> 'w subst" where
  "subs_view g = app.extend (ix_app g) (subst.fields (ix_active g))"

definition after_subs :: "'w subst \<Rightarrow> 'w indexer \<Rightarrow> 'w indexer" where
  "after_subs s g = g\<lparr>ix_app := app.truncate s, ix_active := u_active s\<rparr>"

text \<open>The tasks as they are spawned over the state \<^verbatim>\<open>init_state\<close> made.\<close>

definition spawned :: "'w app \<Rightarrow> 'w indexer" where
  "spawned s =
     \<lparr>ix_app = s, ix_sup = sup_start, ix_progress = None, ix_refreshing = False, ix_next_block = None,
      ix_last_summary = None, ix_stored = 0, ix_active = []\<rparr>"

definition start_tasks :: "'x ext_scheme \<Rightarrow> settlement_config option \<Rightarrow> 'w app \<Rightarrow> 'w indexer" where
  "start_tasks x settlement s =
     (case settlement of
        None \<Rightarrow> spawned s
      | Some c \<Rightarrow> after_settle (begin_settlement_sync x c (settle_view (spawned s))) (spawned s))"

section \<open>Steps\<close>

text \<open>
  One round of a task or one request. Texts, readings and probes are whatever the nodes answer; a
  restart reads the database the process left.
\<close>

inductive system_step ::
  "('w, 'e) sysenv_scheme \<Rightarrow> chain_config \<Rightarrow> settlement_config option \<Rightarrow> 'w indexer \<Rightarrow> 'w indexer \<Rightarrow> bool"
  for env :: "('w, 'e) sysenv_scheme" and cfg settlement where
  registry_round: "sl_mode (ix_sup g) \<noteq> sup_mode.Stopped \<Longrightarrow> sup_task env cfg (ix_sup g) (sup_view g) = Some (Inr l, s) \<Longrightarrow>
    system_step env cfg settlement g (after_sup l s g)"
| settlement_round: "settlement = Some c \<Longrightarrow> settlement_poll env cfg c (settle_view g) = Some (r, st) \<Longrightarrow>
    system_step env cfg settlement g (after_settle st g)"
| seed_request: "handle_seed_topology env cfg cap (seed_view g) = Some (ra, sd) \<Longrightarrow>
    system_step env cfg settlement g (after_seed sd g)"
| seed_refresh: "ix_refreshing g \<Longrightarrow> background_refresh env cfg (seed_view g) = Some (ru, sd) \<Longrightarrow>
    system_step env cfg settlement g (after_seed sd g)"
| seed_warming: "seed_warm_round env cfg (ix_app g) = Some (rb, a) \<Longrightarrow> system_step env cfg settlement g (g\<lparr>ix_app := a\<rparr>)"
| manager_round: "manage_round env (subs_view g) = Some (rb, sb) \<Longrightarrow>
    system_step env cfg settlement g (after_subs sb g)"
| node_text: "on_message env warns parse address data (ix_app g) = Some (ru, a) \<Longrightarrow>
    system_step env cfg settlement g (g\<lparr>ix_app := a\<rparr>)"
| node_metrics: "metrics_tick env address reply (ix_app g) = Some (ru, a) \<Longrightarrow>
    system_step env cfg settlement g (g\<lparr>ix_app := a\<rparr>)"
| node_pow: "system_step env cfg settlement g (g\<lparr>ix_app := pow_tick address reading (ix_app g)\<rparr>)"
| flush_round: "flush_loop_round env (ix_app g) = Some (rb, a) \<Longrightarrow> system_step env cfg settlement g (g\<lparr>ix_app := a\<rparr>)"
| uptime_checks: "uptime_round env get secs (ix_app g) = Some (rb, a) \<Longrightarrow> system_step env cfg settlement g (g\<lparr>ix_app := a\<rparr>)"
| state_request: "handle_get_state env cfg (ix_app g) = Some (rs, a) \<Longrightarrow> system_step env cfg settlement g (g\<lparr>ix_app := a\<rparr>)"
| settlements_request: "handle_get_settlements env lim_query (ix_app g) = Some (rt, a) \<Longrightarrow>
    system_step env cfg settlement g (g\<lparr>ix_app := a\<rparr>)"
| health_request: "handle_healthz env (ix_app g) = Some (rh, a) \<or> handle_healthz_sync env age (ix_app g) = Some (rh, a) \<Longrightarrow>
    system_step env cfg settlement g (g\<lparr>ix_app := a\<rparr>)"
| reputation_request: "handle_get_reputation env (ix_app g) = Some (rr, a) \<Longrightarrow>
    system_step env cfg settlement g (g\<lparr>ix_app := a\<rparr>)"
| restart: "start_process os open_pool args (d_tables (ix_app g)) w = Some (Inr (env, cfg, settlement, s0)) \<Longrightarrow>
    system_step env cfg settlement g (start_tasks env settlement s0)"

section \<open>The invariant of the whole\<close>

definition indexer_ok ::
  "('w, 'e) sysenv_scheme \<Rightarrow> chain_config \<Rightarrow> settlement_config option \<Rightarrow> u64 \<Rightarrow> 'w indexer \<Rightarrow> bool" where
  "indexer_ok env cfg settlement cid g \<longleftrightarrow>
     sound_app cfg cid (ix_app g) \<and>
     (\<forall>c. a_seed_cache (ix_app g) = Some c \<longrightarrow> copy_checked env cfg c) \<and>
     (\<forall>c. settlement = Some c \<longrightarrow> settled_inv env cfg c cid (settle_view g)) \<and>
     sup_inv env cfg (ix_sup g, sup_view g)"

lemma view_sel [simp]:
  "v_progress (sup_view g) = ix_progress g" "net_ok cfg (sup_view g) \<longleftrightarrow> net_ok cfg (ix_app g)"
  "f_next_block (settle_view g) = ix_next_block g" "net_ok cfg (settle_view g) \<longleftrightarrow> net_ok cfg (ix_app g)"
  "n_chain_id (settle_view g) = n_chain_id (ix_app g)" "d_tables (settle_view g) = d_tables (ix_app g)"
  by (simp_all add: sup_view_def settle_view_def net_ok_def app.defs sup.defs setst.defs)

lemma sound_views [simp]:
  "sound_app cfg cid (app.truncate s) \<longleftrightarrow> sound_app cfg cid s"
  "sound_app cfg cid (sup_view g) \<longleftrightarrow> sound_app cfg cid (ix_app g)"
  "sound_app cfg cid (seed_view g) \<longleftrightarrow> sound_app cfg cid (ix_app g)"
  "sound_app cfg cid (settle_view g) \<longleftrightarrow> sound_app cfg cid (ix_app g)"
  "sound_app cfg cid (subs_view g) \<longleftrightarrow> sound_app cfg cid (ix_app g)"
  by (simp_all add: sound_app_def net_ok_def sup_view_def seed_view_def settle_view_def subs_view_def
      app.defs sup.defs seedst.defs setst.defs subst.defs)

lemma shared_views [simp]:
  "a_seed_cache (app.truncate s) = a_seed_cache s" "d_tables (app.truncate s) = d_tables s"
  "a_seed_cache (sup_view g) = a_seed_cache (ix_app g)" "d_tables (sup_view g) = d_tables (ix_app g)"
  "a_seed_cache (seed_view g) = a_seed_cache (ix_app g)" "d_tables (seed_view g) = d_tables (ix_app g)"
  "a_seed_cache (settle_view g) = a_seed_cache (ix_app g)"
  "a_seed_cache (subs_view g) = a_seed_cache (ix_app g)" "d_tables (subs_view g) = d_tables (ix_app g)"
  by (simp_all add: sup_view_def seed_view_def settle_view_def subs_view_def
      app.defs sup.defs seedst.defs setst.defs subst.defs)

text \<open>A round that touches neither the seed copy, nor the settlement tables, nor the local variables.\<close>

lemma same_ledger_rows: "same_ledger t t' \<Longrightarrow> rows_only t t'"
  by (simp add: same_ledger_def rows_only_def rows_kept_def)

lemma settled_elsewhere:
  fixes s s' :: "('w, 'z) setst_scheme"
  assumes "settled_inv env cfg c cid s" and "sound_app cfg cid s'" and "f_next_block s' = f_next_block s"
    and "same_ledger (d_tables s) (d_tables s')"
  shows "settled_inv env cfg c cid s'"
proof -
  let ?s = "s'\<lparr>n_chain_id := n_chain_id s\<rparr>"
  have "settle_kept cfg s ?s"
    using assms by (simp add: settle_kept_def sound_app_def net_ok_def same_ledger_rows)
  from settled_inv_kept [OF assms(1) this] assms(2) show ?thesis
    by (auto simp: settled_inv_def sound_app_def net_ok_def)
qed

lemma sup_inv_elsewhere:
  assumes "sup_inv env cfg (ix_sup g, sup_view g)" and "net_ok cfg (ix_app g')"
    and "ix_sup g' = ix_sup g" and "ix_progress g' = ix_progress g"
  shows "sup_inv env cfg (ix_sup g', sup_view g')"
  using assms by (simp add: sup_inv_def sup_ok_def)

lemma elsewhere_ok:
  assumes ok: "indexer_ok env cfg settlement cid g"
    and conf: "confined True True cfg cid (ix_app g) (ix_app g')"
    and same: "ix_sup g' = ix_sup g" "ix_progress g' = ix_progress g" "ix_next_block g' = ix_next_block g"
  shows "indexer_ok env cfg settlement cid g'"
proof -
  from ok conf have s: "sound_app cfg cid (ix_app g')" "a_seed_cache (ix_app g') = a_seed_cache (ix_app g)"
    "same_ledger (d_tables (ix_app g)) (d_tables (ix_app g'))"
    by (simp_all add: indexer_ok_def confined_def)
  have "settled_inv env cfg c cid (settle_view g')" if "settlement = Some c" for c
    by (rule settled_elsewhere [of env cfg c cid "settle_view g"]) (use ok that s same in \<open>simp_all add: indexer_ok_def\<close>)
  moreover have "sup_inv env cfg (ix_sup g', sup_view g')"
    by (rule sup_inv_elsewhere [of env cfg g]) (use ok s(1) same in \<open>simp_all add: indexer_ok_def sound_app_def\<close>)
  ultimately show ?thesis using ok s(1,2) by (simp add: indexer_ok_def)
qed

text \<open>The seed tasks may besides replace the seed copy by one that was checked.\<close>

lemma seed_ok:
  assumes ok: "indexer_ok env cfg settlement cid g"
    and conf: "confined False True cfg cid (ix_app g) (ix_app g')" and chk: "cache_checked env cfg (ix_app g')"
    and same: "ix_sup g' = ix_sup g" "ix_progress g' = ix_progress g" "ix_next_block g' = ix_next_block g"
  shows "indexer_ok env cfg settlement cid g'"
proof -
  let ?h = "g'\<lparr>ix_app := (ix_app g')\<lparr>a_seed_cache := a_seed_cache (ix_app g)\<rparr>\<rparr>"
  have "confined True True cfg cid (ix_app g) (ix_app ?h)"
    using conf by (simp add: confined_def sound_app_def net_ok_def)
  from elsewhere_ok [OF ok this] same have h: "indexer_ok env cfg settlement cid ?h" by simp
  have "settle_view ?h = (settle_view g')\<lparr>a_seed_cache := a_seed_cache (ix_app g)\<rparr>"
    "sup_view ?h = (sup_view g')\<lparr>a_seed_cache := a_seed_cache (ix_app g)\<rparr>"
    by (simp_all add: settle_view_def sup_view_def app.defs)
  with h chk show ?thesis
    by (simp add: indexer_ok_def cache_checked_def sound_app_def net_ok_def settled_inv_def sup_inv_def sup_ok_def)
qed

lemma cache_checked_views [simp]:
  "cache_checked env cfg (app.truncate s) \<longleftrightarrow> cache_checked env cfg s"
  "cache_checked env cfg (seed_view g) \<longleftrightarrow> cache_checked env cfg (ix_app g)"
  by (simp_all add: cache_checked_def net_ok_def seed_view_def app.defs seedst.defs)

lemma seed_answer_checked:
  fixes s s' :: "('w, 'z) seedst_scheme"
  assumes run: "handle_seed_topology env cfg cap s = Some (r, s')" and ok: "cache_checked env cfg s"
    and sound: "sound_app cfg cid s" and codec: "addr_codec_ok env"
  shows "cache_checked env cfg s'"
proof -
  from run obtain r1 s1 where p: "pinned_seed_members env cfg s = Some (r1, s1)" and c: "confined True True cfg cid s1 s'"
    by (rule seed_answer_cases)
  have "cache_checked env cfg s1" by (rule seed_step_checked [OF request_step [OF p] ok codec])
  moreover have "sound_app cfg cid s1"
    using keepsD [OF cf_pinned_seed p, of True cid] sound by (simp add: confined_def)
  ultimately show ?thesis using c by (simp add: confined_def cache_checked_def sound_app_def)
qed

section \<open>A process that starts\<close>

lemma started_app:
  "ix_sup (start_tasks x settlement s) = sup_start" "ix_progress (start_tasks x settlement s) = None"
  "ix_next_block (start_tasks x settlement s) = None"
  "d_tables (ix_app (start_tasks x settlement s)) = d_tables s"
  "a_seed_cache (ix_app (start_tasks x settlement s)) = a_seed_cache s"
  "sound_app cfg cid (ix_app (start_tasks x settlement s)) \<longleftrightarrow> sound_app cfg cid s"
  by (simp_all add: start_tasks_def spawned_def after_settle_def begin_settlement_sync_def settle_view_def
      sound_app_def net_ok_def app.defs setst.defs split: option.split)

text \<open>Every settlement checkpoint of the tables is backed by indexed blocks.\<close>

definition ledger_backed ::
  "('w, 'e) sysenv_scheme \<Rightarrow> settlement_config option \<Rightarrow> u64 \<Rightarrow> tables \<Rightarrow> bool" where
  "ledger_backed env settlement cid t \<longleftrightarrow>
     (\<forall>c last b. settlement = Some c \<longrightarrow> stored_checkpoint env c cid t = Some last \<longrightarrow>
        sc_from_block c \<le> b \<longrightarrow> b \<le> last \<longrightarrow> block_indexed env c cid t b)"

lemma started_ok:
  assumes start: "start_process os open_pool a tables w = Some (Inr (env, cfg, settlement, s))"
    and backed: "ledger_backed env settlement cid tables"
  shows "indexer_ok env cfg settlement cid (start_tasks env settlement s)"
proof -
  note st = started_state [OF start]
  let ?g = "start_tasks env settlement s"
  from st have "sound_app cfg cid s" by (simp add: sound_app_def)
  then have sound: "sound_app cfg cid (ix_app ?g)" by (simp add: started_app)
  have rows: "rows_only tables (d_tables s)" using st by (simp add: same_ledger_rows)
  then have kept: "rows_kept tables (d_tables s)" by (simp add: rows_only_def)
  have "settled_inv env cfg c cid (settle_view ?g)" if c: "settlement = Some c" for c
  proof -
    have "block_indexed env c cid (d_tables s) b"
      if "stored_checkpoint env c cid (d_tables s) = Some last" and "sc_from_block c \<le> b" and "b \<le> last" for last b
      using backed c that unfolding checkpoint_kept [OF rows] ledger_backed_def
      by (intro block_indexed_kept [OF _ kept]) blast
    with sound show ?thesis by (simp add: settled_inv_def started_app sound_app_def)
  qed
  moreover have "sup_inv env cfg (ix_sup ?g, sup_view ?g)"
    using sound by (simp add: sup_inv_def sup_ok_def started_app sound_app_def sup_start_def)
  ultimately show ?thesis using sound st by (simp add: indexer_ok_def started_app)
qed

lemma indexer_backed: "indexer_ok env cfg settlement cid g \<Longrightarrow> ledger_backed env settlement cid (d_tables (ix_app g))"
  by (auto simp: indexer_ok_def ledger_backed_def settled_inv_def)

section \<open>Every step keeps it\<close>

text \<open>
  What soundness relies on: address texts that read back, a configured chain id, which every process
  then insists on, and a head below the largest block number.
\<close>

definition surroundings_ok :: "('w, 'e) sysenv_scheme \<Rightarrow> chain_config \<Rightarrow> u64 \<Rightarrow> bool" where
  "surroundings_ok env cfg cid \<longleftrightarrow>
     addr_codec_ok env \<and> cc_expected_chain_id cfg = Some cid \<and> head_bounded env cfg"

lemma registry_round_ok:
  assumes ok: "indexer_ok env cfg settlement cid g" and sur: "surroundings_ok env cfg cid"
    and run: "sl_mode (ix_sup g) \<noteq> sup_mode.Stopped" "sup_task env cfg (ix_sup g) (sup_view g) = Some (Inr l, s)"
  shows "indexer_ok env cfg settlement cid (after_sup l s g)"
proof -
  let ?g = "after_sup l s g"
  have conf: "confined True True cfg cid (sup_view g) s"
    using keepsD [OF cf_sup_task run(2)] sur by (simp add: surroundings_ok_def)
  with ok have k: "sound_app cfg cid s" "a_seed_cache s = a_seed_cache (ix_app g)"
    "same_ledger (d_tables (ix_app g)) (d_tables s)" by (simp_all add: indexer_ok_def confined_def)
  from ok have "sup_inv env cfg (ix_sup g, sup_view g)" by (simp add: indexer_ok_def)
  from sup_step [OF run(2) this _ run(1)] sur have "sup_inv env cfg (l, s)" by (simp add: surroundings_ok_def)
  moreover have "sup_view ?g = s" by (cases s) (simp add: after_sup_def sup_view_def app.defs sup.defs)
  moreover have "settled_inv env cfg c cid (settle_view ?g)" if "settlement = Some c" for c
    by (rule settled_elsewhere [of env cfg c cid "settle_view g"])
      (use ok that k in \<open>simp_all add: indexer_ok_def after_sup_def\<close>)
  ultimately show ?thesis using ok k by (simp add: indexer_ok_def after_sup_def)
qed

lemma settlement_round_ok:
  assumes ok: "indexer_ok env cfg (Some c) cid g" and sur: "surroundings_ok env cfg cid"
    and run: "settlement_poll env cfg c (settle_view g) = Some (r, s)"
  shows "indexer_ok env cfg (Some c) cid (after_settle s g)"
proof -
  let ?g = "after_settle s g"
  have exp: "cc_expected_chain_id cfg = Some cid" using sur by (simp add: surroundings_ok_def)
  from keepsD [OF cf_settlement_poll [OF exp] run, of True] ok
  have k: "sound_app cfg cid s" "a_seed_cache s = a_seed_cache (ix_app g)" by (simp_all add: indexer_ok_def confined_def)
  have "settled_inv env cfg c cid s"
    using keepsD [OF settles_poll [OF exp, unfolded settles_def] run] ok by (simp add: indexer_ok_def)
  moreover have "settle_view ?g = s" by (cases s) (simp add: after_settle_def settle_view_def app.defs setst.defs)
  moreover have "sup_inv env cfg (ix_sup ?g, sup_view ?g)"
    by (rule sup_inv_elsewhere [of env cfg g])
      (use ok k in \<open>simp_all add: indexer_ok_def sound_app_def after_settle_def net_ok_def app.defs\<close>)
  ultimately show ?thesis using ok k by (simp add: indexer_ok_def after_settle_def)
qed

lemma system_step_ok:
  assumes "system_step env cfg settlement g g'" and ok: "indexer_ok env cfg settlement cid g"
    and sur: "surroundings_ok env cfg cid"
  shows "indexer_ok env cfg settlement cid g'"
proof -
  have codec: "addr_codec_ok env" using sur by (simp add: surroundings_ok_def)
  have sound: "sound_app cfg cid (ix_app g)" and cache: "cache_checked env cfg (ix_app g)"
    using ok by (auto simp: indexer_ok_def cache_checked_def sound_app_def)
  have app: "indexer_ok env cfg settlement cid (g\<lparr>ix_app := a\<rparr>)" if "confined True True cfg cid (ix_app g) a" for a
    by (rule elsewhere_ok [OF ok]) (use that in simp_all)
  have seed: "indexer_ok env cfg settlement cid (after_seed sd g)"
    if "confined False True cfg cid (seed_view g) sd" and "cache_checked env cfg sd" for sd
    by (rule seed_ok [OF ok]) (use that in \<open>simp_all add: after_seed_def confined_def\<close>)
  show ?thesis
    using assms(1)
  proof (cases rule: system_step.cases)
    case (registry_round l s)
    with registry_round_ok [OF ok sur] show ?thesis by simp
  next
    case (settlement_round c r st)
    with settlement_round_ok [OF _ sur] ok show ?thesis by simp
  next
    case (seed_request cap ra sd)
    from seed [OF keepsD [OF cf_seed_topology seed_request(2)] seed_answer_checked [OF seed_request(2) _ _ codec, of cid]]
    show ?thesis using seed_request(1) sound cache by simp
  next
    case (seed_refresh ru sd)
    from seed [OF keepsD [OF cf_background seed_refresh(3)] background_checked [OF seed_refresh(3) _ codec]]
    show ?thesis using seed_refresh(1) cache by simp
  next
    case (seed_warming rb a)
    have "indexer_ok env cfg settlement cid (g\<lparr>ix_app := a\<rparr>)"
      by (rule seed_ok [OF ok])
        (use keepsD [OF cf_rounds(3) seed_warming(2)] warm_round_checked [OF seed_warming(2) cache codec] in simp_all)
    then show ?thesis using seed_warming(1) by simp
  next
    case (manager_round rb sb)
    have "confined True True cfg cid (ix_app g) (ix_app (after_subs sb g))"
      using keepsD [OF cf_manage manager_round(2), of True True cfg cid]
      by (simp add: confined_def after_subs_def)
    with manager_round show ?thesis by (intro elsewhere_ok [OF ok]) (simp_all add: after_subs_def)
  next
    case (node_text warns parse address data ru a)
    with app [OF keepsD [OF cf_message node_text(2)]] show ?thesis by simp
  next
    case (node_metrics address reply ru a)
    with app [OF keepsD [OF cf_metrics_tick node_metrics(2)]] show ?thesis by simp
  next
    case (node_pow address reading)
    with app [OF confined_pow] show ?thesis by simp
  next
    case (flush_round rb a)
    with app [OF keepsD [OF cf_rounds(2) flush_round(2)]] show ?thesis by simp
  next
    case (uptime_checks get secs rb a)
    with app [OF keepsD [OF cf_rounds(1) uptime_checks(2)]] show ?thesis by simp
  next
    case (state_request rs a)
    with app [OF keepsD [OF cf_get_state state_request(2)]] show ?thesis by simp
  next
    case (settlements_request k rt a)
    with app [OF keepsD [OF cf_get_settlements settlements_request(2)]] show ?thesis by simp
  next
    case (health_request rh a age)
    with app keepsD [OF cf_handlers(1)] keepsD [OF cf_handlers(2)] show ?thesis by metis
  next
    case (reputation_request rr a)
    with app [OF keepsD [OF cf_handlers(3) reputation_request(2)]] show ?thesis by simp
  next
    case (restart os open_pool args w s0)
    from started_ok [OF restart(2) indexer_backed [OF ok]] restart(1) show ?thesis by simp
  qed
qed

text \<open>
  C1: the indexer stays sound as a whole. From the start of the process over a database without a
  settlement checkpoint, through any interleaving of rounds of the registry sync, the settlement sync,
  the seed refreshes, the subscription manager, the node streams and scrapes, the flushes and uptime
  checks, of requests, and of restarts over the database left behind: a cached seed copy is always one
  the registry confirmed at its block; every block up to a settlement checkpoint is indexed; the replay
  progress is a fold of trusted logs; nodes and lifetime totals have one entry per address; and the event
  buffer holds at most 200 events. The registry sync can take its next round, unless an answer of an
  endpoint makes the profile decoder or the reading of the chain id panic, which ends its task.
  Assumed is that EXPECTED_CHAIN_ID is configured, without which a process takes the chain id the
  endpoints report; that the text of an address reads back as that address; and \<open>head_bounded\<close>: some
  confirmations are configured, or no endpoint claims the largest 64-bit block number as the head.
\<close>

theorem indexer_stays_sound:
  fixes env :: "('w, 'e) sysenv_scheme" and g :: "'w indexer"
  assumes "start_process os open_pool a tables w = Some (Inr (env, cfg, settlement, s0))"
    and "t_settlement_checkpoints tables = []" and "cc_expected_chain_id cfg = Some cid"
    and "addr_codec_ok env" and "head_bounded env cfg"
    and "(system_step env cfg settlement)\<^sup>*\<^sup>* (start_tasks env settlement s0) g"
  shows "(\<forall>c. a_seed_cache (ix_app g) = Some c \<longrightarrow> copy_checked env cfg c) \<and>
    (\<forall>c last b. settlement = Some c \<longrightarrow> stored_checkpoint env c cid (d_tables (ix_app g)) = Some last \<longrightarrow>
       sc_from_block c \<le> b \<longrightarrow> b \<le> last \<longrightarrow> block_indexed env c cid (d_tables (ix_app g)) b) \<and>
    (\<forall>p. ix_progress g = Some p \<longrightarrow> progress_ok env cfg p) \<and>
    distinct (map fst (a_nodes (ix_app g))) \<and> distinct (map fst (a_metric_offsets (ix_app g))) \<and>
    length (a_recent_events (ix_app g)) \<le> 200 \<and>
    (profiles_decode env cfg \<longrightarrow> (\<forall>i n. endpoint_gave (e_chain_id env) i () n \<longrightarrow> as_u64 n \<noteq> None) \<longrightarrow>
       sl_mode (ix_sup g) \<noteq> sup_mode.Stopped \<longrightarrow>
       (\<exists>l s. sup_task env cfg (ix_sup g) (sup_view g) = Some (Inr l, s)))"
proof -
  have sur: "surroundings_ok env cfg cid" using assms(3-5) by (simp add: surroundings_ok_def)
  have "ledger_backed env settlement cid tables"
    using assms(2) by (simp add: ledger_backed_def stored_checkpoint_def)
  from started_ok [OF assms(1) this] have start: "indexer_ok env cfg settlement cid (start_tasks env settlement s0)" .
  from assms(6) have ok: "indexer_ok env cfg settlement cid g"
  proof (induction rule: rtranclp_induct)
    case (step g g')
    from system_step_ok [OF step(2,3) sur] show ?case .
  qed (rule start)
  have "\<exists>l s. sup_task env cfg (ix_sup g) (sup_view g) = Some (Inr l, s)"
    if dec: "profiles_decode env cfg" "\<forall>i n. endpoint_gave (e_chain_id env) i () n \<longrightarrow> as_u64 n \<noteq> None"
      and run: "sl_mode (ix_sup g) \<noteq> sup_mode.Stopped"
  proof -
    from ok have inv: "sup_inv env cfg (ix_sup g, sup_view g)" by (simp add: indexer_ok_def)
    from sup_returns [OF inv assms(5) dec] obtain r s where t: "sup_task env cfg (ix_sup g) (sup_view g) = Some (r, s)" by blast
    with sup_step [OF t inv assms(5) run] show ?thesis by blast
  qed
  with ok show ?thesis by (auto simp: indexer_ok_def sound_app_def settled_inv_def sup_inv_def sup_ok_def)
qed

lemma demo_run_settlement:
  "settlement_config_new demo_sys (Some (hex_address 0xee)) None b =
     Inr (Some \<lparr>sc_entry_point = 0xee, sc_reward_pool = None, sc_from_block = b\<rparr>)"
proof -
  have trim: "trim (hex_address 0xee) = hex_address 0xee" by code_simp
  moreover have "hex_address 0xee \<noteq> []" by code_simp
  ultimately have "set_value (Some (hex_address 0xee)) = Some (hex_address 0xee)"
    by (cases "hex_address 0xee") (simp_all add: set_value_def)
  then show ?thesis
    by (simp add: settlement_config_new_def set_value_def [of None] parse_config_address_def trim
        demo_sys_ext hex_address_roundtrip)
qed

lemma demo_profiles: "profiles_decode demo_sys cfg"
proof -
  have "decode_fields demo_sys lay [FixedBytesToken (replicate 32 0), StringToken ''/ip4/8.8.8.8/tcp/9000'',
      StringToken [], StringToken [], UintToken 0, UintToken 0, BoolToken True] \<noteq> None" for lay
    by (cases lay) (simp_all add: decode_fields_def key_field_def string_field_def uint_field_def bool_field_def
        next_token_def task_bind_def task_of_res_def task_return_def task_fail_def)
  then show ?thesis
    by (simp add: profiles_decode_def decode_relayer_profile_def demo_sys_def demo_defs sysenv.defs split: sum.split)
qed

text \<open>The indexer of the examples starts, and its settlement sync runs once.\<close>

theorem indexer_stays_sound_witness:
  "\<exists>cfg c g. (\<exists>s0. start_process demo_sys (\<lambda>w. (True, w)) (demo_args\<lparr>ar_entry_point_address := Some (hex_address 0xee)\<rparr>)
       empty_tables () = Some (Inr (demo_sys, cfg, Some c, s0)) \<and>
       system_step demo_sys cfg (Some c) (start_tasks demo_sys (Some c) s0) g) \<and>
     (\<exists>l s. sup_task demo_sys cfg (ix_sup g) (sup_view g) = Some (Inr l, s))"
proof -
  let ?c = "\<lparr>sc_entry_point = 0xee, sc_reward_pool = None, sc_from_block = 100\<rparr>"
  let ?a = "demo_args\<lparr>ar_entry_point_address := Some (hex_address 0xee)\<rparr>"
  obtain cfg s0 where start: "start_process demo_sys (\<lambda>w. (True, w)) ?a empty_tables () =
      Some (Inr (demo_sys, cfg, Some ?c, s0))"
    using demo_starts [OF demo_run_settlement] by blast
  from started_state [OF start] have st: "net_ok cfg s0" "cc_expected_chain_id cfg = Some 421614" "head_bounded demo_sys cfg"
    by (simp_all add: demo_args_def)
  have ids: "endpoint_gave (e_chain_id demo_sys) i () n \<Longrightarrow> as_u64 n \<noteq> None" for i n
    by (auto simp: endpoint_gave_def as_u64_def)
  have "endpoint_gave (e_get_logs demo_sys) i q logs \<Longrightarrow> logs = []" for i q logs
    by (simp add: endpoint_gave_def)
  then have logs: "logs_decode demo_sys ?c" unfolding logs_decode_def by fastforce
  let ?g = "start_tasks demo_sys (Some ?c) s0"
  have "net_ok cfg (settle_view ?g)"
    using started_app(6) [of cfg 421614 demo_sys "Some ?c" s0] started_state [OF start] by (simp add: sound_app_def)
  from runsD [OF settlement_poll_runs [OF st(3) logs] this] ids
  obtain r s where "settlement_poll demo_sys cfg ?c (settle_view ?g) = Some (r, s)" by (auto simp: ids_fit_def)
  then have stp: "system_step demo_sys cfg (Some ?c) ?g (after_settle s ?g)" by (rule settlement_round [OF refl])
  have "sl_mode (ix_sup (after_settle s ?g)) \<noteq> sup_mode.Stopped"
    by (simp add: after_settle_def started_app sup_start_def)
  moreover have "(system_step demo_sys cfg (Some ?c))\<^sup>*\<^sup>* ?g (after_settle s ?g)"
    by (rule r_into_rtranclp) (rule stp)
  ultimately have "\<exists>l t. sup_task demo_sys cfg (ix_sup (after_settle s ?g)) (sup_view (after_settle s ?g)) = Some (Inr l, t)"
    using indexer_stays_sound [OF start _ st(2) demo_sys_codec st(3)] demo_profiles ids by (simp add: empty_tables_def)
  with start stp show ?thesis by blast
qed

end
