(* ===== verification/Spec2Isabelle.thy ===== *)
theory Spec2Isabelle
  imports Reputation Durable System
begin

text \<open>
  A model of the Nox indexer. The program follows the members of a NoxRegistry contract, keeps them in
  PostgreSQL, listens to the nodes they name, and serves what it knows over HTTP. Every theory below is a
  translation of source files under \<^verbatim>\<open>src/\<close> into executable definitions, or the lemmas about
  such a translation; this file only collects them.

  \<^bold>\<open>The parts and how they interact.\<close> \<^verbatim>\<open>main.rs\<close> checks the configuration, connects to
  the database, reads what the last process left, and starts tasks that share one state,
  \<^verbatim>\<open>AppState\<close>: the supervisor of the registry sync, the settlement sync, the manager of node
  subscriptions with an event stream and a scraper per node, the uptime check, the flush of lifetime totals,
  and the warming of the seed copy. The request handlers read that state. The registry and the settlement
  sync both read logs through one client with failover and one adaptive block range, and both write
  checkpoints; the manager follows the members the registry sync installed; the events and readings of nodes
  are checked against those members before they are kept or published.

  \<^bold>\<open>Theories, in the order of the calls.\<close>
  \<^item> \<open>Prelude\<close>: Rust's integers as words, checked and saturating operations, strings and their methods
    (lower case of ASCII letters only, which is what addresses and network names have),
    tables as association lists, and tasks: \<open>'s \<Rightarrow> ('a res \<times> 's) option\<close>, where None is a panic, Inl an
    error value and the state is kept on both. \<open>keeps R m\<close> says every outcome of a task is related to its start.
  \<^item> \<open>Float64\<close>: doubles as rounded reals, infinities and NaN, for the code that computes with them.
  \<^item> \<open>Retry\<close> (\<^verbatim>\<open>chain/retry.rs\<close>): classification of error texts, backoff, adaptive range.
  \<^item> \<open>Rpc\<close> (\<^verbatim>\<open>chain/rpc.rs\<close>): endpoints in order, the preferred one, who served the last logs.
  \<^item> \<open>External\<close>: library functions as the fields of a record the definitions take as an argument.
  \<^item> \<open>Profile\<close> (\<^verbatim>\<open>chain/profile.rs\<close>), \<open>Targets\<close> (\<^verbatim>\<open>node/targets.rs\<close>, admin URLs),
    \<open>Node\<close> (node data of \<^verbatim>\<open>state.rs\<close> and its database row).
  \<^item> \<open>Chain\<close> (\<^verbatim>\<open>chain/mod.rs\<close>): the registry client, its retries, the fetch loop, the pinned reads.
  \<^item> \<open>Metrics\<close>, \<open>Offsets\<close> (\<^verbatim>\<open>node/metrics.rs\<close>, \<^verbatim>\<open>node/offsets.rs\<close>): reports and
    lifetime totals.
  \<^item> \<open>Settled\<close> and \<open>Settlement\<close> (\<^verbatim>\<open>chain/settlement.rs\<close>): the data, and the sync.
  \<^item> \<open>Db\<close>, \<open>Reputation\<close>, \<open>DbLaws\<close> (\<^verbatim>\<open>db.rs\<close>): the statements, the reputation table, and the
    contracts of the checkpoint and log tables; \<open>Migrate\<close>: connecting and the scripts of \<^verbatim>\<open>migrations/\<close>.
  \<^item> \<open>State\<close> (\<^verbatim>\<open>state.rs\<close>, \<^verbatim>\<open>broadcast.rs\<close>): the shared state, health, deduplication.
  \<^item> \<open>Discovery\<close> (\<^verbatim>\<open>chain/discovery.rs\<close>), with \<open>Sync\<close>, \<open>Runs\<close>, \<open>Reconcile\<close> and
    \<open>Supervisor\<close> for what a sync and its supervisor guarantee.
  \<^item> \<open>Seed\<close> and \<open>Api\<close> (\<^verbatim>\<open>api.rs\<close>): the seed topology with its cache; the other handlers.
  \<^item> \<open>Subscriber\<close> and \<open>Feed\<close> (\<^verbatim>\<open>node/subscriber.rs\<close>, \<^verbatim>\<open>node/events.rs\<close>): events,
    metrics, subscriptions, uptime; and the event stream of one node.
  \<^item> \<open>Boot\<close> (\<^verbatim>\<open>config.rs\<close>, \<^verbatim>\<open>main.rs\<close>): the checks and the state the tasks begin with.
  \<^item> \<open>Durable\<close>: lifetime totals over restarts. \<open>Confined\<close>, \<open>Loops\<close> and \<open>System\<close>: what each task may
    change, the rounds of the task loops with their shutdown, and all of them interleaved.

  \<^bold>\<open>State.\<close> The records extend each other as the code nests its state: \<open>net\<close> (the world, transport,
  block range, cached chain id), \<open>dbst\<close> adds the tables, \<open>app\<close> the fields of \<^verbatim>\<open>AppState\<close>,
  and \<open>sup\<close>, \<open>seedst\<close>, \<open>setst\<close>, \<open>subst\<close> the locals of one task. An operation is stated over the
  smallest record it needs. What the outside answers is a function of the abstract world \<open>n_world\<close>, which
  every answer may change, so endpoints, clocks and the database may say anything at any time. A statement
  may fail before or after it took effect. Messages to WebSocket clients are the list \<open>a_sent\<close>.

  \<^bold>\<open>What the lemmas show.\<close> For each component, first that its invariant survives every operation and what
  each branch returns, then the statements over whole runs.
  \<^item> The range stays within its bounds under every sequence of reports; a request succeeds at the first
    healthy endpoint, and one healthy endpoint is enough; the fetch loop ends, and what it returns one endpoint
    served whole, with its head checked.
  \<^item> The pinned topology is a set the registry counted and fingerprinted; the seed endpoint serves only such
    sets, and a registry sync installs exactly the members of one, or flags what it could not verify; a sync that
    fails leaves what is served from memory alone; the supervisor is never stuck but where a decoder panics, and
    follows an unverified set only after two full replays that the registry denied.
  \<^item> The settlement sync skips no block through failures and restarts, storing twice changes nothing, and
    the totals count every stored settlement once.
  \<^item> Lifetime totals never go down, those of whole things grow no faster than a ceiling, and they come back
    after a restart as their stored decimals are read; a start that cannot read them overwrites them, a defect.
  \<^item> Events of nodes are published only for what the chain confirms; subscriptions follow the members.
  \<^item> The migrations can fail half way and be repeated; a process that starts meets the hypotheses of its tasks.
  \<^item> \<open>indexer_stays_sound\<close> puts these together over any interleaving of rounds, requests and restarts.

  Interfaces are locales, interpreted on the model: \<open>range_sizer\<close> in \<open>Retry\<close>, \<open>log_transport\<close> in
  \<open>Rpc\<close>, \<open>checkpoint_store\<close> and \<open>once_table\<close> in \<open>DbLaws\<close>.

  \<^bold>\<open>Arithmetic and bounds.\<close> Integers keep their width; additions that may overflow wrap, as in the release
  build, where the code does not use a saturating or checked operation. Only the counters of the
  supervisor's attempts (\<open>sup_loop\<close>) are natural numbers, in place of u32 ones that no run fills. The loops
  of the program that may run for ever are \<open>partial_function (option)\<close>, and where the program needs an end
  it is proved: the retries by their fixed number of attempts, the fetch loop by the attempts left and then
  the size of the range, the sync by the blocks left and the rounds of verification. No fuel is used.

  \<^bold>\<open>Assumed of the outside.\<close> \<open>addr_codec_ok\<close>: the text of an address parses back to it.
  \<open>profiles_decode\<close>, \<open>logs_decode\<close> and \<open>ids_fit\<close>: answers on which the decoders of the libraries do
  not panic, where a property says something returns; the panic of the profile decoder is stated separately.
  \<open>head_bounded\<close>: some confirmations are configured, or no endpoint claims the largest block number as the
  head. \<open>clock_ok\<close>: the monotonic clock does not go back, where the spacing of forced replays is stated.
  \<open>surroundings_ok\<close> collects what the whole system needs: the address texts, \<open>head_bounded\<close> and a
  configured chain id, without which a process takes the one its endpoints report. \<open>savable\<close>: the JSON
  written for an entry of totals can be read, as \<open>stored_form\<close>, which need not be the same doubles
  (\<open>totals_roundtrip\<close> says it is, and is assumed of zero totals only). Each property
  that uses one has an instance on which it holds.

  \<^bold>\<open>Interleaving.\<close> In \<open>System\<close> a round of a task or a request runs to its end before the next begins; a
  round that panics is not a step. Where the code holds no lock across its awaits, finer interleavings exist:
  \<open>interleaved_fetch_defeats_head_check\<close> and \<open>stale_rejection_raises_size\<close> are about two of them.

  \<^bold>\<open>Not modelled.\<close> The command line (clap), log output (but for the argument of one warning that can
  panic, evaluated when warnings are logged, a parameter of \<open>Feed\<close>), signal handlers, the HTTP listener, CORS and JSON
  rendering, and the spawning and joining of tasks: calls into libraries with no state of the program. The
  GeoIP reader is a lookup in a file through a library and a parameter here. HTTP requests to nodes and the
  server-sent event stream are arguments of the operations that use what they return. Of the migration scripts
  the statements that only create tables, columns or indexes leave the rows of the final schema as they are.
  Unit tests are not modelled.
\<close>

end
